(* ===== verification/Fgw_Prelude.thy ===== *)
theory Fgw_Prelude
  imports Complex_Main "HOL-Library.Word" "HOL-Library.Product_Lexorder"
begin

text \<open>
  Shared vocabulary of the development: the machine types of the C++ sources, raw byte
  buffers, \<^verbatim>\<open>std::map\<close> as an association list kept in key order, and the generic lemmas the
  component theories rely on. Nothing here is specific to one component.
\<close>

unbundle bit_operations_syntax

named_theorems fgw_defs \<open>definitions a component unfolds to reach its case analysis\<close>
named_theorems smap_simps \<open>lookup laws of the ordered maps\<close>

section \<open>Machine types\<close>

type_synonym u8 = "8 word"
type_synonym u16 = "16 word"
type_synonym u32 = "32 word"
type_synonym u64 = "64 word"
type_synonym byte = "8 word"
type_synonym bytes = "byte list"

lemma unat_ucast_u16: "unat (ucast (w :: u16) :: u32) = unat w"
  by transfer (simp add: take_bit_take_bit min_def)

lemma xor_cancel_left: "(a :: 'a::len word) XOR x = a XOR y \<longleftrightarrow> x = y"
proof
  assume "a XOR x = a XOR y"
  then have "a XOR (a XOR x) = a XOR (a XOR y)" by simp
  then show "x = y" by (simp flip: xor.assoc)
qed simp

lemma xor_eq_zero_iff: "(a :: 'a::len word) XOR b = 0 \<longleftrightarrow> a = b"
  using xor_cancel_left [of a b a] by auto

lemma bit_0xFF: "bit (0xFF :: int) n \<longleftrightarrow> n < 8"
proof -
  have eq: "(0xFF :: int) = mask 8" by (simp add: mask_eq_exp_minus_1)
  show ?thesis unfolding eq by (simp add: bit_mask_iff)
qed

section \<open>Raw buffers\<close>

text \<open>\<open>poke out off bs\<close> stores \<open>bs\<close> at offset \<open>off\<close> of a buffer, as a sequence of
  byte stores or a \<^verbatim>\<open>memcpy\<close> does; \<open>bslice\<close> reads \<open>n\<close> bytes at an offset.\<close>

definition poke :: "bytes \<Rightarrow> nat \<Rightarrow> bytes \<Rightarrow> bytes" where
  "poke out off bs = take off out @ bs @ drop (off + length bs) out"

definition bslice :: "nat \<Rightarrow> nat \<Rightarrow> bytes \<Rightarrow> bytes" where
  "bslice off n bs = take n (drop off bs)"

lemma length_poke [simp]: "off + length bs \<le> length out \<Longrightarrow> length (poke out off bs) = length out"
  by (simp add: poke_def)

lemma poke_end:
  "length pre = off \<Longrightarrow> poke (pre @ rest) off bs = (pre @ bs) @ drop (length bs) rest"
  by (simp add: poke_def)

lemma poke_append:
  assumes "length pre = off" and "length bs = length mid"
  shows "poke (pre @ mid @ post) off bs = pre @ bs @ post"
  using assms by (simp add: poke_def)

section \<open>std::map as an association list in key order\<close>

type_synonym ('k, 'v) std_map = "('k \<times> 'v) list"

text \<open>\<^verbatim>\<open>m[k] = v\<close>\<close>

fun smap_set :: "'k::linorder \<Rightarrow> 'v \<Rightarrow> ('k, 'v) std_map \<Rightarrow> ('k, 'v) std_map" where
  "smap_set k v [] = [(k, v)]"
| "smap_set k v ((a, b) # m) =
     (if k < a then (k, v) # (a, b) # m else if k = a then (k, v) # m else (a, b) # smap_set k v m)"

text \<open>\<^verbatim>\<open>m.find(k)\<close>, \<^verbatim>\<open>m.erase(k)\<close>, \<^verbatim>\<open>m.emplace(k, v)\<close> and \<^verbatim>\<open>m.count(k)\<close>.\<close>

definition smap_find :: "('k, 'v) std_map \<Rightarrow> 'k \<Rightarrow> 'v option" where
  "smap_find m k = map_of m k"

definition smap_erase :: "'k \<Rightarrow> ('k, 'v) std_map \<Rightarrow> ('k, 'v) std_map" where
  "smap_erase k m = filter (\<lambda>p. fst p \<noteq> k) m"

definition smap_emplace :: "'k::linorder \<Rightarrow> 'v \<Rightarrow> ('k, 'v) std_map \<Rightarrow> ('k, 'v) std_map" where
  "smap_emplace k v m = (if smap_find m k = None then smap_set k v m else m)"

definition smap_count :: "('k, 'v) std_map \<Rightarrow> 'k \<Rightarrow> bool" where
  "smap_count m k = (smap_find m k \<noteq> None)"

definition smap_inv :: "('k::linorder, 'v) std_map \<Rightarrow> bool" where
  "smap_inv m = sorted_wrt (<) (map fst m)"

lemma smap_find_Nil [simp]: "smap_find [] k = None"
  by (simp add: smap_find_def)

lemma smap_find_set: "smap_find (smap_set k v m) = (smap_find m)(k := Some v)"
  by (induction m) (auto simp: smap_find_def fun_eq_iff)

lemma smap_find_erase: "smap_find (smap_erase k m) = (smap_find m)(k := None)"
  by (induction m) (auto simp: smap_find_def smap_erase_def fun_eq_iff)

lemma keys_smap_set: "fst ` set (smap_set k v m) = insert k (fst ` set m)"
  by (induction k v m rule: smap_set.induct) (simp_all add: insert_commute)

lemma smap_find_in_set: "smap_find m k = Some v \<Longrightarrow> (k, v) \<in> set m"
  by (simp add: smap_find_def map_of_SomeD)

lemma smap_find_None_iff: "smap_find m k = None \<longleftrightarrow> k \<notin> fst ` set m"
  by (simp add: smap_find_def map_of_eq_None_iff)

lemma smap_inv_Nil [simp]: "smap_inv []"
  by (simp add: smap_inv_def)

lemma smap_inv_Cons: "smap_inv ((k, v) # m) \<longleftrightarrow> smap_inv m \<and> (\<forall>a \<in> fst ` set m. k < a)"
  by (auto simp: smap_inv_def)

lemma smap_inv_set: "smap_inv m \<Longrightarrow> smap_inv (smap_set k v m)"
  by (induction k v m rule: smap_set.induct)
    (auto simp: smap_inv_Cons keys_smap_set simp del: ball_simps dest: less_trans)

lemma smap_inv_erase: "smap_inv m \<Longrightarrow> smap_inv (smap_erase k m)"
  by (induction m) (auto simp: smap_inv_Cons smap_erase_def)

lemma smap_set_refs: "snd ` set (smap_set k v m) \<subseteq> insert v (snd ` set m)"
  by (induction k v m rule: smap_set.induct) auto

lemma smap_set_distinct_refs:
  "distinct (map snd m) \<Longrightarrow> v \<notin> snd ` set m \<Longrightarrow> distinct (map snd (smap_set k v m))"
proof (induction k v m rule: smap_set.induct)
  case (2 k v a b m)
  then show ?case using smap_set_refs [of k v m] by auto
qed simp

lemma smap_set_entries: "smap_inv m \<Longrightarrow> (a, b) \<in> set (smap_set k v m) \<Longrightarrow> (a, b) = (k, v) \<or> (a, b) \<in> set m"
  by (induction k v m rule: smap_set.induct) (auto simp: smap_inv_Cons split: if_splits)

lemma smap_emplace_entries:
  "smap_inv m \<Longrightarrow> (a, b) \<in> set (smap_emplace k v m) \<Longrightarrow> (a, b) = (k, v) \<or> (a, b) \<in> set m"
  using smap_set_entries [of m a b k v] by (auto simp: smap_emplace_def split: if_splits option.splits)

lemma smap_emplace_keys: "fst ` set (smap_emplace k v m) = insert k (fst ` set m)"
  using keys_smap_set [of k v m] smap_find_None_iff [of m k]
  by (auto simp: smap_emplace_def split: option.splits)

lemma smap_emplace_inv: "smap_inv m \<Longrightarrow> smap_inv (smap_emplace k v m)"
  by (auto simp: smap_emplace_def smap_inv_set split: option.splits)

lemma smap_inv_distinct: "smap_inv m \<Longrightarrow> distinct (map fst m)"
  unfolding smap_inv_def by (metis strict_sorted_iff)

lemma smap_in_set_find: "smap_inv m \<Longrightarrow> (k, v) \<in> set m \<Longrightarrow> smap_find m k = Some v"
  unfolding smap_find_def by (rule map_of_is_SomeI [OF smap_inv_distinct])

text \<open>
  The interface the components rely on: what a lookup returns after an insertion or a removal,
  and that both keep the representation invariant. The laws are stated once, the derived
  facts are proved inside, and the association lists above are the instance every component uses.
\<close>

locale assoc_container =
  fixes find :: "'m \<Rightarrow> 'k \<Rightarrow> 'v option"
    and put :: "'k \<Rightarrow> 'v \<Rightarrow> 'm \<Rightarrow> 'm"
    and del :: "'k \<Rightarrow> 'm \<Rightarrow> 'm"
    and inv :: "'m \<Rightarrow> bool"
  assumes find_put: "find (put k v m) = (find m)(k := Some v)"
    and find_del: "find (del k m) = (find m)(k := None)"
    and inv_put: "inv m \<Longrightarrow> inv (put k v m)"
    and inv_del: "inv m \<Longrightarrow> inv (del k m)"
begin

lemma find_put_same: "find (put k v m) k = Some v"
  by (simp add: find_put)

lemma find_put_other: "k' \<noteq> k \<Longrightarrow> find (put k v m) k' = find m k'"
  by (simp add: find_put)

lemma find_del_same: "find (del k m) k = None"
  by (simp add: find_del)

lemma find_del_other: "k' \<noteq> k \<Longrightarrow> find (del k m) k' = find m k'"
  by (simp add: find_del)

lemma dom_put: "dom (find (put k v m)) = insert k (dom (find m))"
  by (auto simp: find_put)

lemma dom_del: "dom (find (del k m)) = dom (find m) - {k}"
  by (auto simp: find_del)

lemma inv_fold_del: "inv m \<Longrightarrow> inv (fold del ks m)"
  by (induction ks arbitrary: m) (auto intro: inv_del)

end

interpretation smap: assoc_container smap_find smap_set smap_erase smap_inv
  by unfold_locales (auto simp: smap_find_set smap_find_erase smap_inv_set smap_inv_erase)

declare smap.find_put [smap_simps] smap.find_del [smap_simps]

end
