(* ===== verification/Fgw_Proto.thy ===== *)
theory Fgw_Proto
  imports Fgw_Prelude
begin

text \<open>
  The public constants of \<^verbatim>\<open>src/src/zfgw.h\<close> and the message and configuration structs of
  \<^verbatim>\<open>src/src/zfgw_proto.h\<close>. A field keeps its C++ name behind a short prefix of its struct.
  The generated \<^verbatim>\<open>operator==\<close> compares field by field, which is equality of the records.
  A C++ \<^verbatim>\<open>int\<close> result is an \<open>int\<close>; the error enumerators lie above \<^verbatim>\<open>INT_MAX\<close> and become
  negative when a function returns them as \<^verbatim>\<open>int\<close>. A \<^verbatim>\<open>double\<close> is a \<open>rat\<close>.
\<close>

section \<open>zfgw.h\<close>

definition kFgwWireIngressUseLocal :: u32 where
  "kFgwWireIngressUseLocal = 0xFFFFFFFF"

definition kFgwProtoVersion :: u16 where
  "kFgwProtoVersion = 2"

definition kFgwConfigVersion :: u32 where
  "kFgwConfigVersion = 0xF6C00003"

definition fgwConfigVersionOk :: "u32 \<Rightarrow> bool" where
  "fgwConfigVersionOk v = (v = kFgwConfigVersion)"

text \<open>\<^verbatim>\<open>enum ZFGW_ERRCODE\<close>: the enumerators in declaration order, as the \<^verbatim>\<open>int\<close> a caller sees.\<close>

datatype ZFGW_ERRCODE =
    ERR_BASE | ERR_EXCEPTION | ERR_MEMORY | ERR_BUSY | ERR_NOTRUNNING | ERR_INVALIDCONFIG
  | ERR_INVALIDROLE | ERR_LISTENFAIL | ERR_NOCHANNEL | ERR_CHANNELFAIL | ERR_BADSEGMENT
  | ERR_WINDOWFULL | ERR_SOCKS5REJECT | ERR_SOCKS5BADVERSION | ERR_SOCKS5BADCMD
  | ERR_SOCKS5AUTHFAIL | ERR_TARGETUNREACH | ERR_PATHFILEWRITE | ERR_PATHFILEREAD
  | ERR_CHANNELEXISTS | ERR_CHANNELNOTFOUND

primrec errcode_index :: "ZFGW_ERRCODE \<Rightarrow> nat" where
  "errcode_index ERR_BASE = 0"
| "errcode_index ERR_EXCEPTION = 1"
| "errcode_index ERR_MEMORY = 2"
| "errcode_index ERR_BUSY = 3"
| "errcode_index ERR_NOTRUNNING = 4"
| "errcode_index ERR_INVALIDCONFIG = 5"
| "errcode_index ERR_INVALIDROLE = 6"
| "errcode_index ERR_LISTENFAIL = 7"
| "errcode_index ERR_NOCHANNEL = 8"
| "errcode_index ERR_CHANNELFAIL = 9"
| "errcode_index ERR_BADSEGMENT = 10"
| "errcode_index ERR_WINDOWFULL = 11"
| "errcode_index ERR_SOCKS5REJECT = 12"
| "errcode_index ERR_SOCKS5BADVERSION = 13"
| "errcode_index ERR_SOCKS5BADCMD = 14"
| "errcode_index ERR_SOCKS5AUTHFAIL = 15"
| "errcode_index ERR_TARGETUNREACH = 16"
| "errcode_index ERR_PATHFILEWRITE = 17"
| "errcode_index ERR_PATHFILEREAD = 18"
| "errcode_index ERR_CHANNELEXISTS = 19"
| "errcode_index ERR_CHANNELNOTFOUND = 20"

definition errcode :: "ZFGW_ERRCODE \<Rightarrow> int" where
  "errcode e = 0x83040000 + int (errcode_index e) - 2 ^ 32"

lemma errcode_neg [simp]: "errcode e < 0"
  by (cases e) (simp_all add: errcode_def)

lemma errcode_not_nonneg [simp]: "\<not> 0 \<le> errcode e" "\<not> 0 < errcode e" "errcode e \<noteq> 0"
  using errcode_neg [of e] by linarith+

lemma errcode_ne_int [simp]: "int n \<noteq> errcode e" "errcode e \<noteq> int n" "errcode e \<noteq> numeral k"
  "numeral k \<noteq> errcode e"
  using errcode_neg [of e] by (metis of_nat_0_le_iff not_le zero_le_numeral)+

lemma errcode_inject [simp]: "errcode a = errcode b \<longleftrightarrow> a = b"
proof
  assume "errcode a = errcode b"
  then have "errcode_index a = errcode_index b"
    by (simp add: errcode_def)
  then show "a = b"
    by (cases a; cases b; simp)
qed simp

definition ZFGW_ROLE_INPORT :: u8 where "ZFGW_ROLE_INPORT = 0"
definition ZFGW_ROLE_OUTPORT :: u8 where "ZFGW_ROLE_OUTPORT = 1"
definition ZFGW_ROLE_TRANSIT :: u8 where "ZFGW_ROLE_TRANSIT = 2"

text \<open>\<^verbatim>\<open>enum ZFGW_CHANNEL_KIND\<close>\<close>

datatype ZFGW_CHANNEL_KIND = CHANNEL_TCP | CHANNEL_UTP

text \<open>\<^verbatim>\<open>enum ZFGW_MULTIPATH_MODE\<close>; a cast from a configuration byte keeps values that name no
  enumerator, and \<^verbatim>\<open>switch\<close> sends those to its \<^verbatim>\<open>default\<close> label.\<close>

datatype ZFGW_MULTIPATH_MODE =
  MULTIPATH_BEST | MULTIPATH_ALL | MULTIPATH_WEIGHTED | MULTIPATH_OTHER u8

definition multipath_mode_cast :: "u8 \<Rightarrow> ZFGW_MULTIPATH_MODE" where
  "multipath_mode_cast b =
     (if b = 0 then MULTIPATH_BEST else if b = 1 then MULTIPATH_ALL
      else if b = 2 then MULTIPATH_WEIGHTED else MULTIPATH_OTHER b)"

section \<open>zfgw_proto.h\<close>

record FgwEndpoint =
  ep_host :: string
  ep_port :: u16

record FgwChannelConfig =
  cc_channel_id :: u32
  cc_kind :: u8
  cc_remote :: FgwEndpoint
  cc_priority :: u32

record FgwConfig =
  cfg_role :: u8
  cfg_ingress_id :: u32
  cfg_inport_listen_port :: u16
  cfg_outport_listen_host :: string
  cfg_outport_listen_port :: u16
  cfg_channels :: "FgwChannelConfig list"
  cfg_segment_size :: u16
  cfg_recv_window :: u16
  cfg_heartbeat_interval :: u16
  cfg_link_timeout :: u16
  cfg_reconnect_max :: u16
  cfg_multipath_mode :: u8
  cfg_enable_crc :: u8
  cfg_route_outport_id :: u32
  cfg_config_version :: u32

record FgwLinkQuality =
  flq_channel_id :: u32
  flq_connected :: u8
  flq_rtt_ms :: u32
  flq_loss_rate :: rat
  flq_bytes_sent :: u64
  flq_bytes_recv :: u64
  flq_send_segments :: u32
  flq_recv_segments :: u32
  flq_rexmit_segments :: u32

record FgwSessionStat =
  ss_session_id :: u32
  ss_ingress_id :: u32
  ss_client_addr :: string
  ss_target_addr :: string
  ss_bytes_sent :: u64
  ss_bytes_recv :: u64
  ss_open_timestamp :: u32

record FgwStatus =
  fst_running :: u8
  fst_role :: u8
  fst_session_count :: u32
  fst_links :: "FgwLinkQuality list"
  fst_sessions :: "FgwSessionStat list"

record FgwEmpty =
  fe_placeholder :: u8

record FgwStartRequest =
  sreq_force_restart :: u8

record FgwStartResult =
  sres_errcode :: int
  sres_message :: string

record FgwAddChannelRequest =
  areq_channel :: FgwChannelConfig

record FgwRemoveChannelRequest =
  rreq_channel_id :: u32

record FgwSetConfigRequest =
  creq_config :: FgwConfig

record FgwHello =
  hello_proto_version :: u16
  hello_role :: u8
  hello_ingress_id :: u32
  hello_outport_id :: u32
  hello_channel_id :: u32
  hello_generation :: u32

record FgwLinkFeedback =
  fb_decision_epoch :: u32
  fb_recommended_primary :: u32
  fb_alive_bitmap :: u32
  fb_highest_seq :: u32

text \<open>Value-initialised structs \<^verbatim>\<open>T{}\<close>: the member initialisers of the header, zero elsewhere.\<close>

definition FgwEndpoint_init :: FgwEndpoint where
  "FgwEndpoint_init = \<lparr>ep_host = [], ep_port = 0\<rparr>"

definition FgwChannelConfig_init :: FgwChannelConfig where
  "FgwChannelConfig_init =
     \<lparr>cc_channel_id = 0, cc_kind = 0, cc_remote = FgwEndpoint_init, cc_priority = 100\<rparr>"

definition FgwConfig_init :: FgwConfig where
  "FgwConfig_init =
     \<lparr>cfg_role = 0, cfg_ingress_id = 0, cfg_inport_listen_port = 1080,
      cfg_outport_listen_host = [], cfg_outport_listen_port = 0, cfg_channels = [],
      cfg_segment_size = 1200, cfg_recv_window = 1024, cfg_heartbeat_interval = 5,
      cfg_link_timeout = 15, cfg_reconnect_max = 60, cfg_multipath_mode = 2,
      cfg_enable_crc = 1, cfg_route_outport_id = 0, cfg_config_version = 0\<rparr>"

definition FgwHello_init :: FgwHello where
  "FgwHello_init =
     \<lparr>hello_proto_version = 2, hello_role = 0, hello_ingress_id = 0, hello_outport_id = 0,
      hello_channel_id = 0, hello_generation = 0\<rparr>"

definition FgwLinkFeedback_init :: FgwLinkFeedback where
  "FgwLinkFeedback_init =
     \<lparr>fb_decision_epoch = 0, fb_recommended_primary = 0, fb_alive_bitmap = 0, fb_highest_seq = 0\<rparr>"

end
