(* ===== verification/Fgw_Crc.thy ===== *)
theory Fgw_Crc
  imports Fgw_Prelude
begin

text \<open>
  The table-driven CRC-32 of \<^verbatim>\<open>src/src/zfgw_segment.cpp\<close>: the table constructor, the shared
  per-byte update and \<^verbatim>\<open>fgwCrc32\<close>. The lemmas relate the table to the bit-serial shift
  register it is built from, show that the register is linear and injective, and conclude that
  a corruption confined to four consecutive bytes always changes the checksum.
\<close>

section \<open>The code\<close>

definition kCrc32Poly :: u32 where
  "kCrc32Poly = 0xEDB88320"

definition crc_shift :: "u32 \<Rightarrow> u32" where
  "crc_shift c = (if c AND 1 \<noteq> 0 then kCrc32Poly XOR drop_bit 1 c else drop_bit 1 c)"

text \<open>\<^verbatim>\<open>Crc32Table::Crc32Table()\<close>: eight shifts for every byte value.\<close>

definition kCrc32Tbl :: "u32 list" where
  "kCrc32Tbl = map (\<lambda>i. (crc_shift ^^ 8) (of_nat i)) [0..<256]"

text \<open>One iteration of the loops in \<^verbatim>\<open>crc_ok\<close> and \<^verbatim>\<open>fgwCrc32\<close>.\<close>

definition crc_update :: "u32 \<Rightarrow> byte \<Rightarrow> u32" where
  "crc_update c b = kCrc32Tbl ! unat ((c XOR ucast b) AND 0xFF) XOR drop_bit 8 c"

definition fgwCrc32 :: "bytes \<Rightarrow> u32 \<Rightarrow> u32" where
  "fgwCrc32 data seed = foldl crc_update (seed XOR 0xFFFFFFFF) data XOR 0xFFFFFFFF"

section \<open>The bit-serial reference\<close>

text \<open>The textbook reflected CRC: each message bit enters at the low end of the register.\<close>

definition crc_serial_byte :: "u32 \<Rightarrow> byte \<Rightarrow> u32" where
  "crc_serial_byte c b = (crc_shift ^^ 8) (c XOR ucast b)"

definition crc_serial :: "bytes \<Rightarrow> u32 \<Rightarrow> u32" where
  "crc_serial data seed = foldl crc_serial_byte (seed XOR 0xFFFFFFFF) data XOR 0xFFFFFFFF"

section \<open>Linearity and injectivity of the register\<close>

lemma and_one_bit: "(c :: u32) AND 1 \<noteq> 0 \<longleftrightarrow> bit c 0"
  by (metis and_one_eq bit_0 odd_iff_mod_2_eq_one zero_neq_one mod2_eq_if)

lemma crc_shift_bit: "crc_shift c = (if bit c 0 then kCrc32Poly XOR drop_bit 1 c else drop_bit 1 c)"
  by (simp add: crc_shift_def and_one_bit)

lemma crc_shift_xor: "crc_shift (x XOR y) = crc_shift x XOR crc_shift y"
  by (simp add: crc_shift_bit bit_xor_iff ac_simps flip: drop_bit_xor)

lemma crc_shift_zero [simp]: "crc_shift 0 = 0"
  by (simp add: crc_shift_bit)

lemma crc_shifts_xor: "(crc_shift ^^ n) (x XOR y) = (crc_shift ^^ n) x XOR (crc_shift ^^ n) y"
  by (induction n) (simp_all add: crc_shift_xor)

lemma crc_shifts_zero [simp]: "(crc_shift ^^ n) 0 = 0"
  by (induction n) simp_all

lemma poly_top_bit: "bit kCrc32Poly 31"
  by (simp add: kCrc32Poly_def)

lemma crc_shift_top_bit: "bit (crc_shift c) 31 \<longleftrightarrow> bit c 0"
proof -
  have "\<not> bit c 32"
    using bit_imp_le_length [of c 32] by auto
  then show ?thesis
    using poly_top_bit by (auto simp: crc_shift_bit bit_xor_iff bit_drop_bit_eq)
qed

lemma crc_shift_inj: "crc_shift x = crc_shift y \<Longrightarrow> x = y"
proof -
  assume eq: "crc_shift x = crc_shift y"
  then have low: "bit x 0 \<longleftrightarrow> bit y 0"
    by (metis crc_shift_top_bit)
  with eq have high: "drop_bit 1 x = drop_bit 1 y"
    by (auto simp: crc_shift_bit xor_cancel_left split: if_splits)
  show "x = y"
  proof (rule bit_word_eqI)
    fix n
    show "bit x n \<longleftrightarrow> bit y n"
    proof (cases n)
      case (Suc m)
      then have "bit x n = bit (drop_bit 1 x) m" "bit y n = bit (drop_bit 1 y) m"
        by (simp_all add: bit_drop_bit_eq)
      with high show ?thesis by simp
    qed (use low in simp)
  qed
qed

lemma crc_shifts_inj: "(crc_shift ^^ n) x = (crc_shift ^^ n) y \<Longrightarrow> x = y"
  by (induction n) (auto dest: crc_shift_inj)

text \<open>A register whose low bits are clear is only shifted.\<close>

lemma crc_shifts_high:
  "(\<And>i. i < n \<Longrightarrow> \<not> bit c i) \<Longrightarrow> (crc_shift ^^ n) c = drop_bit n c"
proof (induction n arbitrary: c)
  case (Suc n)
  then have "crc_shift c = drop_bit 1 c"
    by (simp add: crc_shift_bit)
  moreover have "(crc_shift ^^ n) (drop_bit 1 c) = drop_bit n (drop_bit 1 c)"
    by (rule Suc.IH) (use Suc.prems in \<open>simp add: bit_drop_bit_eq\<close>)
  ultimately show ?case
    by (simp add: funpow_swap1 drop_bit_drop_bit)
qed simp

section \<open>The table computes the register\<close>

lemma kCrc32Tbl_nth: "i < 256 \<Longrightarrow> kCrc32Tbl ! i = (crc_shift ^^ 8) (of_nat i)"
  by (simp add: kCrc32Tbl_def)

lemma low_byte_lt: "unat ((c :: u32) AND 0xFF) < 256"
proof -
  have "c AND 0xFF \<le> 0xFF" by (rule word_and_le1)
  then show ?thesis by (simp add: word_le_nat_alt)
qed

lemma low_byte_split: "(c :: u32) = (c AND 0xFF) XOR push_bit 8 (drop_bit 8 c)"
proof (rule bit_word_eqI)
  fix n assume "n < LENGTH(32)"
  then show "bit c n = bit ((c AND 0xFF) XOR push_bit 8 (drop_bit 8 c)) n"
    by (auto simp: bit_simps bit_0xFF)
qed

lemma crc_update_serial: "crc_update c b = crc_serial_byte c b"
proof -
  let ?x = "c XOR ucast b :: u32"
  have high: "(crc_shift ^^ 8) (push_bit 8 (drop_bit 8 ?x)) = drop_bit 8 (push_bit 8 (drop_bit 8 ?x))"
    by (rule crc_shifts_high) (simp add: bit_simps)
  have shifts: "drop_bit 8 (push_bit 8 (drop_bit 8 ?x)) = drop_bit 8 c"
    by (rule bit_word_eqI) (auto simp: bit_simps dest: bit_imp_le_length)
  have "crc_serial_byte c b = (crc_shift ^^ 8) (?x AND 0xFF) XOR (crc_shift ^^ 8) (push_bit 8 (drop_bit 8 ?x))"
    unfolding crc_serial_byte_def
    by (subst low_byte_split [of ?x]) (rule crc_shifts_xor)
  also have "\<dots> = kCrc32Tbl ! unat (?x AND 0xFF) XOR drop_bit 8 c"
    unfolding high shifts by (simp add: kCrc32Tbl_nth low_byte_lt)
  finally show ?thesis
    by (simp add: crc_update_def)
qed

theorem fgwCrc32_serial: "fgwCrc32 data seed = crc_serial data seed"
proof -
  have "crc_update = crc_serial_byte"
    by (intro ext) (rule crc_update_serial)
  then show ?thesis
    by (simp add: fgwCrc32_def crc_serial_def)
qed

section \<open>Bursts of up to four bytes\<close>

text \<open>The difference of two registers fed with byte lists of the same length evolves on its own.\<close>

lemma crc_serial_byte_xor:
  "crc_serial_byte c b XOR crc_serial_byte c' b' = crc_serial_byte (c XOR c') (b XOR b')"
proof -
  have "ucast (b XOR b') = (ucast b XOR ucast b' :: u32)"
    by (rule bit_word_eqI) (auto simp: bit_simps)
  then show ?thesis
    by (simp add: crc_serial_byte_def ac_simps flip: crc_shifts_xor)
qed

lemma foldl_crc_xor:
  "length xs = length ys \<Longrightarrow>
   foldl crc_serial_byte c xs XOR foldl crc_serial_byte c' ys =
   foldl crc_serial_byte (c XOR c') (map2 (XOR) xs ys)"
proof (induction xs ys arbitrary: c c' rule: list_induct2)
  case (Cons x xs y ys)
  show ?case
    using Cons.IH [of "crc_serial_byte c x" "crc_serial_byte c' y"]
    by (simp add: crc_serial_byte_xor)
qed simp

lemma foldl_crc_inj: "foldl crc_serial_byte c xs = foldl crc_serial_byte c' xs \<Longrightarrow> c = c'"
proof (induction xs arbitrary: c c')
  case (Cons x xs)
  then have "crc_serial_byte c x = crc_serial_byte c' x"
    by simp
  then have "c XOR ucast x = c' XOR ucast x"
    unfolding crc_serial_byte_def by (rule crc_shifts_inj)
  then show ?case
    by (metis xor.commute xor_cancel_left)
qed simp

text \<open>Eight shifts that end below bit 24 started from the same value eight bits further up.\<close>

lemma crc_shifts_back:
  assumes "(crc_shift ^^ n) c = v" and "\<And>i. 32 - n \<le> i \<Longrightarrow> \<not> bit v i" and "n \<le> 32"
  shows "c = push_bit n v"
proof (rule crc_shifts_inj [of n])
  have "(crc_shift ^^ n) (push_bit n v) = drop_bit n (push_bit n v)"
    by (rule crc_shifts_high) (simp add: bit_simps)
  also have "\<dots> = v"
    using assms(2,3)
    by (intro bit_word_eqI) (auto simp: bit_simps, metis add.commute not_less le_diff_conv)
  finally show "(crc_shift ^^ n) c = (crc_shift ^^ n) (push_bit n v)"
    using assms(1) by simp
qed

lemma burst_zero:
  assumes "foldl crc_serial_byte 0 es = v" and "length es \<le> 4"
    and "\<And>i. 32 - 8 * length es \<le> i \<Longrightarrow> \<not> bit v i"
  shows "v = 0 \<and> (\<forall>e \<in> set es. e = 0)"
  using assms
proof (induction es arbitrary: v rule: rev_induct)
  case (snoc e es)
  let ?d = "foldl crc_serial_byte 0 es"
  have "(crc_shift ^^ 8) (?d XOR ucast e) = v"
    using snoc.prems(1) by (simp add: crc_serial_byte_def [of "?d"])
  then have step: "?d XOR ucast e = push_bit 8 v"
    by (rule crc_shifts_back) (use snoc.prems(2,3) in auto)
  then have d: "?d = push_bit 8 v XOR ucast e"
    by (simp add: xor.assoc flip: step)
  have "?d = 0 \<and> (\<forall>e \<in> set es. e = 0)"
  proof (rule snoc.IH [OF refl])
    show "length es \<le> 4" using snoc.prems(2) by simp
    fix i :: nat assume i: "32 - 8 * length es \<le> i"
    have "\<not> bit (push_bit 8 v) i"
      using i snoc.prems(2) snoc.prems(3) [of "i - 8"] by (auto simp: bit_simps)
    moreover have "\<not> bit (ucast e :: u32) i"
      using i snoc.prems(2) by (auto simp: bit_simps dest: bit_imp_le_length)
    ultimately show "\<not> bit ?d i"
      unfolding d by (simp add: bit_xor_iff)
  qed
  then have es: "\<forall>e \<in> set es. e = 0" and eq: "ucast e = push_bit 8 v"
    using step by simp_all
  have e: "e = 0"
  proof (rule bit_word_eqI)
    fix i assume "i < LENGTH(8)"
    then have "bit e i \<longleftrightarrow> bit (ucast e :: u32) i"
      by (simp add: bit_simps)
    then show "bit e i \<longleftrightarrow> bit (0 :: byte) i"
      using \<open>i < LENGTH(8)\<close> by (simp add: eq bit_simps)
  qed
  have "v = 0"
  proof (rule bit_word_eqI)
    fix i assume "i < LENGTH(32)"
    show "bit v i \<longleftrightarrow> bit (0 :: u32) i"
    proof (cases "i < 24")
      case True
      then have "bit v i \<longleftrightarrow> bit (push_bit 8 v) (i + 8)" by (simp add: bit_simps)
      then show ?thesis using e eq by (simp add: flip: eq)
    next
      case False
      with snoc.prems(2) snoc.prems(3) [of i] show ?thesis by simp
    qed
  qed
  with es e show ?case by simp
qed simp

lemma map2_xor_zero:
  "length xs = length ys \<Longrightarrow> \<forall>e \<in> set (map2 (XOR) xs ys). e = (0 :: byte) \<Longrightarrow> xs = ys"
proof (induction xs ys rule: list_induct2)
  case (Cons x xs y ys)
  then have "x XOR y = 0" by simp
  with Cons show ?case by (simp add: xor_eq_zero_iff)
qed simp

theorem fgwCrc32_burst:
  assumes "fgwCrc32 (pre @ mid @ post) seed = fgwCrc32 (pre @ mid' @ post) seed"
    and "length mid = length mid'" and "length mid \<le> 4"
  shows "mid = mid'"
proof -
  let ?c = "foldl crc_serial_byte (seed XOR 0xFFFFFFFF) pre"
  have "foldl crc_serial_byte (foldl crc_serial_byte ?c mid) post =
        foldl crc_serial_byte (foldl crc_serial_byte ?c mid') post"
    using assms(1) by (simp add: fgwCrc32_serial crc_serial_def) (metis xor.commute xor_cancel_left)
  then have "foldl crc_serial_byte ?c mid = foldl crc_serial_byte ?c mid'"
    by (rule foldl_crc_inj)
  then have "foldl crc_serial_byte 0 (map2 (XOR) mid mid') = 0"
    using foldl_crc_xor [OF assms(2), of ?c ?c] by simp
  then have "\<forall>e \<in> set (map2 (XOR) mid mid'). e = 0"
    using burst_zero [of "map2 (XOR) mid mid'" 0] assms(2,3) by simp
  then show ?thesis
    by (rule map2_xor_zero [OF assms(2)])
qed

section \<open>The checksum\<close>

lemma crc_byte_unfold: "crc_serial_byte c b = crc_shift (crc_shift (crc_shift (crc_shift (crc_shift (crc_shift (crc_shift (crc_shift (c XOR ucast b))))))))"
  by (simp add: crc_serial_byte_def eval_nat_numeral)
lemma crc_shift_numeral: "crc_shift (numeral n) = (if (numeral n :: u32) AND 1 = 0 then drop_bit 1 (numeral n) else kCrc32Poly XOR drop_bit 1 (numeral n))"
  by (simp add: crc_shift_def)
lemma fgwCrc32_check_value:
  "fgwCrc32 [0x31, 0x32, 0x33, 0x34, 0x35, 0x36, 0x37, 0x38, 0x39] 0 = 0xCBF43926"
  by (simp add: fgwCrc32_serial crc_serial_def crc_byte_unfold crc_shift_numeral kCrc32Poly_def)


text \<open>C34: The table-driven fgwCrc32 computes the reflected bit-serial CRC-32 with polynomial 0xEDB88320 for every
  input and seed, and it can be computed piecewise by passing the CRC of a prefix as the seed.\<close>

theorem crc_table_is_bit_serial:
  "fgwCrc32 data seed = crc_serial data seed \<and>
   fgwCrc32 (data @ data') seed = fgwCrc32 data' (fgwCrc32 data seed)"
  by (simp add: fgwCrc32_serial crc_serial_def xor.assoc)

end
