(* ===== verification/Fgw_Segment.thy ===== *)
theory Fgw_Segment
  imports Fgw_Proto Fgw_Crc
begin

text \<open>
  The wire framing of \<^verbatim>\<open>src/src/zfgw_segment.h\<close> and \<^verbatim>\<open>src/src/zfgw_segment.cpp\<close>: header
  struct, flag tests, big-endian packing, \<^verbatim>\<open>fgwSegmentEncode\<close>, \<^verbatim>\<open>fgwSegmentPeekHeader\<close> and
  \<^verbatim>\<open>fgwSegmentVerifyCrc\<close>. A pointer with a size is a byte list; the output buffer of the encoder
  is an optional byte list (\<open>None\<close> is \<^verbatim>\<open>nullptr\<close>) with its size passed separately, as in the
  code. \<open>segment_image\<close> is the abstract frame that the encoder is shown to write.
\<close>

section \<open>Header and flags\<close>

definition SEG_MAGIC :: u8 where "SEG_MAGIC = 0xF6"
definition MAX_PAYLOAD :: nat where "MAX_PAYLOAD = 65519"
definition HEADER_SIZE :: nat where "HEADER_SIZE = 20"
definition LEGACY_HEADER_SIZE :: nat where "LEGACY_HEADER_SIZE = 16"
definition ROUTED_HEADER_SIZE :: nat where "ROUTED_HEADER_SIZE = 24"

lemmas seg_sizes = MAX_PAYLOAD_def HEADER_SIZE_def LEGACY_HEADER_SIZE_def ROUTED_HEADER_SIZE_def

definition FLAG_SYN :: u8 where "FLAG_SYN = 0x01"
definition FLAG_FIN :: u8 where "FLAG_FIN = 0x02"
definition FLAG_DATA :: u8 where "FLAG_DATA = 0x04"
definition FLAG_ACK :: u8 where "FLAG_ACK = 0x08"
definition FLAG_HEARTBEAT :: u8 where "FLAG_HEARTBEAT = 0x10"
definition FLAG_HELLO :: u8 where "FLAG_HELLO = 0x20"
definition FLAG_HDR_ROUTE :: u8 where "FLAG_HDR_ROUTE = 0x40"
definition FLAG_HDR_EXT :: u8 where "FLAG_HDR_EXT = 0x80"

lemmas seg_flags = FLAG_SYN_def FLAG_FIN_def FLAG_DATA_def FLAG_ACK_def FLAG_HEARTBEAT_def
  FLAG_HELLO_def FLAG_HDR_ROUTE_def FLAG_HDR_EXT_def

record FgwSegmentHeader =
  hdr_magic :: u8
  hdr_flags :: u8
  hdr_payload_len :: u16
  hdr_session_id :: u32
  hdr_seq_num :: u32
  hdr_ingress_id :: u32
  hdr_outport_id :: u32
  hdr_crc32 :: u32

definition FgwSegmentHeader_init :: FgwSegmentHeader where
  "FgwSegmentHeader_init =
     \<lparr>hdr_magic = SEG_MAGIC, hdr_flags = 0, hdr_payload_len = 0, hdr_session_id = 0,
      hdr_seq_num = 0, hdr_ingress_id = 0, hdr_outport_id = 0, hdr_crc32 = 0\<rparr>"

definition isData :: "FgwSegmentHeader \<Rightarrow> bool" where
  "isData h = (hdr_flags h AND FLAG_DATA \<noteq> 0)"

definition isHello :: "FgwSegmentHeader \<Rightarrow> bool" where
  "isHello h = (hdr_flags h AND FLAG_HELLO \<noteq> 0)"

definition isHeartbeat :: "FgwSegmentHeader \<Rightarrow> bool" where
  "isHeartbeat h = (hdr_flags h AND FLAG_HEARTBEAT \<noteq> 0)"

definition isFin :: "FgwSegmentHeader \<Rightarrow> bool" where
  "isFin h = (hdr_flags h AND FLAG_FIN \<noteq> 0)"

definition isSyn :: "FgwSegmentHeader \<Rightarrow> bool" where
  "isSyn h = (hdr_flags h AND FLAG_SYN \<noteq> 0)"

definition isAck :: "FgwSegmentHeader \<Rightarrow> bool" where
  "isAck h = (hdr_flags h AND FLAG_ACK \<noteq> 0)"

definition isHdrExt :: "FgwSegmentHeader \<Rightarrow> bool" where
  "isHdrExt h = (hdr_flags h AND FLAG_HDR_EXT \<noteq> 0)"

definition isHdrRoute :: "FgwSegmentHeader \<Rightarrow> bool" where
  "isHdrRoute h = (hdr_flags h AND FLAG_HDR_ROUTE \<noteq> 0)"

lemmas flag_tests = isData_def isHello_def isHeartbeat_def isFin_def isSyn_def isAck_def
  isHdrExt_def isHdrRoute_def

section \<open>Big-endian fields\<close>

definition pack_be16 :: "u16 \<Rightarrow> bytes" where
  "pack_be16 v = [ucast (drop_bit 8 v AND 0xFF), ucast (v AND 0xFF)]"

definition pack_be32 :: "u32 \<Rightarrow> bytes" where
  "pack_be32 v = [ucast (drop_bit 24 v AND 0xFF), ucast (drop_bit 16 v AND 0xFF),
                  ucast (drop_bit 8 v AND 0xFF), ucast (v AND 0xFF)]"

definition unpack_be16 :: "bytes \<Rightarrow> nat \<Rightarrow> u16" where
  "unpack_be16 p i = (push_bit 8 (ucast (p ! i)) OR ucast (p ! (i + 1)))"

definition unpack_be32 :: "bytes \<Rightarrow> nat \<Rightarrow> u32" where
  "unpack_be32 p i = (push_bit 24 (ucast (p ! i)) OR push_bit 16 (ucast (p ! (i + 1))) OR
                      push_bit 8 (ucast (p ! (i + 2))) OR ucast (p ! (i + 3)))"

section \<open>CRC check, encoder, header decoder\<close>

definition crc_ok :: "bytes \<Rightarrow> nat \<Rightarrow> nat \<Rightarrow> u32 \<Rightarrow> bool" where
  "crc_ok inb header_wire payload_len expect_crc =
     (let crc_off = header_wire - 4;
          crc = foldl crc_update 0xFFFFFFFF (take crc_off inb);
          crc = foldl crc_update crc [0, 0, 0, 0];
          crc = foldl crc_update crc (bslice header_wire payload_len inb)
      in crc XOR 0xFFFFFFFF = expect_crc)"

definition fgwSegmentEncode ::
  "bytes option \<Rightarrow> int \<Rightarrow> FgwSegmentHeader \<Rightarrow> bytes option \<Rightarrow> int \<Rightarrow> int \<times> bytes option" where
  "fgwSegmentEncode out out_size hdr payload payload_len =
     (case out of None \<Rightarrow> (errcode ERR_MEMORY, None) | Some o0 \<Rightarrow>
      if payload_len < 0 \<or> payload_len > int MAX_PAYLOAD then (errcode ERR_BADSEGMENT, Some o0)
      else
        let routed = hdr_flags hdr AND FLAG_HDR_ROUTE \<noteq> 0;
            hdr_sz = (if routed then ROUTED_HEADER_SIZE else HEADER_SIZE);
            total = int hdr_sz + payload_len
        in if out_size < total then (errcode ERR_MEMORY, Some o0)
           else
             let flags = hdr_flags hdr OR FLAG_HDR_EXT;
                 o1 = poke o0 0 [SEG_MAGIC];
                 o2 = poke o1 1 [flags];
                 o3 = poke o2 2 (pack_be16 (word_of_int payload_len));
                 o4 = poke o3 4 (pack_be32 (hdr_session_id hdr));
                 o5 = poke o4 8 (pack_be32 (hdr_seq_num hdr));
                 o6 = poke o5 12 (pack_be32 (hdr_ingress_id hdr));
                 (o7, crc_off) =
                   (if routed
                    then (poke (poke o6 16 (pack_be32 (hdr_outport_id hdr))) 20 (pack_be32 0), 20)
                    else (poke o6 16 (pack_be32 0), 16));
                 o8 = (case payload of
                         Some p \<Rightarrow> if payload_len > 0 then poke o7 hdr_sz (take (nat payload_len) p) else o7
                       | None \<Rightarrow> o7);
                 crc = fgwCrc32 (take (nat total) o8) 0
             in (total, Some (poke o8 crc_off (pack_be32 crc))))"

definition fgwSegmentPeekHeader :: "bytes \<Rightarrow> FgwSegmentHeader \<Rightarrow> int \<times> FgwSegmentHeader" where
  "fgwSegmentPeekHeader inb hdr =
     (if length inb < LEGACY_HEADER_SIZE then (0, hdr)
      else if inb ! 0 \<noteq> SEG_MAGIC then (errcode ERR_BADSEGMENT, hdr)
      else
        let hdr = hdr\<lparr>hdr_magic := inb ! 0, hdr_flags := inb ! 1,
                      hdr_payload_len := unpack_be16 inb 2, hdr_session_id := unpack_be32 inb 4,
                      hdr_seq_num := unpack_be32 inb 8\<rparr>
        in if unat (hdr_payload_len hdr) > MAX_PAYLOAD then (errcode ERR_BADSEGMENT, hdr)
           else if isHdrRoute hdr then
             (if length inb < ROUTED_HEADER_SIZE then (0, hdr)
              else (int ROUTED_HEADER_SIZE,
                    hdr\<lparr>hdr_ingress_id := unpack_be32 inb 12, hdr_outport_id := unpack_be32 inb 16,
                        hdr_crc32 := unpack_be32 inb 20\<rparr>))
           else if isHdrExt hdr then
             (if length inb < HEADER_SIZE then (0, hdr)
              else (int HEADER_SIZE,
                    hdr\<lparr>hdr_ingress_id := unpack_be32 inb 12, hdr_outport_id := 0,
                        hdr_crc32 := unpack_be32 inb 16\<rparr>))
           else (int LEGACY_HEADER_SIZE,
                 hdr\<lparr>hdr_ingress_id := 0, hdr_outport_id := 0, hdr_crc32 := unpack_be32 inb 12\<rparr>))"

definition fgwSegmentVerifyCrc :: "bytes \<Rightarrow> FgwSegmentHeader \<Rightarrow> int \<Rightarrow> bool" where
  "fgwSegmentVerifyCrc inb hdr header_wire_bytes =
     (if header_wire_bytes \<noteq> int LEGACY_HEADER_SIZE \<and> header_wire_bytes \<noteq> int HEADER_SIZE \<and>
         header_wire_bytes \<noteq> int ROUTED_HEADER_SIZE then False
      else crc_ok inb (nat header_wire_bytes) (unat (hdr_payload_len hdr)) (hdr_crc32 hdr))"

section \<open>The abstract frame\<close>

definition hdr_routed :: "FgwSegmentHeader \<Rightarrow> bool" where
  "hdr_routed hdr = (hdr_flags hdr AND FLAG_HDR_ROUTE \<noteq> 0)"

definition wire_hdr_size :: "FgwSegmentHeader \<Rightarrow> nat" where
  "wire_hdr_size hdr = (if hdr_routed hdr then ROUTED_HEADER_SIZE else HEADER_SIZE)"

definition header_prefix :: "FgwSegmentHeader \<Rightarrow> nat \<Rightarrow> bytes" where
  "header_prefix hdr plen =
     [SEG_MAGIC, hdr_flags hdr OR FLAG_HDR_EXT] @ pack_be16 (of_nat plen) @
     pack_be32 (hdr_session_id hdr) @ pack_be32 (hdr_seq_num hdr) @ pack_be32 (hdr_ingress_id hdr) @
     (if hdr_routed hdr then pack_be32 (hdr_outport_id hdr) else [])"

definition segment_crc :: "FgwSegmentHeader \<Rightarrow> bytes \<Rightarrow> u32" where
  "segment_crc hdr p = fgwCrc32 (header_prefix hdr (length p) @ pack_be32 0 @ p) 0"

definition segment_image :: "FgwSegmentHeader \<Rightarrow> bytes \<Rightarrow> bytes" where
  "segment_image hdr p = header_prefix hdr (length p) @ pack_be32 (segment_crc hdr p) @ p"

lemma length_pack_be [simp]: "length (pack_be16 v) = 2" "length (pack_be32 w) = 4"
  by (simp_all add: pack_be16_def pack_be32_def)

lemma length_header_prefix [simp]: "length (header_prefix hdr n) = wire_hdr_size hdr - 4"
  by (simp add: header_prefix_def wire_hdr_size_def seg_sizes)

lemma wire_hdr_size_ge: "20 \<le> wire_hdr_size hdr" "wire_hdr_size hdr \<le> 24"
  by (simp_all add: wire_hdr_size_def seg_sizes)

lemma length_segment_image [simp]: "length (segment_image hdr p) = wire_hdr_size hdr + length p"
  using wire_hdr_size_ge [of hdr] by (simp add: segment_image_def)

lemma be16_join:
  "push_bit 8 (ucast (ucast (drop_bit 8 v AND 0xFF) :: byte)) OR ucast (ucast (v AND 0xFF) :: byte)
   = (v :: u16)"
  by (rule bit_word_eqI) (auto simp: bit_simps bit_0xFF)

lemma be32_join:
  "push_bit 24 (ucast (ucast (drop_bit 24 v AND 0xFF) :: byte)) OR
   push_bit 16 (ucast (ucast (drop_bit 16 v AND 0xFF) :: byte)) OR
   push_bit 8 (ucast (ucast (drop_bit 8 v AND 0xFF) :: byte)) OR ucast (ucast (v AND 0xFF) :: byte)
   = (v :: u32)" (is "?l = v")
proof (rule bit_word_eqI)
  fix n assume n: "n < LENGTH(32)"
  consider "n < 8" | "8 \<le> n" "n < 16" | "16 \<le> n" "n < 24" | "24 \<le> n"
    by linarith
  then show "bit ?l n \<longleftrightarrow> bit v n"
    using n by cases (simp_all add: bit_simps bit_0xFF less_diff_conv2)
qed

lemma unpack_be_skip:
  "unpack_be16 (pre @ bs) (length pre) = unpack_be16 bs 0"
  "unpack_be32 (pre @ bs) (length pre) = unpack_be32 bs 0"
  by (simp_all add: unpack_be16_def unpack_be32_def nth_append numeral_2_eq_2)

lemma unpack_pack_be16: "length pre = i \<Longrightarrow> unpack_be16 (pre @ pack_be16 v @ post) i = v"
  using unpack_be_skip(1) [of pre "pack_be16 v @ post"]
  by (simp add: unpack_be16_def pack_be16_def be16_join)

lemma unpack_pack_be32: "length pre = i \<Longrightarrow> unpack_be32 (pre @ pack_be32 v @ post) i = v"
proof -
  assume i: "length pre = i"
  let ?bs = "pack_be32 v @ post"
  have nth: "?bs ! 0 = ucast (drop_bit 24 v AND 0xFF)" "?bs ! (0 + 1) = ucast (drop_bit 16 v AND 0xFF)"
    "?bs ! (0 + 2) = ucast (drop_bit 8 v AND 0xFF)" "?bs ! (0 + 3) = ucast (v AND 0xFF)"
    by (simp_all add: pack_be32_def)
  have "unpack_be32 ?bs 0 = v"
    unfolding unpack_be32_def nth by (rule be32_join)
  then show ?thesis
    using unpack_be_skip(2) [of pre ?bs] i by simp
qed

lemma pack_be32_inj: "pack_be32 v = pack_be32 w \<longleftrightarrow> v = w"
  by (metis unpack_pack_be32 append_Nil list.size(3))

section \<open>The encoder writes the abstract frame\<close>

lemma encode_errors:
  "fgwSegmentEncode None out_size hdr payload n = (errcode ERR_MEMORY, None)"
  "n < 0 \<or> n > int MAX_PAYLOAD \<Longrightarrow>
     fgwSegmentEncode (Some out) out_size hdr payload n = (errcode ERR_BADSEGMENT, Some out)"
  "0 \<le> n \<Longrightarrow> n \<le> int MAX_PAYLOAD \<Longrightarrow> out_size < int (wire_hdr_size hdr) + n \<Longrightarrow>
     fgwSegmentEncode (Some out) out_size hdr payload n = (errcode ERR_MEMORY, Some out)"
  by (simp_all add: fgwSegmentEncode_def Let_def wire_hdr_size_def hdr_routed_def)

lemma encode_writes:
  assumes room: "int (wire_hdr_size hdr + length p) \<le> out_size" "wire_hdr_size hdr + length p \<le> length out"
    and len: "length p \<le> MAX_PAYLOAD"
  shows "fgwSegmentEncode (Some out) out_size hdr (Some p) (int (length p)) =
         (int (wire_hdr_size hdr + length p),
          Some (segment_image hdr p @ drop (wire_hdr_size hdr + length p) out))"
proof -
  let ?pre = "header_prefix hdr (length p)"
  let ?n = "wire_hdr_size hdr"
  let ?rest = "drop (?n + length p) out"
  define o7 where "o7 = ?pre @ pack_be32 0 @ drop ?n out"
  have stores: "poke (poke (poke (poke (poke (poke out 0 [SEG_MAGIC]) 1 [hdr_flags hdr OR FLAG_HDR_EXT])
        2 (pack_be16 (of_nat (length p)))) 4 (pack_be32 (hdr_session_id hdr)))
        8 (pack_be32 (hdr_seq_num hdr))) 12 (pack_be32 (hdr_ingress_id hdr)) = 
      ([SEG_MAGIC, hdr_flags hdr OR FLAG_HDR_EXT] @ pack_be16 (of_nat (length p)) @
       pack_be32 (hdr_session_id hdr) @ pack_be32 (hdr_seq_num hdr) @ pack_be32 (hdr_ingress_id hdr)) @
      drop 16 out" (is "?o6 = ?h16 @ _")
    by (simp add: poke_def)
  have routed: "hdr_routed hdr \<Longrightarrow>
      poke (poke ?o6 16 (pack_be32 (hdr_outport_id hdr))) 20 (pack_be32 0) = o7"
    unfolding stores o7_def by (simp add: poke_def header_prefix_def wire_hdr_size_def seg_sizes)
  have plain: "\<not> hdr_routed hdr \<Longrightarrow> poke ?o6 16 (pack_be32 0) = o7"
    unfolding stores o7_def by (simp add: poke_def header_prefix_def wire_hdr_size_def seg_sizes)
  have o8: "poke o7 ?n p = ?pre @ pack_be32 0 @ p @ ?rest"
    using room wire_hdr_size_ge [of hdr] by (simp add: o7_def poke_def add.commute)
  then have o8': "length p = 0 \<Longrightarrow> o7 = ?pre @ pack_be32 0 @ p @ ?rest"
    by (simp add: o7_def)
  have body: "take (?n + length p) (?pre @ pack_be32 0 @ p @ ?rest) = ?pre @ pack_be32 0 @ p"
    using wire_hdr_size_ge [of hdr] by simp
  have crc: "poke (?pre @ pack_be32 0 @ p @ ?rest) (?n - 4) (pack_be32 (segment_crc hdr p)) =
      segment_image hdr p @ ?rest"
    by (simp add: poke_append segment_image_def)
  have fits: "\<not> out_size < int ?n + int (length p)" and nat: "nat (int ?n + int (length p)) = ?n + length p"
    using room by simp_all
  have crcv: "fgwCrc32 (?pre @ pack_be32 0 @ p) 0 = segment_crc hdr p"
    by (simp add: segment_crc_def)
  have full: "p \<noteq> [] \<Longrightarrow> poke (poke o7 ?n p) (?n - 4)
      (pack_be32 (fgwCrc32 (take (?n + length p) (poke o7 ?n p)) 0)) = segment_image hdr p @ ?rest"
    by (simp only: o8 body crcv crc)
  have none: "p = [] \<Longrightarrow> poke o7 (?n - 4) (pack_be32 (fgwCrc32 (take ?n o7) 0)) =
      segment_image hdr [] @ drop ?n out"
    using o8' body crcv crc by simp
  show ?thesis
  proof (cases "hdr_routed hdr")
    case True
    then have sz: "ROUTED_HEADER_SIZE = ?n" "20 = ?n - 4"
      by (simp_all add: wire_hdr_size_def seg_sizes)
    from True have r: "hdr_flags hdr AND FLAG_HDR_ROUTE \<noteq> 0"
      by (simp add: hdr_routed_def)
    show ?thesis
      using len fits r unfolding fgwSegmentEncode_def Let_def
      by (simp add: routed [OF True] sz(1) nat del: One_nat_def) (simp add: sz(2) full none)
  next
    case False
    then have sz: "HEADER_SIZE = ?n" "16 = ?n - 4"
      by (simp_all add: wire_hdr_size_def seg_sizes)
    from False have r: "hdr_flags hdr AND FLAG_HDR_ROUTE = 0"
      by (simp add: hdr_routed_def)
    show ?thesis
      using len fits r unfolding fgwSegmentEncode_def Let_def
      by (simp add: plain [OF False] sz(1) nat del: One_nat_def) (simp add: sz(2) full none)
  qed
qed

lemma encode_no_payload:
  "fgwSegmentEncode out out_size hdr None 0 = fgwSegmentEncode out out_size hdr (Some []) (int (length ([] :: bytes)))"
  by (simp add: fgwSegmentEncode_def Let_def split: option.split)

section \<open>Whatever the encoder writes is a frame\<close>

definition is_frame :: "bytes \<Rightarrow> bool" where
  "is_frame b \<longleftrightarrow> (\<exists>h p. length p \<le> MAX_PAYLOAD \<and> b = segment_image h p)"

text \<open>A payload pointer with too few bytes behind it would make the code read on; the model takes what is in the
  block, and the result is a frame all the same.\<close>

definition padded :: "bytes \<Rightarrow> nat \<Rightarrow> bytes \<Rightarrow> nat \<Rightarrow> bytes" where
  "padded out off p n = take n p @ take (n - length p) (drop (off + length p) out)"

lemma length_padded: "off + n \<le> length out \<Longrightarrow> length (padded out off p n) = n"
  by (simp add: padded_def)

lemma poke_padded: "off + n \<le> length out \<Longrightarrow> poke out off (padded out off p n) = poke out off (take n p)"
proof (cases "n \<le> length p")
  case False
  assume room: "off + n \<le> length out"
  have "drop (off + n) out = drop (n - length p) (drop (off + length p) out)" using False by (simp add: add.commute)
  then have "take (n - length p) (drop (off + length p) out) @ drop (off + n) out = drop (off + length p) out"
    by (metis append_take_drop_id)
  then show ?thesis using False room by (simp add: poke_def padded_def)
qed (simp add: padded_def)

lemma encode_fills:
  assumes "0 \<le> n" and "int (wire_hdr_size hdr) + n \<le> int (length out)"
  shows "\<exists>q. length q = nat n \<and>
    fgwSegmentEncode (Some out) sz hdr payload n = fgwSegmentEncode (Some out) sz hdr (Some q) n"
proof -
  let ?n = "wire_hdr_size hdr"
  define o6 where "o6 = poke (poke (poke (poke (poke (poke out 0 [SEG_MAGIC]) 1 [hdr_flags hdr OR FLAG_HDR_EXT])
        2 (pack_be16 (word_of_int n))) 4 (pack_be32 (hdr_session_id hdr)))
        8 (pack_be32 (hdr_seq_num hdr))) 12 (pack_be32 (hdr_ingress_id hdr))"
  define o7 where "o7 = (if hdr_routed hdr then poke (poke o6 16 (pack_be32 (hdr_outport_id hdr))) 20 (pack_be32 0)
      else poke o6 16 (pack_be32 0))"
  define q where "q = padded o7 ?n (case payload of None \<Rightarrow> [] | Some p \<Rightarrow> p) (nat n)"
  have "length o7 = length out"
    using assms wire_hdr_size_ge [of hdr]
    by (auto simp: o7_def o6_def wire_hdr_size_def seg_sizes split: if_splits)
  then have room: "?n + nat n \<le> length o7" using assms by simp
  have "poke o7 ?n [] = o7" by (simp add: poke_def)
  then have "(case payload of None \<Rightarrow> o7 | Some p \<Rightarrow> if n > 0 then poke o7 ?n (take (nat n) p) else o7) =
      (if n > 0 then poke o7 ?n (take (nat n) q) else o7)"
    using poke_padded [OF room] length_padded [OF room] by (simp add: q_def split: option.split)
  moreover have "length q = nat n" unfolding q_def by (rule length_padded [OF room])
  ultimately show ?thesis
    by (intro exI [of _ q])
      (auto simp: fgwSegmentEncode_def Let_def o6_def o7_def wire_hdr_size_def hdr_routed_def split: if_splits option.splits)
qed

lemma encode_frame:
  assumes "0 \<le> wrote" and "fgwSegmentEncode (Some out) sz hdr payload n = (wrote, out')" and "sz \<le> int (length out)"
  shows "is_frame (take (nat wrote) (the out'))"
proof -
  have "\<not> (n < 0 \<or> n > int MAX_PAYLOAD)" using assms(1,2) encode_errors(2) [of n out sz hdr payload] by auto
  then have n: "0 \<le> n" "n \<le> int MAX_PAYLOAD" by simp_all
  have "\<not> sz < int (wire_hdr_size hdr) + n" using assms(1,2) encode_errors(3) [OF n, of sz hdr out payload] by auto
  with n have ok: "0 \<le> n" "n \<le> int MAX_PAYLOAD" "int (wire_hdr_size hdr) + n \<le> sz" by simp_all
  have "int (wire_hdr_size hdr) + n \<le> int (length out)" using assms(3) ok(3) by simp
  from encode_fills [OF ok(1) this] obtain q where q: "length q = nat n"
    "fgwSegmentEncode (Some out) sz hdr payload n = fgwSegmentEncode (Some out) sz hdr (Some q) n" by blast
  then have "fgwSegmentEncode (Some out) sz hdr payload n =
      (int (wire_hdr_size hdr + length q), Some (segment_image hdr q @ drop (wire_hdr_size hdr + length q) out))"
    using encode_writes [of hdr q sz out] ok assms(3) by simp
  then have w: "wrote = int (wire_hdr_size hdr + length q)"
    "out' = Some (segment_image hdr q @ drop (wire_hdr_size hdr + length q) out)" using assms(2) by simp_all
  have "take (wire_hdr_size hdr + length q) (segment_image hdr q @ drop (wire_hdr_size hdr + length q) out) = segment_image hdr q"
    by simp
  then show ?thesis
    unfolding is_frame_def w option.sel nat_int using q(1) ok(2) by (intro exI [of _ hdr] exI [of _ q]) simp
qed

section \<open>The decoder reads the frame back\<close>

definition decoded_header :: "FgwSegmentHeader \<Rightarrow> bytes \<Rightarrow> FgwSegmentHeader" where
  "decoded_header hdr p =
     \<lparr>hdr_magic = SEG_MAGIC, hdr_flags = hdr_flags hdr OR FLAG_HDR_EXT,
      hdr_payload_len = of_nat (length p), hdr_session_id = hdr_session_id hdr,
      hdr_seq_num = hdr_seq_num hdr, hdr_ingress_id = hdr_ingress_id hdr,
      hdr_outport_id = (if hdr_routed hdr then hdr_outport_id hdr else 0),
      hdr_crc32 = segment_crc hdr p\<rparr>"

lemma unat_len16: "n \<le> MAX_PAYLOAD \<Longrightarrow> unat (of_nat n :: u16) = n"
  by (simp add: unat_of_nat MAX_PAYLOAD_def)

lemma route_or_ext: "(f OR FLAG_HDR_EXT) AND FLAG_HDR_ROUTE = f AND FLAG_HDR_ROUTE"
  "(f OR FLAG_HDR_EXT) AND FLAG_HDR_EXT = FLAG_HDR_EXT"
  by (simp_all add: FLAG_HDR_EXT_def FLAG_HDR_ROUTE_def bit.conj_disj_distrib2)

lemma ext_nonzero: "FLAG_HDR_EXT \<noteq> 0"
  by (simp add: FLAG_HDR_EXT_def)

lemma image_fields:
  fixes hdr p rest
  defines "f \<equiv> segment_image hdr p @ rest"
  shows "f ! 0 = SEG_MAGIC" "f ! 1 = hdr_flags hdr OR FLAG_HDR_EXT"
    "unpack_be16 f 2 = of_nat (length p)" "unpack_be32 f 4 = hdr_session_id hdr"
    "unpack_be32 f 8 = hdr_seq_num hdr" "unpack_be32 f 12 = hdr_ingress_id hdr"
    "hdr_routed hdr \<Longrightarrow> unpack_be32 f 16 = hdr_outport_id hdr"
    "unpack_be32 f (wire_hdr_size hdr - 4) = segment_crc hdr p"
proof -
  note f = f_def segment_image_def header_prefix_def
  show "f ! 0 = SEG_MAGIC" "f ! 1 = hdr_flags hdr OR FLAG_HDR_EXT"
    by (simp_all add: f)
  show "unpack_be16 f 2 = of_nat (length p)"
    unfolding f append_assoc by (rule unpack_pack_be16) simp
  show "unpack_be32 f 4 = hdr_session_id hdr"
    unfolding f append_assoc
    using unpack_pack_be32 [of "[SEG_MAGIC, hdr_flags hdr OR FLAG_HDR_EXT] @ pack_be16 (of_nat (length p))" 4]
    by simp
  show "unpack_be32 f 8 = hdr_seq_num hdr"
    unfolding f append_assoc
    using unpack_pack_be32 [of "[SEG_MAGIC, hdr_flags hdr OR FLAG_HDR_EXT] @ pack_be16 (of_nat (length p)) @
      pack_be32 (hdr_session_id hdr)" 8]
    by simp
  show "unpack_be32 f 12 = hdr_ingress_id hdr"
    unfolding f append_assoc
    using unpack_pack_be32 [of "[SEG_MAGIC, hdr_flags hdr OR FLAG_HDR_EXT] @ pack_be16 (of_nat (length p)) @
      pack_be32 (hdr_session_id hdr) @ pack_be32 (hdr_seq_num hdr)" 12]
    by simp
  show "hdr_routed hdr \<Longrightarrow> unpack_be32 f 16 = hdr_outport_id hdr"
    unfolding f append_assoc
    using unpack_pack_be32 [of "[SEG_MAGIC, hdr_flags hdr OR FLAG_HDR_EXT] @ pack_be16 (of_nat (length p)) @
      pack_be32 (hdr_session_id hdr) @ pack_be32 (hdr_seq_num hdr) @ pack_be32 (hdr_ingress_id hdr)" 16]
    by simp
  show "unpack_be32 f (wire_hdr_size hdr - 4) = segment_crc hdr p"
    unfolding f_def segment_image_def append_assoc by (rule unpack_pack_be32) simp
qed

lemma peek_image:
  assumes "length p \<le> MAX_PAYLOAD"
  shows "fgwSegmentPeekHeader (segment_image hdr p @ rest) h0 =
         (int (wire_hdr_size hdr), decoded_header hdr p)"
proof -
  let ?f = "segment_image hdr p @ rest"
  have len: "\<not> length ?f < LEGACY_HEADER_SIZE" "\<not> length ?f < wire_hdr_size hdr"
    using wire_hdr_size_ge [of hdr] by (simp_all add: seg_sizes)
  have plen: "\<not> MAX_PAYLOAD < unat (of_nat (length p) :: u16)"
    using assms by (simp add: unat_len16)
  show ?thesis
  proof (cases "hdr_routed hdr")
    case True
    then have "wire_hdr_size hdr = 24" by (simp add: wire_hdr_size_def seg_sizes)
    with True len plen image_fields [of hdr p rest] show ?thesis
      by (simp add: fgwSegmentPeekHeader_def decoded_header_def isHdrRoute_def route_or_ext
          hdr_routed_def ROUTED_HEADER_SIZE_def Let_def)
  next
    case False
    then have "wire_hdr_size hdr = 20" by (simp add: wire_hdr_size_def seg_sizes)
    with False len plen image_fields [of hdr p rest] show ?thesis
      by (simp add: fgwSegmentPeekHeader_def decoded_header_def isHdrRoute_def isHdrExt_def
          route_or_ext ext_nonzero hdr_routed_def HEADER_SIZE_def Let_def)
  qed
qed

lemma pack_be32_zero: "pack_be32 0 = [0, 0, 0, 0]"
  by (simp add: pack_be32_def)

text \<open>Bytes of a frame that the checksum covers: everything but the CRC field itself.\<close>

definition crc_covered :: "nat \<Rightarrow> nat \<Rightarrow> bytes \<Rightarrow> bytes" where
  "crc_covered hr plen f = take (hr - 4) f @ [0, 0, 0, 0] @ bslice hr plen f"

lemma verify_iff:
  "fgwSegmentVerifyCrc f h hr \<longleftrightarrow>
   hr \<in> {16, 20, 24} \<and> fgwCrc32 (crc_covered (nat hr) (unat (hdr_payload_len h)) f) 0 = hdr_crc32 h"
  by (auto simp: fgwSegmentVerifyCrc_def crc_ok_def crc_covered_def fgwCrc32_def Let_def seg_sizes)

lemma verify_image:
  assumes "length p \<le> MAX_PAYLOAD"
  shows "fgwSegmentVerifyCrc (segment_image hdr p @ rest) (decoded_header hdr p) (int (wire_hdr_size hdr))"
proof -
  have "take (wire_hdr_size hdr - 4) (segment_image hdr p @ rest) = header_prefix hdr (length p)"
    by (simp add: segment_image_def)
  moreover have "bslice (wire_hdr_size hdr) (length p) (segment_image hdr p @ rest) = p"
    using wire_hdr_size_ge [of hdr] by (simp add: segment_image_def bslice_def)
  moreover have "wire_hdr_size hdr = 20 \<or> wire_hdr_size hdr = 24"
    by (simp add: wire_hdr_size_def seg_sizes)
  ultimately show ?thesis
    using assms by (auto simp: verify_iff crc_covered_def decoded_header_def unat_len16
        segment_crc_def pack_be32_zero)
qed

section \<open>Header decoding looks at a prefix only\<close>

lemma unpack_be_cong:
  "(\<And>k. i \<le> k \<Longrightarrow> k < i + 2 \<Longrightarrow> f ! k = g ! k) \<Longrightarrow> unpack_be16 f i = unpack_be16 g i"
  "(\<And>k. i \<le> k \<Longrightarrow> k < i + 4 \<Longrightarrow> f ! k = g ! k) \<Longrightarrow> unpack_be32 f i = unpack_be32 g i"
  by (simp_all add: unpack_be16_def unpack_be32_def)

lemma peek_cases:
  "fst (fgwSegmentPeekHeader f h) \<in> {0, errcode ERR_BADSEGMENT, 16, 20, 24}"
  by (simp add: fgwSegmentPeekHeader_def Let_def seg_sizes)

lemma peek_payload_bound:
  "fgwSegmentPeekHeader f h = (hr, h') \<Longrightarrow> 0 < hr \<Longrightarrow>
   unat (hdr_payload_len h') \<le> MAX_PAYLOAD \<and> nat hr \<le> length f \<and> 16 \<le> hr"
  by (auto simp: fgwSegmentPeekHeader_def Let_def seg_sizes split: if_splits)

lemma peek_append:
  assumes "fst (fgwSegmentPeekHeader f h) \<noteq> 0"
  shows "fgwSegmentPeekHeader (f @ g) h = fgwSegmentPeekHeader f h"
proof -
  have u16: "unpack_be16 (f @ g) i = unpack_be16 f i" if "i + 1 < length f" for i
    using that by (simp add: unpack_be16_def nth_append)
  have u32: "unpack_be32 (f @ g) i = unpack_be32 f i" if "i + 3 < length f" for i
    using that by (simp add: unpack_be32_def nth_append)
  have len: "\<not> length f < 16"
    using assms by (auto simp: fgwSegmentPeekHeader_def LEGACY_HEADER_SIZE_def)
  then have bytes: "(f @ g) ! 0 = f ! 0" "(f @ g) ! 1 = f ! 1"
    by (auto simp: nth_append)
  let ?h = "h\<lparr>hdr_magic := f ! 0, hdr_flags := f ! 1, hdr_payload_len := unpack_be16 f 2,
      hdr_session_id := unpack_be32 f 4, hdr_seq_num := unpack_be32 f 8\<rparr>"
  have "f ! 0 = SEG_MAGIC \<Longrightarrow> unat (unpack_be16 f 2) \<le> MAX_PAYLOAD \<Longrightarrow>
      (isHdrRoute ?h \<longrightarrow> 24 \<le> length f) \<and> (\<not> isHdrRoute ?h \<longrightarrow> isHdrExt ?h \<longrightarrow> 20 \<le> length f)"
    using assms len
    by (auto simp: fgwSegmentPeekHeader_def Let_def seg_sizes split: if_splits)
  with len bytes u16 u32 show ?thesis
    unfolding fgwSegmentPeekHeader_def Let_def by (auto simp: seg_sizes)
qed

lemma verify_append:
  assumes "nat hr + unat (hdr_payload_len h) \<le> length f"
  shows "fgwSegmentVerifyCrc (f @ g) h hr = fgwSegmentVerifyCrc f h hr"
proof -
  have "crc_covered (nat hr) (unat (hdr_payload_len h)) (f @ g) =
      crc_covered (nat hr) (unat (hdr_payload_len h)) f"
    using assms by (simp add: crc_covered_def bslice_def)
  then show ?thesis
    by (simp add: verify_iff)
qed

section \<open>Corruption is rejected\<close>

text \<open>Two frames that agree on the first four bytes and on the CRC field decode alike as far as
  the check is concerned.\<close>

lemma peek_cong:
  assumes "length f = length g" and "take 4 f = take 4 g"
    and "fgwSegmentPeekHeader f h = (hr, hf)" and "0 < hr"
    and "take 4 (drop (nat hr - 4) f) = take 4 (drop (nat hr - 4) g)"
  shows "\<exists>hg. fgwSegmentPeekHeader g h = (hr, hg) \<and> hdr_payload_len hg = hdr_payload_len hf \<and>
              hdr_crc32 hg = hdr_crc32 hf"
proof -
  have len: "16 \<le> length f" "nat hr \<le> length f"
    using peek_payload_bound [OF assms(3,4)] by linarith+
  have nth: "f ! k = g ! k" if "k < 4" for k
    using that assms(2) len(1) by (metis nth_take)
  have crc: "unpack_be32 f (nat hr - 4) = unpack_be32 g (nat hr - 4)"
  proof (rule unpack_be_cong(2))
    fix k assume k: "nat hr - 4 \<le> k" "k < nat hr - 4 + 4"
    then have "take 4 (drop (nat hr - 4) f) ! (k - (nat hr - 4)) =
               take 4 (drop (nat hr - 4) g) ! (k - (nat hr - 4))"
      using assms(5) by simp
    with k len assms(1) show "f ! k = g ! k" by simp
  qed
  have "unpack_be16 f 2 = unpack_be16 g 2"
    by (rule unpack_be_cong(1)) (simp add: nth)
  with nth [of 0] nth [of 1] crc assms(1,3,4) len show ?thesis
    by (auto simp: fgwSegmentPeekHeader_def Let_def seg_sizes isHdrRoute_def isHdrExt_def
        split: if_splits)
qed

lemma covered_burst:
  assumes "length mid = length mid'" and "4 \<le> hr" and "hr + plen \<le> length (a @ mid @ c)"
    and "length a + length mid \<le> hr - 4 \<or> (hr \<le> length a \<and> length a + length mid \<le> hr + plen)"
  shows "\<exists>pre post. crc_covered hr plen (a @ mid @ c) = pre @ mid @ post \<and>
                    crc_covered hr plen (a @ mid' @ c) = pre @ mid' @ post"
  using assms(4)
proof
  assume h: "length a + length mid \<le> hr - 4"
  let ?post = "take (hr - 4 - length (a @ mid)) c @ [0, 0, 0, 0] @ bslice hr plen (a @ mid @ c)"
  have "bslice hr plen (a @ mid @ c) = bslice hr plen (a @ mid' @ c)"
    using h assms(1,2) by (simp add: bslice_def)
  with h assms(1) have "crc_covered hr plen (a @ mid @ c) = a @ mid @ ?post"
    "crc_covered hr plen (a @ mid' @ c) = a @ mid' @ ?post"
    by (simp_all add: crc_covered_def add.assoc)
  then show ?thesis by blast
next
  assume h: "hr \<le> length a \<and> length a + length mid \<le> hr + plen"
  let ?pre = "take (hr - 4) a @ [0, 0, 0, 0] @ drop hr a"
  let ?post = "take (hr + plen - length (a @ mid)) c"
  have "length a - hr \<le> plen" "length mid \<le> plen + hr - length a" "hr \<le> length a"
    using h by auto
  with assms(1,2) have "crc_covered hr plen (a @ mid @ c) = ?pre @ mid @ ?post"
    "crc_covered hr plen (a @ mid' @ c) = ?pre @ mid' @ ?post"
    by (simp_all add: crc_covered_def bslice_def add.commute [of plen hr])
  then show ?thesis by blast
qed

lemma verify_burst:
  assumes "fgwSegmentVerifyCrc (a @ mid @ c) h hr" and "length mid = length mid'" and "mid \<noteq> mid'"
    and "length mid \<le> 4" and "nat hr + unat (hdr_payload_len h) \<le> length (a @ mid @ c)"
    and "length a + length mid \<le> nat hr - 4 \<or>
         (nat hr \<le> length a \<and> length a + length mid \<le> nat hr + unat (hdr_payload_len h))"
    and "hdr_payload_len h' = hdr_payload_len h" and "hdr_crc32 h' = hdr_crc32 h"
  shows "\<not> fgwSegmentVerifyCrc (a @ mid' @ c) h' hr"
proof
  let ?n = "unat (hdr_payload_len h)"
  assume bad: "fgwSegmentVerifyCrc (a @ mid' @ c) h' hr"
  have "4 \<le> nat hr"
    using assms(1) by (auto simp: verify_iff)
  from covered_burst [OF assms(2) this assms(5,6)] obtain pre post where
    "crc_covered (nat hr) ?n (a @ mid @ c) = pre @ mid @ post"
    "crc_covered (nat hr) ?n (a @ mid' @ c) = pre @ mid' @ post" by blast
  with assms(1,7,8) bad have "fgwCrc32 (pre @ mid @ post) 0 = fgwCrc32 (pre @ mid' @ post) 0"
    by (simp add: verify_iff)
  then have "mid = mid'"
    by (rule fgwCrc32_burst) (use assms(2,4) in auto)
  with assms(3) show False by simp
qed

section \<open>The codec as a whole\<close>


text \<open>C32: A frame written by fgwSegmentEncode, followed by any bytes, is read back by fgwSegmentPeekHeader with
  the header fields it was given (outport id 0 unless routed, the CRC filled in and FLAG_HDR_EXT set), its
  payload is in place, and fgwSegmentVerifyCrc accepts it.\<close>

theorem segment_roundtrip:
  assumes enc: "fgwSegmentEncode (Some out) (int (length out)) hdr (Some p) (int (length p)) = (n, Some out')"
    and n: "0 \<le> n" and frame: "frame = take (nat n) out'"
  shows "fgwSegmentPeekHeader (frame @ rest) h0 =
      (int (wire_hdr_size hdr),
       \<lparr>hdr_magic = SEG_MAGIC, hdr_flags = hdr_flags hdr OR FLAG_HDR_EXT, hdr_payload_len = of_nat (length p),
        hdr_session_id = hdr_session_id hdr, hdr_seq_num = hdr_seq_num hdr, hdr_ingress_id = hdr_ingress_id hdr,
        hdr_outport_id = (if hdr_routed hdr then hdr_outport_id hdr else 0), hdr_crc32 = segment_crc hdr p\<rparr>) \<and>
    fgwSegmentVerifyCrc (frame @ rest) (snd (fgwSegmentPeekHeader (frame @ rest) h0)) (int (wire_hdr_size hdr)) \<and>
    unat (hdr_payload_len (snd (fgwSegmentPeekHeader (frame @ rest) h0))) = length p \<and>
    bslice (wire_hdr_size hdr) (length p) (frame @ rest) = p \<and> length frame = wire_hdr_size hdr + length p"
proof -
  have len: "length p \<le> MAX_PAYLOAD"
    using encode_errors(2) [of "int (length p)" out "int (length out)" hdr "Some p"] enc n by (cases "length p \<le> MAX_PAYLOAD") auto
  moreover have "wire_hdr_size hdr + length p \<le> length out"
    using encode_errors(3) [of "int (length p)" "int (length out)" hdr out "Some p"] enc n len
    by (cases "wire_hdr_size hdr + length p \<le> length out") auto
  ultimately have img: "frame = segment_image hdr p"
    using encode_writes [of hdr p "int (length out)" out] enc frame by (simp add: nat_add_distrib)
  show ?thesis
    using peek_image [OF len] verify_image [OF len] wire_hdr_size_ge [of hdr]
    by (simp add: img decoded_header_def unat_len16 [OF len] segment_image_def bslice_def)
qed

definition sample_header :: FgwSegmentHeader where
  "sample_header = FgwSegmentHeader_init\<lparr>hdr_flags := FLAG_DATA OR FLAG_HDR_ROUTE, hdr_session_id := 9,
     hdr_seq_num := 4, hdr_ingress_id := 7, hdr_outport_id := 3\<rparr>"

lemma sample_header_fields [simp]: "wire_hdr_size sample_header = 24" "hdr_seq_num sample_header = 4"
  by (simp_all add: sample_header_def wire_hdr_size_def hdr_routed_def FgwSegmentHeader_init_def seg_flags seg_sizes)

theorem segment_roundtrip_witness:
  "\<exists>out'. fgwSegmentEncode (Some (replicate 64 0)) 64 sample_header (Some [1, 2, 3]) 3 = (27, Some out') \<and>
     fst (fgwSegmentPeekHeader (take 27 out' @ [5]) FgwSegmentHeader_init) = 24 \<and>
     bslice 24 3 (take 27 out' @ [5]) = [1, 2, 3]"
proof -
  have enc: "fgwSegmentEncode (Some (replicate 64 0)) (int (length (replicate 64 (0 :: byte)))) sample_header
      (Some [1, 2, 3]) (int (length [1, 2, 3 :: byte])) =
      (27, Some (segment_image sample_header [1, 2, 3] @ drop 27 (replicate 64 0)))"
    using encode_writes [of sample_header "[1, 2, 3]" 64 "replicate 64 0"] by (simp add: MAX_PAYLOAD_def)
  show ?thesis
    using segment_roundtrip [OF enc _ refl, of "[5]" FgwSegmentHeader_init] enc
    by (simp add: numeral_3_eq_3)
qed

theorem encode_total:
  "fgwSegmentEncode None out_size hdr payload n = (errcode ERR_MEMORY, None) \<and>
   fgwSegmentEncode (Some out) (int (length out)) hdr (Some p) (int (length p)) =
     (if MAX_PAYLOAD < length p then (errcode ERR_BADSEGMENT, Some out)
      else if length out < wire_hdr_size hdr + length p then (errcode ERR_MEMORY, Some out)
      else (int (wire_hdr_size hdr + length p),
            Some (segment_image hdr p @ drop (wire_hdr_size hdr + length p) out)))"
  using encode_errors(2,3) [where n = "int (length p)" and hdr = hdr and payload = "Some p"] encode_writes [of hdr p "int (length out)" out]
  by (auto simp: encode_errors(1))

lemma peek_trichotomy:
  "fst (fgwSegmentPeekHeader buf h) = 0 \<and> length buf < ROUTED_HEADER_SIZE \<or>
   fst (fgwSegmentPeekHeader buf h) = errcode ERR_BADSEGMENT \<and> LEGACY_HEADER_SIZE \<le> length buf \<or>
   fst (fgwSegmentPeekHeader buf h) \<in> {16, 20, 24} \<and>
     fst (fgwSegmentPeekHeader buf h) \<le> int (length buf) \<and>
     unat (hdr_payload_len (snd (fgwSegmentPeekHeader buf h))) \<le> MAX_PAYLOAD \<and>
     hdr_magic (snd (fgwSegmentPeekHeader buf h)) = SEG_MAGIC"
  by (auto simp: fgwSegmentPeekHeader_def Let_def seg_sizes not_less)



text \<open>C35: fgwSegmentPeekHeader either asks for more bytes, and then fewer than 24 are there, or rejects a buffer
  of at least 16 bytes, or returns a header size of 16, 20 or 24 that lies within the buffer, with the magic
  byte and a payload length of at most MAX_PAYLOAD.\<close>

theorem peek_total:
  "fst (fgwSegmentPeekHeader buf h) = 0 \<and> length buf < ROUTED_HEADER_SIZE \<or>
   fst (fgwSegmentPeekHeader buf h) = errcode ERR_BADSEGMENT \<and> LEGACY_HEADER_SIZE \<le> length buf \<or>
   fst (fgwSegmentPeekHeader buf h) \<in> {16, 20, 24} \<and>
     fst (fgwSegmentPeekHeader buf h) \<le> int (length buf) \<and>
     unat (hdr_payload_len (snd (fgwSegmentPeekHeader buf h))) \<le> MAX_PAYLOAD \<and>
     hdr_magic (snd (fgwSegmentPeekHeader buf h)) = SEG_MAGIC"
  by (rule peek_trichotomy)

end
