(* ===== verification/Fgw_Pack.thy ===== *)
theory Fgw_Pack
  imports Fgw_Segment
begin

text \<open>
  The generated ZDS (de)serialisers of \<^verbatim>\<open>src/src/zfgw_pack.cpp\<close>: their common shape, and the two
  structs that travel inside link-control segments, \<^verbatim>\<open>FgwHello\<close> and \<^verbatim>\<open>FgwLinkFeedback\<close>; the others are in
  \<open>Fgw_Structs\<close>. The ZDS primitives and the
  \<^verbatim>\<open>CHECKLEN_MOVEBUF_ADDRET_DECSIZE\<close> macro belong to the zce library, which is not part of the
  repository: they are the fields of a record \<open>zds\<close> that every definition takes. What the
  generated code relies on is the predicate \<open>zds_laws\<close>. The \<^verbatim>\<open>zds_context_t*\<close> argument is
  \<^verbatim>\<open>nullptr\<close> at every call site of the repository and is left out.
\<close>

section \<open>The zce primitives\<close>

text \<open>A destination is \<open>Some room\<close>, or \<open>None\<close> for the \<^verbatim>\<open>nullptr\<close> that asks for the size
  only. A writer returns the length it reports and the bytes it stored. \<^verbatim>\<open>zds_pack_array\<close> and
  \<^verbatim>\<open>zds_unpack_array\<close> are templates over the element's functions, and \<^verbatim>\<open>is_empty_member\<close> is overloaded.\<close>

type_synonym zroom = "int option"

record zds =
  z_unpack_struct_header :: "bytes \<Rightarrow> bool \<Rightarrow> int \<times> u64"
  z_unpack_u8 :: "bytes \<Rightarrow> int \<times> u8"
  z_unpack_u16 :: "bytes \<Rightarrow> int \<times> u16"
  z_unpack_u32 :: "bytes \<Rightarrow> int \<times> u32"
  z_unpack_skip :: "bytes \<Rightarrow> int"
  z_unpack_check :: "int \<Rightarrow> bytes \<times> int \<Rightarrow> int + bytes \<times> int"
  z_pack_struct_header :: "zroom \<Rightarrow> u64 \<Rightarrow> bool \<Rightarrow> int \<times> bytes"
  z_pack_u8 :: "zroom \<Rightarrow> u8 \<Rightarrow> int \<times> bytes"
  z_pack_u16 :: "zroom \<Rightarrow> u16 \<Rightarrow> int \<times> bytes"
  z_pack_u32 :: "zroom \<Rightarrow> u32 \<Rightarrow> int \<times> bytes"
  z_pack_check :: "int \<Rightarrow> zroom \<times> int \<Rightarrow> int + zroom \<times> int"
  z_empty_u8 :: "u8 \<Rightarrow> bool"
  z_empty_u16 :: "u16 \<Rightarrow> bool"
  z_empty_u32 :: "u32 \<Rightarrow> bool"
  z_unpack_u64 :: "bytes \<Rightarrow> int \<times> u64"
  z_pack_u64 :: "zroom \<Rightarrow> u64 \<Rightarrow> int \<times> bytes"
  z_empty_u64 :: "u64 \<Rightarrow> bool"
  z_unpack_i32 :: "bytes \<Rightarrow> int \<times> int"
  z_pack_i32 :: "zroom \<Rightarrow> int \<Rightarrow> int \<times> bytes"
  z_empty_i32 :: "int \<Rightarrow> bool"
  z_unpack_f64 :: "bytes \<Rightarrow> int \<times> rat"
  z_pack_f64 :: "zroom \<Rightarrow> rat \<Rightarrow> int \<times> bytes"
  z_empty_f64 :: "rat \<Rightarrow> bool"
  z_unpack_str :: "bytes \<Rightarrow> int \<times> string"
  z_pack_str :: "zroom \<Rightarrow> string \<Rightarrow> int \<times> bytes"
  z_empty_str :: "string \<Rightarrow> bool"
  z_unpack_channels :: "(bytes \<Rightarrow> int \<times> FgwChannelConfig) \<Rightarrow> bytes \<Rightarrow> int \<times> FgwChannelConfig list"
  z_pack_channels :: "(zroom \<Rightarrow> FgwChannelConfig \<Rightarrow> int \<times> bytes) \<Rightarrow> zroom \<Rightarrow> FgwChannelConfig list \<Rightarrow> int \<times> bytes"
  z_unpack_links :: "(bytes \<Rightarrow> int \<times> FgwLinkQuality) \<Rightarrow> bytes \<Rightarrow> int \<times> FgwLinkQuality list"
  z_pack_links :: "(zroom \<Rightarrow> FgwLinkQuality \<Rightarrow> int \<times> bytes) \<Rightarrow> zroom \<Rightarrow> FgwLinkQuality list \<Rightarrow> int \<times> bytes"
  z_unpack_sessions :: "(bytes \<Rightarrow> int \<times> FgwSessionStat) \<Rightarrow> bytes \<Rightarrow> int \<times> FgwSessionStat list"
  z_pack_sessions :: "(zroom \<Rightarrow> FgwSessionStat \<Rightarrow> int \<times> bytes) \<Rightarrow> zroom \<Rightarrow> FgwSessionStat list \<Rightarrow> int \<times> bytes"
  z_empty_endpoint :: "FgwEndpoint \<Rightarrow> bool"
  z_empty_channel :: "FgwChannelConfig \<Rightarrow> bool"
  z_empty_config :: "FgwConfig \<Rightarrow> bool"

section \<open>The shape of the generated code\<close>

definition sum_bind :: "'e + 'a \<Rightarrow> ('a \<Rightarrow> 'e + 'b) \<Rightarrow> 'e + 'b" where
  "sum_bind x f = (case x of Inl e \<Rightarrow> Inl e | Inr a \<Rightarrow> f a)"

lemma sum_bind_simps [simp]: "sum_bind (Inl e) f = Inl e" "sum_bind (Inr a) f = f a"
  by (simp_all add: sum_bind_def)

text \<open>\<^verbatim>\<open>if (!zdp::is_empty_member(_t.x)) _struct_prefix |= 1ull << i;\<close> for the members in
  declaration order, and the test \<^verbatim>\<open>_struct_prefix & (1ull << i)\<close>.\<close>

fun struct_prefix_from :: "nat \<Rightarrow> bool list \<Rightarrow> u64 \<Rightarrow> u64" where
  "struct_prefix_from i [] p = p"
| "struct_prefix_from i (b # bs) p =
     struct_prefix_from (Suc i) bs (if b then p OR push_bit i 1 else p)"

definition struct_prefix :: "bool list \<Rightarrow> u64" where
  "struct_prefix bs = struct_prefix_from 0 bs 0"

definition has_bit :: "u64 \<Rightarrow> nat \<Rightarrow> bool" where
  "has_bit p i = (p AND push_bit i 1 \<noteq> 0)"

text \<open>The members of a writer in order: each a call followed by the macro, under its prefix bit.\<close>

type_synonym pack_member = "bool \<times> (zroom \<Rightarrow> int \<times> bytes)"
type_synonym pack_state = "zroom \<times> int \<times> bytes"

definition pack_part :: "zds \<Rightarrow> pack_member \<Rightarrow> pack_state \<Rightarrow> (int \<times> bytes) + pack_state" where
  "pack_part z m st =
     (case (m, st) of ((present, f), (room, ret, out)) \<Rightarrow>
        if present then
          (case f room of (len, bs) \<Rightarrow>
             (case z_pack_check z len (room, ret) of
                Inl e \<Rightarrow> Inl (e, out)
              | Inr (room', ret') \<Rightarrow> Inr (room', ret', out @ bs)))
        else Inr st)"

fun pack_parts :: "zds \<Rightarrow> pack_member list \<Rightarrow> pack_state \<Rightarrow> (int \<times> bytes) + pack_state" where
  "pack_parts z [] st = Inr st"
| "pack_parts z (m # ms) st = sum_bind (pack_part z m st) (pack_parts z ms)"

definition pack_struct :: "zds \<Rightarrow> zroom \<Rightarrow> u64 \<Rightarrow> bool \<Rightarrow> (u64 \<Rightarrow> pack_member list) \<Rightarrow> int \<times> bytes" where
  "pack_struct z room p has_prefix members =
     (case pack_parts z ((True, \<lambda>r. z_pack_struct_header z r p has_prefix) # members p) (room, 0, []) of
        Inl e \<Rightarrow> e
      | Inr (room', ret, out) \<Rightarrow> (ret, out))"

text \<open>The members of a reader: the call, the assignment and the macro under the prefix bit,
  else \<^verbatim>\<open>_t.x = {}\<close>. A reader yields the length and the assignment to perform.\<close>

type_synonym 't unpack_member = "bool \<times> (bytes \<Rightarrow> int \<times> ('t \<Rightarrow> 't)) \<times> ('t \<Rightarrow> 't)"
type_synonym 't unpack_state = "bytes \<times> int \<times> 't"

definition rd :: "(bytes \<Rightarrow> int \<times> 'v) \<Rightarrow> ('v \<Rightarrow> 't \<Rightarrow> 't) \<Rightarrow> bytes \<Rightarrow> int \<times> ('t \<Rightarrow> 't)" where
  "rd f assign buf = (case f buf of (len, v) \<Rightarrow> (len, assign v))"

definition unpack_part :: "zds \<Rightarrow> 't unpack_member \<Rightarrow> 't unpack_state \<Rightarrow> (int \<times> 't) + 't unpack_state" where
  "unpack_part z m st =
     (case (m, st) of ((present, f, reset), (buf, ret, t)) \<Rightarrow>
        if present then
          (case f buf of (len, assign) \<Rightarrow>
             (case z_unpack_check z len (buf, ret) of
                Inl e \<Rightarrow> Inl (e, assign t)
              | Inr (buf', ret') \<Rightarrow> Inr (buf', ret', assign t)))
        else Inr (buf, ret, reset t))"

fun unpack_parts :: "zds \<Rightarrow> 't unpack_member list \<Rightarrow> 't unpack_state \<Rightarrow> (int \<times> 't) + 't unpack_state" where
  "unpack_parts z [] st = Inr st"
| "unpack_parts z (m # ms) st = sum_bind (unpack_part z m st) (unpack_parts z ms)"

text \<open>The trailing loop over prefix bits this version does not know.\<close>

function unpack_skip_loop :: "zds \<Rightarrow> u64 \<Rightarrow> 't unpack_state \<Rightarrow> (int \<times> 't) + 't unpack_state" where
  "unpack_skip_loop z prefix st =
     (if prefix = 0 then Inr st
      else
        sum_bind
          (if prefix AND 1 \<noteq> 0 then
             (case st of (buf, ret, t) \<Rightarrow>
                (case z_unpack_check z (z_unpack_skip z buf) (buf, ret) of
                   Inl e \<Rightarrow> Inl (e, t)
                 | Inr (buf', ret') \<Rightarrow> Inr (buf', ret', t)))
           else Inr st)
          (unpack_skip_loop z (drop_bit 1 prefix)))"
  by pat_completeness auto
termination
proof (relation "measure (\<lambda>(z, prefix, st). unat prefix)", goal_cases)
  case (2 z prefix st x)
  then have "0 < unat prefix" by (simp add: unat_gt_0)
  then show ?case by (simp add: drop_bit_eq_div unat_div)
qed simp

declare unpack_skip_loop.simps [simp del]

lemma unpack_skip_loop_zero [simp]: "unpack_skip_loop z 0 st = Inr st"
  by (simp add: unpack_skip_loop.simps)

definition unpack_struct ::
  "zds \<Rightarrow> 't \<Rightarrow> bytes \<Rightarrow> bool \<Rightarrow> (u64 \<Rightarrow> 't unpack_member list) \<Rightarrow> int \<times> 't" where
  "unpack_struct z t buf has_prefix members =
     (case z_unpack_struct_header z buf has_prefix of (len, p) \<Rightarrow>
        (case z_unpack_check z len (buf, 0) of
           Inl e \<Rightarrow> (e, t)
         | Inr (buf', ret') \<Rightarrow>
             (case sum_bind (unpack_parts z (members p) (buf', ret', t))
                     (unpack_skip_loop z (drop_bit (length (members p)) p)) of
                Inl e \<Rightarrow> e
              | Inr (buf'', ret'', t') \<Rightarrow> (ret'', t'))))"

section \<open>FgwHello\<close>

definition hello_prefix :: "zds \<Rightarrow> FgwHello \<Rightarrow> u64" where
  "hello_prefix z t = struct_prefix
     [\<not> z_empty_u16 z (hello_proto_version t), \<not> z_empty_u8 z (hello_role t),
      \<not> z_empty_u32 z (hello_ingress_id t), \<not> z_empty_u32 z (hello_outport_id t),
      \<not> z_empty_u32 z (hello_channel_id t), \<not> z_empty_u32 z (hello_generation t)]"

definition zds_pack_FgwHello :: "zds \<Rightarrow> zroom \<Rightarrow> FgwHello \<Rightarrow> bool \<Rightarrow> int \<times> bytes" where
  "zds_pack_FgwHello z room t has_prefix =
     pack_struct z room (hello_prefix z t) has_prefix (\<lambda>p.
       [(has_bit p 0, \<lambda>r. z_pack_u16 z r (hello_proto_version t)),
        (has_bit p 1, \<lambda>r. z_pack_u8 z r (hello_role t)),
        (has_bit p 2, \<lambda>r. z_pack_u32 z r (hello_ingress_id t)),
        (has_bit p 3, \<lambda>r. z_pack_u32 z r (hello_outport_id t)),
        (has_bit p 4, \<lambda>r. z_pack_u32 z r (hello_channel_id t)),
        (has_bit p 5, \<lambda>r. z_pack_u32 z r (hello_generation t))])"

definition zds_unpack_FgwHello :: "zds \<Rightarrow> FgwHello \<Rightarrow> bytes \<Rightarrow> bool \<Rightarrow> int \<times> FgwHello" where
  "zds_unpack_FgwHello z t buf has_prefix =
     unpack_struct z t buf has_prefix (\<lambda>p.
       [(has_bit p 0, rd (z_unpack_u16 z) (\<lambda>v t. t\<lparr>hello_proto_version := v\<rparr>), \<lambda>t. t\<lparr>hello_proto_version := 0\<rparr>),
        (has_bit p 1, rd (z_unpack_u8 z) (\<lambda>v t. t\<lparr>hello_role := v\<rparr>), \<lambda>t. t\<lparr>hello_role := 0\<rparr>),
        (has_bit p 2, rd (z_unpack_u32 z) (\<lambda>v t. t\<lparr>hello_ingress_id := v\<rparr>), \<lambda>t. t\<lparr>hello_ingress_id := 0\<rparr>),
        (has_bit p 3, rd (z_unpack_u32 z) (\<lambda>v t. t\<lparr>hello_outport_id := v\<rparr>), \<lambda>t. t\<lparr>hello_outport_id := 0\<rparr>),
        (has_bit p 4, rd (z_unpack_u32 z) (\<lambda>v t. t\<lparr>hello_channel_id := v\<rparr>), \<lambda>t. t\<lparr>hello_channel_id := 0\<rparr>),
        (has_bit p 5, rd (z_unpack_u32 z) (\<lambda>v t. t\<lparr>hello_generation := v\<rparr>), \<lambda>t. t\<lparr>hello_generation := 0\<rparr>)])"

section \<open>FgwLinkFeedback\<close>

definition feedback_prefix :: "zds \<Rightarrow> FgwLinkFeedback \<Rightarrow> u64" where
  "feedback_prefix z t = struct_prefix
     [\<not> z_empty_u32 z (fb_decision_epoch t), \<not> z_empty_u32 z (fb_recommended_primary t),
      \<not> z_empty_u32 z (fb_alive_bitmap t), \<not> z_empty_u32 z (fb_highest_seq t)]"

definition zds_pack_FgwLinkFeedback :: "zds \<Rightarrow> zroom \<Rightarrow> FgwLinkFeedback \<Rightarrow> bool \<Rightarrow> int \<times> bytes" where
  "zds_pack_FgwLinkFeedback z room t has_prefix =
     pack_struct z room (feedback_prefix z t) has_prefix (\<lambda>p.
       [(has_bit p 0, \<lambda>r. z_pack_u32 z r (fb_decision_epoch t)),
        (has_bit p 1, \<lambda>r. z_pack_u32 z r (fb_recommended_primary t)),
        (has_bit p 2, \<lambda>r. z_pack_u32 z r (fb_alive_bitmap t)),
        (has_bit p 3, \<lambda>r. z_pack_u32 z r (fb_highest_seq t))])"

definition zds_unpack_FgwLinkFeedback ::
  "zds \<Rightarrow> FgwLinkFeedback \<Rightarrow> bytes \<Rightarrow> bool \<Rightarrow> int \<times> FgwLinkFeedback" where
  "zds_unpack_FgwLinkFeedback z t buf has_prefix =
     unpack_struct z t buf has_prefix (\<lambda>p.
       [(has_bit p 0, rd (z_unpack_u32 z) (\<lambda>v t. t\<lparr>fb_decision_epoch := v\<rparr>), \<lambda>t. t\<lparr>fb_decision_epoch := 0\<rparr>),
        (has_bit p 1, rd (z_unpack_u32 z) (\<lambda>v t. t\<lparr>fb_recommended_primary := v\<rparr>), \<lambda>t. t\<lparr>fb_recommended_primary := 0\<rparr>),
        (has_bit p 2, rd (z_unpack_u32 z) (\<lambda>v t. t\<lparr>fb_alive_bitmap := v\<rparr>), \<lambda>t. t\<lparr>fb_alive_bitmap := 0\<rparr>),
        (has_bit p 3, rd (z_unpack_u32 z) (\<lambda>v t. t\<lparr>fb_highest_seq := v\<rparr>), \<lambda>t. t\<lparr>fb_highest_seq := 0\<rparr>)])"

section \<open>What the generated code relies on\<close>

text \<open>A primitive codec: a writer that succeeds stored exactly the bytes it reports, within the
  room it was given, and the reader gets the value back from them.\<close>

definition prim_ok :: "(zroom \<Rightarrow> 'v \<Rightarrow> int \<times> bytes) \<Rightarrow> (bytes \<Rightarrow> int \<times> 'v) \<Rightarrow> bool" where
  "prim_ok pk un \<longleftrightarrow>
     (\<forall>room v len bs rest. pk (Some room) v = (len, bs) \<and> 0 \<le> len \<longrightarrow>
        len = int (length bs) \<and> len \<le> room \<and> un (bs @ rest) = (len, v))"

definition zds_laws :: "zds \<Rightarrow> bool" where
  "zds_laws z \<longleftrightarrow>
     prim_ok (z_pack_u8 z) (z_unpack_u8 z) \<and> prim_ok (z_pack_u16 z) (z_unpack_u16 z) \<and>
     prim_ok (z_pack_u32 z) (z_unpack_u32 z) \<and>
     (\<forall>hp. prim_ok (\<lambda>r p. z_pack_struct_header z r p hp) (\<lambda>b. z_unpack_struct_header z b hp)) \<and>
     prim_ok (z_pack_u64 z) (z_unpack_u64 z) \<and> prim_ok (z_pack_i32 z) (z_unpack_i32 z) \<and>
     prim_ok (z_pack_f64 z) (z_unpack_f64 z) \<and> prim_ok (z_pack_str z) (z_unpack_str z) \<and>
     (\<forall>pk un. prim_ok pk un \<longrightarrow> prim_ok (z_pack_channels z pk) (z_unpack_channels z un)) \<and>
     (\<forall>pk un. prim_ok pk un \<longrightarrow> prim_ok (z_pack_links z pk) (z_unpack_links z un)) \<and>
     (\<forall>pk un. prim_ok pk un \<longrightarrow> prim_ok (z_pack_sessions z pk) (z_unpack_sessions z un)) \<and>
     (\<forall>v. z_empty_u64 z v \<longrightarrow> v = 0) \<and> (\<forall>v. z_empty_i32 z v \<longrightarrow> v = 0) \<and>
     (\<forall>v. z_empty_f64 z v \<longrightarrow> v = 0) \<and> (\<forall>v. z_empty_str z v \<longrightarrow> v = []) \<and>
     (\<forall>v. z_empty_endpoint z v \<longrightarrow> v = FgwEndpoint_init) \<and>
     (\<forall>v. z_empty_channel z v \<longrightarrow> v = FgwChannelConfig_init) \<and>
     (\<forall>v. z_empty_config z v \<longrightarrow> v = FgwConfig_init) \<and>
     (\<forall>v. z_empty_u8 z v \<longrightarrow> v = 0) \<and> (\<forall>v. z_empty_u16 z v \<longrightarrow> v = 0) \<and>
     (\<forall>v. z_empty_u32 z v \<longrightarrow> v = 0) \<and>
     (\<forall>len s. len < 0 \<longrightarrow> z_pack_check z len s = Inl len) \<and>
     (\<forall>len room ret. 0 \<le> len \<and> len \<le> room \<longrightarrow>
        z_pack_check z len (Some room, ret) = Inr (Some (room - len), ret + len)) \<and>
     (\<forall>len s. len < 0 \<longrightarrow> z_unpack_check z len s = Inl len) \<and>
     (\<forall>len buf ret. 0 \<le> len \<and> len \<le> int (length buf) \<longrightarrow>
        z_unpack_check z len (buf, ret) = Inr (drop (nat len) buf, ret + len))"

lemma zds_laws_check:
  assumes "zds_laws z"
  shows "len < 0 \<Longrightarrow> z_pack_check z len s = Inl len"
    "0 \<le> len \<Longrightarrow> len \<le> room \<Longrightarrow> z_pack_check z len (Some room, ret) = Inr (Some (room - len), ret + len)"
    "0 \<le> len \<Longrightarrow> len \<le> int (length buf) \<Longrightarrow> z_unpack_check z len (buf, ret) = Inr (drop (nat len) buf, ret + len)"
  using assms by (cases s; simp add: zds_laws_def)+

lemma zds_laws_prims:
  assumes "zds_laws z"
  shows "prim_ok (z_pack_u8 z) (z_unpack_u8 z)" "prim_ok (z_pack_u16 z) (z_unpack_u16 z)"
    "prim_ok (z_pack_u32 z) (z_unpack_u32 z)" "prim_ok (z_pack_u64 z) (z_unpack_u64 z)"
    "prim_ok (z_pack_i32 z) (z_unpack_i32 z)" "prim_ok (z_pack_f64 z) (z_unpack_f64 z)"
    "prim_ok (z_pack_str z) (z_unpack_str z)"
    "prim_ok pkc unc \<Longrightarrow> prim_ok (z_pack_channels z pkc) (z_unpack_channels z unc)"
    "prim_ok pkl unl \<Longrightarrow> prim_ok (z_pack_links z pkl) (z_unpack_links z unl)"
    "prim_ok pks uns \<Longrightarrow> prim_ok (z_pack_sessions z pks) (z_unpack_sessions z uns)"
  using assms by (simp_all add: zds_laws_def)

lemma zds_laws_empty:
  assumes "zds_laws z"
  shows "z_empty_u8 z v \<Longrightarrow> v = 0" "z_empty_u16 z w \<Longrightarrow> w = 0" "z_empty_u32 z x \<Longrightarrow> x = 0" "z_empty_u64 z y \<Longrightarrow> y = 0"
    "z_empty_i32 z i \<Longrightarrow> i = 0" "z_empty_f64 z f \<Longrightarrow> f = 0" "z_empty_str z s \<Longrightarrow> s = []"
    "z_empty_endpoint z e \<Longrightarrow> e = FgwEndpoint_init" "z_empty_channel z c \<Longrightarrow> c = FgwChannelConfig_init"
    "z_empty_config z g \<Longrightarrow> g = FgwConfig_init"
  using assms by (simp_all add: zds_laws_def)

section \<open>Round trips\<close>

lemma has_bit_iff: "has_bit p i \<longleftrightarrow> bit p i"
  unfolding has_bit_def bit_iff_and_push_bit_not_eq_0 ..

lemma bit_struct_prefix_from:
  "i + length bs \<le> 64 \<Longrightarrow>
   bit (struct_prefix_from i bs p) j \<longleftrightarrow> bit p j \<or> (i \<le> j \<and> j < i + length bs \<and> bs ! (j - i))"
proof (induction i bs p rule: struct_prefix_from.induct)
  case (2 i b bs p)
  then show ?case
    by (auto simp: bit_simps nth_Cons' Suc_diff_le not_less_eq_eq le_less_Suc_eq
        elim: le_neq_implies_less)
qed auto

lemma bit_struct_prefix: "length bs \<le> 64 \<Longrightarrow> bit (struct_prefix bs) j \<longleftrightarrow> j < length bs \<and> bs ! j"
  using bit_struct_prefix_from [of 0 bs 0 j] by (simp add: struct_prefix_def)

lemma drop_struct_prefix: "length bs \<le> 64 \<Longrightarrow> drop_bit (length bs) (struct_prefix bs) = 0"
  by (rule bit_word_eqI) (simp add: bit_drop_bit_eq bit_struct_prefix)

text \<open>A writer and a reader of one member that fit together: what the writer stored, the reader
  consumes, performing \<open>assign\<close>; a member left out is reset to the value it had.\<close>

definition member_ok :: "pack_member \<Rightarrow> 't unpack_member \<Rightarrow> ('t \<Rightarrow> 't) \<Rightarrow> bool" where
  "member_ok pm um assign \<longleftrightarrow> fst pm = fst um \<and>
     (fst pm \<longrightarrow> (\<forall>room len bs rest. snd pm (Some room) = (len, bs) \<and> 0 \<le> len \<longrightarrow>
        len = int (length bs) \<and> len \<le> room \<and> fst (snd um) (bs @ rest) = (len, assign))) \<and>
     (\<not> fst pm \<longrightarrow> snd (snd um) = assign)"

lemma member_okI:
  assumes "prim_ok pk un" and "\<not> present \<Longrightarrow> v = dflt"
  shows "member_ok (present, \<lambda>r. pk r v) (present, rd un upd, upd dflt) (upd v)"
  using assms by (auto simp: member_ok_def prim_ok_def rd_def)

lemma pack_part_cases:
  assumes "zds_laws z" and "member_ok pm um assign"
  shows "(\<exists>e. pack_part z pm (Some room, ret, out) = Inl e \<and> fst e < 0) \<or>
    (\<exists>bs. int (length bs) \<le> max 0 room \<and>
      pack_part z pm (Some room, ret, out) = Inr (Some (room - int (length bs)), ret + int (length bs), out @ bs) \<and>
      (\<forall>rest r t. unpack_part z um (bs @ rest, r, t) = Inr (rest, r + int (length bs), assign t)))"
proof (cases "fst pm")
  case False
  with assms(2) have "pack_part z pm (Some room, ret, out) = Inr (Some room, ret, out)"
    "\<And>rest r t. unpack_part z um (rest, r, t) = Inr (rest, r, assign t)"
    by (auto simp: pack_part_def unpack_part_def member_ok_def split: prod.splits)
  then show ?thesis
    by (intro disjI2 exI [of _ "[]"]) simp
next
  case True
  obtain len bs where pk: "snd pm (Some room) = (len, bs)" by fastforce
  show ?thesis
  proof (cases "len < 0")
    case neg: True
    with True pk zds_laws_check(1) [OF assms(1)] show ?thesis
      by (auto simp: pack_part_def split: prod.splits)
  next
    case False
    with True pk assms(2) have ok: "len = int (length bs)" "len \<le> room"
      "\<And>rest. fst (snd um) (bs @ rest) = (len, assign)" "fst um"
      by (auto simp: member_ok_def)
    with True pk False zds_laws_check(2,3) [OF assms(1)] show ?thesis
      by (intro disjI2 exI [of _ bs])
        (auto simp: pack_part_def unpack_part_def split: prod.splits)
  qed
qed

lemma pack_parts_roundtrip:
  assumes "zds_laws z" and "list_all2 (\<lambda>pm (um, assign). member_ok pm um assign) pms ums"
  shows "(\<exists>e. pack_parts z pms (Some room, ret, out) = Inl e \<and> fst e < 0) \<or>
    (\<exists>room' bs. pack_parts z pms (Some room, ret, out) = Inr (room', ret + int (length bs), out @ bs) \<and>
      int (length bs) \<le> max 0 room \<and>
      (\<forall>rest r t. unpack_parts z (map fst ums) (bs @ rest, r, t) =
                  Inr (rest, r + int (length bs), foldl (\<lambda>t f. f t) t (map snd ums))))"
  using assms(2)
proof (induction pms ums arbitrary: room ret out rule: list_all2_induct)
  case Nil
  then show ?case by simp
next
  case (Cons pm pms ua ums)
  obtain um assign where ua: "ua = (um, assign)" by fastforce
  from pack_part_cases [OF assms(1), of pm um assign room ret out] Cons.hyps(1) ua
  consider e where "pack_part z pm (Some room, ret, out) = Inl e" "fst e < 0"
    | bs where "pack_part z pm (Some room, ret, out) =
          Inr (Some (room - int (length bs)), ret + int (length bs), out @ bs)" "int (length bs) \<le> max 0 room"
        "\<forall>rest r t. unpack_part z um (bs @ rest, r, t) = Inr (rest, r + int (length bs), assign t)"
    by auto
  then show ?case
  proof cases
    case 1
    then show ?thesis by simp
  next
    case (2 bs)
    from Cons.IH [of "room - int (length bs)" "ret + int (length bs)" "out @ bs"]
    show ?thesis
    proof (elim disjE exE conjE)
      fix room' bs'
      assume "pack_parts z pms (Some (room - int (length bs)), ret + int (length bs), out @ bs) =
          Inr (room', ret + int (length bs) + int (length bs'), (out @ bs) @ bs')"
        and "int (length bs') \<le> max 0 (room - int (length bs))"
        and un: "\<forall>rest r t. unpack_parts z (map fst ums) (bs' @ rest, r, t) =
                  Inr (rest, r + int (length bs'), foldl (\<lambda>t f. f t) t (map snd ums))"
      then show ?thesis
        using 2 ua by (intro disjI2 exI [of _ room'] exI [of _ "bs @ bs'"]) (auto simp: add.assoc)
    qed (use 2 in auto)
  qed
qed

lemma struct_roundtrip:
  assumes laws: "zds_laws z"
    and ok: "list_all2 (\<lambda>pm (um, assign). member_ok pm um assign) (pms p) ums"
    and ums: "map fst ums = umf p" "drop_bit (length ums) p = 0"
    and pack: "pack_struct z (Some room) p hp pms = (ret, out)" "0 \<le> ret"
  shows "ret = int (length out) \<and> ret \<le> room \<and>
    unpack_struct z t (out @ rest) hp umf = (ret, foldl (\<lambda>t f. f t) t (map snd ums))"
proof -
  let ?h = "(True, \<lambda>r. z_pack_struct_header z r p hp) :: pack_member"
  have prim: "prim_ok (\<lambda>r p. z_pack_struct_header z r p hp) (\<lambda>b. z_unpack_struct_header z b hp)"
    using laws by (simp add: zds_laws_def)
  obtain len bs0 where hdr: "z_pack_struct_header z (Some room) p hp = (len, bs0)" by fastforce
  have "\<not> len < 0"
  proof
    assume "len < 0"
    with zds_laws_check(1) [OF laws, of len "(Some room, 0)"] hdr pack show False
      by (simp add: pack_struct_def pack_part_def)
  qed
  with prim hdr have len: "len = int (length bs0)" "len \<le> room"
    and head: "\<And>r. z_unpack_struct_header z (bs0 @ r) hp = (int (length bs0), p)"
    unfolding prim_ok_def by (metis not_less)+
  define room0 where "room0 = room - int (length bs0)"
  have h: "pack_part z ?h (Some room, 0, []) = Inr (Some room0, int (length bs0), bs0)"
    using hdr len zds_laws_check(2) [OF laws, of len room 0] by (simp add: pack_part_def room0_def)
  from pack_parts_roundtrip [OF laws ok, of room0 "int (length bs0)" bs0] pack h
  obtain room' bs where
    "pack_parts z (pms p) (Some room0, int (length bs0), bs0) = Inr (room', int (length bs0) + int (length bs), bs0 @ bs)"
    and le: "int (length bs) \<le> max 0 room0"
    and un: "\<And>rest r t. unpack_parts z (map fst ums) (bs @ rest, r, t) =
                  Inr (rest, r + int (length bs), foldl (\<lambda>t f. f t) t (map snd ums))"
    by (fastforce simp: pack_struct_def)
  with pack h have out: "ret = int (length bs0) + int (length bs)" "out = bs0 @ bs"
    by (simp_all add: pack_struct_def)
  have "length (umf p) = length ums"
    using ums(1) by (metis length_map)
  then have "unpack_struct z t (out @ rest) hp umf = (ret, foldl (\<lambda>t f. f t) t (map snd ums))"
    using head [of "bs @ rest"] zds_laws_check(3) [OF laws, of "int (length bs0)" "bs0 @ bs @ rest" 0]
      un [of rest "int (length bs0)" t, unfolded ums(1)] ums(2) out
    by (simp add: unpack_struct_def)
  moreover have "ret \<le> room" using le out(1) len by (simp add: room0_def)
  ultimately show ?thesis using out by simp
qed

lemma hello_roundtrip:
  assumes laws: "zds_laws z"
    and pack: "zds_pack_FgwHello z (Some room) t hp = (ret, out)" "0 \<le> ret"
  shows "ret = int (length out) \<and> zds_unpack_FgwHello z t0 (out @ rest) hp = (ret, t)"
proof -
  let ?p = "hello_prefix z t"
  let ?b = "[\<not> z_empty_u16 z (hello_proto_version t), \<not> z_empty_u8 z (hello_role t),
      \<not> z_empty_u32 z (hello_ingress_id t), \<not> z_empty_u32 z (hello_outport_id t),
      \<not> z_empty_u32 z (hello_channel_id t), \<not> z_empty_u32 z (hello_generation t)]"
  let ?e = "\<lambda>i upd v. ((has_bit ?p i, rd (z_unpack_u32 z) upd, upd 0), upd v)"
  let ?ums = "[((has_bit ?p 0, rd (z_unpack_u16 z) (\<lambda>v t. t\<lparr>hello_proto_version := v\<rparr>), \<lambda>t. t\<lparr>hello_proto_version := 0\<rparr>),
       \<lambda>s. s\<lparr>hello_proto_version := hello_proto_version t\<rparr>),
      ((has_bit ?p 1, rd (z_unpack_u8 z) (\<lambda>v t. t\<lparr>hello_role := v\<rparr>), \<lambda>t. t\<lparr>hello_role := 0\<rparr>),
       \<lambda>s. s\<lparr>hello_role := hello_role t\<rparr>),
      ?e 2 (\<lambda>v t. t\<lparr>hello_ingress_id := v\<rparr>) (hello_ingress_id t),
      ?e 3 (\<lambda>v t. t\<lparr>hello_outport_id := v\<rparr>) (hello_outport_id t),
      ?e 4 (\<lambda>v t. t\<lparr>hello_channel_id := v\<rparr>) (hello_channel_id t),
      ?e 5 (\<lambda>v t. t\<lparr>hello_generation := v\<rparr>) (hello_generation t)]"
  have bits: "has_bit ?p i \<longleftrightarrow> i < 6 \<and> ?b ! i" for i
    by (simp add: hello_prefix_def has_bit_iff bit_struct_prefix eval_nat_numeral)
  have drop: "drop_bit (length ?ums) ?p = 0"
    using drop_struct_prefix [of ?b] by (simp add: hello_prefix_def)
  note prims = zds_laws_prims [OF laws] and empties = zds_laws_empty [OF laws]
  have "ret = int (length out) \<and> ret \<le> room \<and> zds_unpack_FgwHello z t0 (out @ rest) hp =
      (ret, foldl (\<lambda>t f. f t) t0 (map snd ?ums))"
    unfolding zds_unpack_FgwHello_def
    by (rule struct_roundtrip [OF laws _ _ drop pack [unfolded zds_pack_FgwHello_def]])
      (auto simp: bits empties intro!: member_okI [OF prims(1)] member_okI [OF prims(2)] member_okI [OF prims(3)])
  then show ?thesis by simp
qed

section \<open>A codec that satisfies the laws\<close>

text \<open>Fixed-width big-endian members behind a one-byte prefix: the laws are satisfiable. The
  concrete runs of the development use it.\<close>

definition fixed_pack :: "('v \<Rightarrow> bytes) \<Rightarrow> nat \<Rightarrow> ('v \<Rightarrow> bool) \<Rightarrow> zroom \<Rightarrow> 'v \<Rightarrow> int \<times> bytes" where
  "fixed_pack f n ok room v =
     (case room of
        None \<Rightarrow> (int n, [])
      | Some r \<Rightarrow> if r < int n \<or> \<not> ok v then (- 1, []) else (int n, f v))"

definition fixed_unpack :: "(bytes \<Rightarrow> 'v) \<Rightarrow> nat \<Rightarrow> 'v \<Rightarrow> bytes \<Rightarrow> int \<times> 'v" where
  "fixed_unpack g n dflt buf = (if length buf < n then (- 1, dflt) else (int n, g buf))"

text \<open>Strings and arrays behind a one-byte count.\<close>

fun be_pack_elems :: "(zroom \<Rightarrow> 'v \<Rightarrow> int \<times> bytes) \<Rightarrow> zroom \<Rightarrow> 'v list \<Rightarrow> int \<times> bytes" where
  "be_pack_elems pk room [] = (0, [])"
| "be_pack_elems pk room (x # xs) =
     (case pk room x of (l, b) \<Rightarrow>
        if l < 0 then (l, [])
        else case be_pack_elems pk (map_option (\<lambda>r. r - l) room) xs of (l2, b2) \<Rightarrow>
          if l2 < 0 then (l2, []) else (l + l2, b @ b2))"

fun be_unpack_elems :: "(bytes \<Rightarrow> int \<times> 'v) \<Rightarrow> nat \<Rightarrow> bytes \<Rightarrow> int \<times> 'v list" where
  "be_unpack_elems un 0 buf = (0, [])"
| "be_unpack_elems un (Suc n) buf =
     (case un buf of (l, x) \<Rightarrow>
        if l < 0 then (l, [])
        else case be_unpack_elems un n (drop (nat l) buf) of (l2, xs) \<Rightarrow>
          if l2 < 0 then (l2, []) else (l + l2, x # xs))"

definition be_pack_list :: "(zroom \<Rightarrow> 'v \<Rightarrow> int \<times> bytes) \<Rightarrow> zroom \<Rightarrow> 'v list \<Rightarrow> int \<times> bytes" where
  "be_pack_list pk room xs =
     (if 256 \<le> length xs \<or> (case room of None \<Rightarrow> False | Some r \<Rightarrow> r < 1) then (- 1, [])
      else case be_pack_elems pk (map_option (\<lambda>r. r - 1) room) xs of (l, b) \<Rightarrow>
        if l < 0 then (l, []) else (l + 1, of_nat (length xs) # b))"

definition be_unpack_list :: "(bytes \<Rightarrow> int \<times> 'v) \<Rightarrow> bytes \<Rightarrow> int \<times> 'v list" where
  "be_unpack_list un buf =
     (case buf of [] \<Rightarrow> (- 1, [])
      | n # buf \<Rightarrow> (case be_unpack_elems un (unat n) buf of (l, xs) \<Rightarrow> if l < 0 then (l, []) else (l + 1, xs)))"

definition pack_be64 :: "u64 \<Rightarrow> bytes" where
  "pack_be64 v = pack_be32 (ucast (drop_bit 32 v)) @ pack_be32 (ucast v)"

definition unpack_be64 :: "bytes \<Rightarrow> u64" where
  "unpack_be64 b = push_bit 32 (ucast (unpack_be32 b 0)) OR ucast (unpack_be32 b 4)"

definition be_zds :: zds where
  "be_zds = \<lparr>
     z_unpack_struct_header = (\<lambda>buf hp. fixed_unpack (\<lambda>b. ucast (unpack_be16 b 0)) 2 0 buf),
     z_unpack_u8 = fixed_unpack hd 1 0,
     z_unpack_u16 = fixed_unpack (\<lambda>b. unpack_be16 b 0) 2 0,
     z_unpack_u32 = fixed_unpack (\<lambda>b. unpack_be32 b 0) 4 0,
     z_unpack_skip = (\<lambda>buf. - 1),
     z_unpack_check = (\<lambda>len (buf, ret). if len < 0 \<or> int (length buf) < len then Inl (if len < 0 then len else - 1)
        else Inr (drop (nat len) buf, ret + len)),
     z_pack_struct_header = (\<lambda>room p hp. fixed_pack (\<lambda>p. pack_be16 (ucast p)) 2 (\<lambda>p. p < 65536) room p),
     z_pack_u8 = fixed_pack (\<lambda>v. [v]) 1 (\<lambda>_. True),
     z_pack_u16 = fixed_pack pack_be16 2 (\<lambda>_. True),
     z_pack_u32 = fixed_pack pack_be32 4 (\<lambda>_. True),
     z_pack_check = (\<lambda>len (room, ret). if len < 0 then Inl len else
        (case room of None \<Rightarrow> Inr (None, ret + len)
         | Some r \<Rightarrow> if r < len then Inl (- 1) else Inr (Some (r - len), ret + len))),
     z_empty_u8 = (\<lambda>v. v = 0), z_empty_u16 = (\<lambda>v. v = 0), z_empty_u32 = (\<lambda>v. v = 0),
     z_unpack_u64 = fixed_unpack unpack_be64 8 0, z_pack_u64 = fixed_pack pack_be64 8 (\<lambda>_. True),
     z_empty_u64 = (\<lambda>v. v = 0),
     z_unpack_i32 = fixed_unpack (\<lambda>b. sint (unpack_be32 b 0)) 4 0,
     z_pack_i32 = fixed_pack (\<lambda>v. pack_be32 (word_of_int v)) 4 (\<lambda>v. - (2 ^ 31) \<le> v \<and> v < 2 ^ 31),
     z_empty_i32 = (\<lambda>v. v = 0),
     z_unpack_f64 = fixed_unpack (\<lambda>b. 0) 8 0, z_pack_f64 = fixed_pack (\<lambda>v. replicate 8 0) 8 (\<lambda>v. v = 0),
     z_empty_f64 = (\<lambda>v. v = 0),
     z_unpack_str = be_unpack_list (fixed_unpack (\<lambda>b. char_of (unat (hd b))) 1 (CHR 0x00)),
     z_pack_str = be_pack_list (fixed_pack (\<lambda>c. [of_nat (of_char c)]) 1 (\<lambda>_. True)),
     z_empty_str = (\<lambda>v. v = []),
     z_unpack_channels = be_unpack_list, z_pack_channels = be_pack_list,
     z_unpack_links = be_unpack_list, z_pack_links = be_pack_list,
     z_unpack_sessions = be_unpack_list, z_pack_sessions = be_pack_list,
     z_empty_endpoint = (\<lambda>v. v = FgwEndpoint_init), z_empty_channel = (\<lambda>v. v = FgwChannelConfig_init),
     z_empty_config = (\<lambda>v. v = FgwConfig_init)\<rparr>"

lemma fixed_prim_ok:
  assumes "\<And>v. length (f v) = n" and "\<And>v rest. ok v \<Longrightarrow> g (f v @ rest) = v"
  shows "prim_ok (fixed_pack f n ok) (fixed_unpack g n dflt)"
  using assms by (auto simp: prim_ok_def fixed_pack_def fixed_unpack_def split: if_splits)

lemma be_elems_ok:
  assumes "prim_ok pk un"
  shows "be_pack_elems pk (Some room) xs = (len, bs) \<Longrightarrow> 0 \<le> len \<Longrightarrow>
    len = int (length bs) \<and> len \<le> max 0 room \<and> be_unpack_elems un (length xs) (bs @ rest) = (len, xs)"
proof (induction xs arbitrary: room len bs)
  case (Cons x xs)
  obtain l b where 1: "pk (Some room) x = (l, b)" by fastforce
  obtain l2 b2 where 2: "be_pack_elems pk (Some (room - l)) xs = (l2, b2)" by fastforce
  from Cons.prems 1 2 have l: "0 \<le> l" "0 \<le> l2" "len = l + l2" "bs = b @ b2"
    by (auto split: if_splits)
  have "l = int (length b)" "l \<le> room" "un (b @ b2 @ rest) = (l, x)"
    using assms 1 l(1) by (auto simp: prim_ok_def)
  with Cons.IH [OF 2 l(2)] l show ?case by auto
qed simp

lemma be_list_ok: "prim_ok pk un \<Longrightarrow> prim_ok (be_pack_list pk) (be_unpack_list un)"
  unfolding prim_ok_def [of "be_pack_list pk"]
proof (intro allI impI, elim conjE)
  fix room xs len bs rest
  assume ok: "prim_ok pk un" and pk: "be_pack_list pk (Some room) xs = (len, bs)" and len: "0 \<le> len"
  obtain l b where e: "be_pack_elems pk (Some (room - 1)) xs = (l, b)" by fastforce
  from pk len e have l: "0 \<le> l" "len = l + 1" "bs = of_nat (length xs) # b" "length xs < 256" "1 \<le> room"
    by (auto simp: be_pack_list_def split: if_splits)
  with be_elems_ok [OF ok e l(1), of rest]
  show "len = int (length bs) \<and> len \<le> room \<and> be_unpack_list un (bs @ rest) = (len, xs)"
    by (simp add: be_unpack_list_def unat_of_nat)
qed

lemma short_prefix: "(p :: u64) < 65536 \<Longrightarrow> (ucast (ucast p :: u16) :: u64) = p"
proof -
  assume "p < 65536"
  then have "take_bit 16 p = p"
    by (simp add: take_bit_eq_mod word_mod_less_divisor mod_word_less)
  then have "bit p n \<Longrightarrow> n < 16" for n
    by (metis bit_take_bit_iff)
  then show ?thesis
    by (intro bit_word_eqI) (auto simp: bit_simps)
qed

lemma length_pack_be64: "length (pack_be64 v) = 8"
  by (simp add: pack_be64_def)

lemma unpack_pack_be64: "unpack_be64 (pack_be64 v @ rest) = v"
proof -
  have "unpack_be32 (pack_be32 a @ pack_be32 b @ rest) 0 = a" "unpack_be32 (pack_be32 a @ pack_be32 b @ rest) 4 = b" for a b
    using unpack_pack_be32 [where pre = "[]" and v = a and post = "pack_be32 b @ rest"]
      unpack_pack_be32 [where pre = "pack_be32 a" and v = b and post = rest] by simp_all
  then show ?thesis
    by (simp add: unpack_be64_def pack_be64_def) (rule bit_word_eqI, auto simp: bit_simps)
qed

lemma be_zds_laws: "zds_laws be_zds"
proof -
  have str: "prim_ok (fixed_pack (\<lambda>c. [of_nat (of_char c)]) 1 (\<lambda>_. True))
      (fixed_unpack (\<lambda>b. char_of (unat (hd b :: byte))) 1 (CHR 0x00))"
    by (rule fixed_prim_ok) (simp_all add: unat_of_nat)
  have "prim_ok (z_pack_u8 be_zds) (z_unpack_u8 be_zds)" "prim_ok (z_pack_u16 be_zds) (z_unpack_u16 be_zds)"
    "prim_ok (z_pack_u32 be_zds) (z_unpack_u32 be_zds)" "prim_ok (z_pack_u64 be_zds) (z_unpack_u64 be_zds)"
    "prim_ok (z_pack_f64 be_zds) (z_unpack_f64 be_zds)" "prim_ok (z_pack_i32 be_zds) (z_unpack_i32 be_zds)"
    "prim_ok (\<lambda>r p. z_pack_struct_header be_zds r p hp) (\<lambda>b. z_unpack_struct_header be_zds b hp)" for hp
    using unpack_pack_be16 [of "[]" 0] unpack_pack_be32 [of "[]" 0] short_prefix
    by (auto simp: be_zds_def unpack_pack_be64 length_pack_be64 signed_take_bit_int_eq_self sint_sbintrunc' intro!: fixed_prim_ok)
  moreover have "prim_ok (z_pack_str be_zds) (z_unpack_str be_zds)"
    using be_list_ok [OF str] by (simp add: be_zds_def)
  ultimately show ?thesis
    unfolding zds_laws_def by (simp add: be_zds_def be_list_ok split: option.split)
qed

definition sample_hello :: FgwHello where
  "sample_hello = \<lparr>hello_proto_version = 2, hello_role = 1, hello_ingress_id = 7, hello_outport_id = 0,
     hello_channel_id = 3, hello_generation = 0x12345678\<rparr>"

end
