(* ===== verification/Fgw_Structs.thy ===== *)
theory Fgw_Structs
  imports Fgw_Pack
begin

text \<open>
  The other generated structs of \<^verbatim>\<open>src/src/zfgw_pack.cpp\<close>: the configuration, which is stored in a file and
  sent by \<^verbatim>\<open>mlfSetConfig\<close>, and the requests and replies of the RPC interface. Every writer and reader has
  the shape of \<open>Fgw_Pack\<close>; a member that is itself a struct is read into the member that is there.
\<close>

section \<open>Members that are structs\<close>

definition FgwLinkQuality_init :: FgwLinkQuality where
  "FgwLinkQuality_init = \<lparr>flq_channel_id = 0, flq_connected = 0, flq_rtt_ms = 0, flq_loss_rate = 0, flq_bytes_sent = 0,
     flq_bytes_recv = 0, flq_send_segments = 0, flq_recv_segments = 0, flq_rexmit_segments = 0\<rparr>"

definition FgwSessionStat_init :: FgwSessionStat where
  "FgwSessionStat_init = \<lparr>ss_session_id = 0, ss_ingress_id = 0, ss_client_addr = [], ss_target_addr = [],
     ss_bytes_sent = 0, ss_bytes_recv = 0, ss_open_timestamp = 0\<rparr>"

text \<open>The length a reader reports does not depend on what its target held before.\<close>

definition rd_struct ::
  "('v \<Rightarrow> bytes \<Rightarrow> int \<times> 'v) \<Rightarrow> 'v \<Rightarrow> ('t \<Rightarrow> 'v) \<Rightarrow> ('v \<Rightarrow> 't \<Rightarrow> 't) \<Rightarrow> bytes \<Rightarrow> int \<times> ('t \<Rightarrow> 't)" where
  "rd_struct un dflt get assign buf = (fst (un dflt buf), \<lambda>t. assign (snd (un (get t) buf)) t)"

lemma prim_okI:
  "(\<And>room v len bs rest. pk (Some room) v = (len, bs) \<Longrightarrow> 0 \<le> len \<Longrightarrow>
      len = int (length bs) \<and> len \<le> room \<and> un (bs @ rest) = (len, v)) \<Longrightarrow> prim_ok pk un"
  unfolding prim_ok_def by blast

lemma member_okI_struct:
  assumes "\<And>e. prim_ok pk (un e)" and "\<not> present \<Longrightarrow> v = dflt"
  shows "member_ok (present, \<lambda>r. pk r v) (present, rd_struct un init get upd, upd dflt) (upd v)"
  using assms by (auto simp: member_ok_def prim_ok_def rd_struct_def)

lemma struct_roundtrip_zip:
  assumes "zds_laws z" and "length assigns = length (umf p)"
    and "list_all2 (\<lambda>pm (um, assign). member_ok pm um assign) (pms p) (zip (umf p) assigns)"
    and "drop_bit (length (umf p)) p = 0"
    and "pack_struct z (Some room) p hp pms = (ret, out)" and "0 \<le> ret"
  shows "ret = int (length out) \<and> ret \<le> room \<and>
    unpack_struct z t (out @ rest) hp umf = (ret, foldl (\<lambda>t f. f t) t assigns)"
  using struct_roundtrip [OF assms(1,3) _ _ assms(5,6), of umf t rest] assms(2,4) by simp

lemma bit_prefix: "length bs \<le> 64 \<Longrightarrow> has_bit (struct_prefix bs) i \<longleftrightarrow> i < length bs \<and> bs ! i"
  by (simp add: has_bit_iff bit_struct_prefix)

text \<open>A writer and a reader whose members fit are a codec.\<close>

lemma codec_okI:
  assumes "zds_laws z" and "\<And>t. length (bs t) \<le> 64" and "\<And>t p. length (umf p) = length (bs t)"
    and "\<And>t. length (assigns t) = length (bs t)" and "\<And>t t0. foldl (\<lambda>t f. f t) t0 (assigns t) = t"
    and "\<And>t. list_all2 (\<lambda>pm (um, assign). member_ok pm um assign) (pms t (struct_prefix (bs t)))
      (zip (umf (struct_prefix (bs t))) (assigns t))"
  shows "prim_ok (\<lambda>r t. pack_struct z r (struct_prefix (bs t)) hp (pms t)) (\<lambda>b. unpack_struct z t0 b hp umf)"
proof (rule prim_okI)
  fix room t ret out rest
  assume "pack_struct z (Some room) (struct_prefix (bs t)) hp (pms t) = (ret, out)" "0 \<le> ret"
  moreover have "length (assigns t) = length (umf (struct_prefix (bs t)))"
    by (simp only: assms(4) assms(3) [of "struct_prefix (bs t)" t])
  moreover have "drop_bit (length (umf (struct_prefix (bs t)))) (struct_prefix (bs t)) = 0"
    by (simp only: assms(3) [of "struct_prefix (bs t)" t] drop_struct_prefix [OF assms(2)])
  ultimately show "ret = int (length out) \<and> ret \<le> room \<and> unpack_struct z t0 (out @ rest) hp umf = (ret, t)"
    using struct_roundtrip_zip [where assigns = "assigns t" and umf = umf and pms = "pms t"
      and p = "struct_prefix (bs t)" and t = t0, OF assms(1) _ assms(6)]
    by (simp only: assms(5) simp_thms)
qed

lemmas member_intros = member_okI [OF zds_laws_prims(1)] member_okI [OF zds_laws_prims(2)] member_okI [OF zds_laws_prims(3)]
  member_okI [OF zds_laws_prims(4)] member_okI [OF zds_laws_prims(5)] member_okI [OF zds_laws_prims(6)]
  member_okI [OF zds_laws_prims(7)]

section \<open>FgwEndpoint\<close>

definition endpoint_prefix :: "zds \<Rightarrow> FgwEndpoint \<Rightarrow> u64" where
  "endpoint_prefix z t = struct_prefix
     [\<not> z_empty_str z (ep_host t),
      \<not> z_empty_u16 z (ep_port t)]"

definition zds_pack_FgwEndpoint :: "zds \<Rightarrow> zroom \<Rightarrow> FgwEndpoint \<Rightarrow> bool \<Rightarrow> int \<times> bytes" where
  "zds_pack_FgwEndpoint z room t has_prefix =
     pack_struct z room (endpoint_prefix z t) has_prefix (\<lambda>p.
       [(has_bit p 0, \<lambda>r. z_pack_str z r (ep_host t)),
        (has_bit p 1, \<lambda>r. z_pack_u16 z r (ep_port t))])"

definition zds_unpack_FgwEndpoint :: "zds \<Rightarrow> FgwEndpoint \<Rightarrow> bytes \<Rightarrow> bool \<Rightarrow> int \<times> FgwEndpoint" where
  "zds_unpack_FgwEndpoint z t buf has_prefix =
     unpack_struct z t buf has_prefix (\<lambda>p.
       [(has_bit p 0, rd (z_unpack_str z) (\<lambda>v t. t\<lparr>ep_host := v\<rparr>),
          \<lambda>t. t\<lparr>ep_host := []\<rparr>),
        (has_bit p 1, rd (z_unpack_u16 z) (\<lambda>v t. t\<lparr>ep_port := v\<rparr>),
          \<lambda>t. t\<lparr>ep_port := 0\<rparr>)])"

lemma endpoint_prim:
  assumes laws: "zds_laws z"
  shows "prim_ok (\<lambda>r t. zds_pack_FgwEndpoint z r t hp) (\<lambda>b. zds_unpack_FgwEndpoint z t0 b hp)"
  unfolding zds_pack_FgwEndpoint_def zds_unpack_FgwEndpoint_def endpoint_prefix_def
  by (rule codec_okI [OF laws, where assigns = "\<lambda>t. [\<lambda>s. s\<lparr>ep_host := ep_host t\<rparr>,
      \<lambda>s. s\<lparr>ep_port := ep_port t\<rparr>]"])
    (auto simp: bit_prefix zds_laws_empty [OF laws] intro!: member_intros [OF laws])

section \<open>FgwChannelConfig\<close>

definition channel_config_prefix :: "zds \<Rightarrow> FgwChannelConfig \<Rightarrow> u64" where
  "channel_config_prefix z t = struct_prefix
     [\<not> z_empty_u32 z (cc_channel_id t),
      \<not> z_empty_u8 z (cc_kind t),
      \<not> z_empty_endpoint z (cc_remote t),
      \<not> z_empty_u32 z (cc_priority t)]"

definition zds_pack_FgwChannelConfig :: "zds \<Rightarrow> zroom \<Rightarrow> FgwChannelConfig \<Rightarrow> bool \<Rightarrow> int \<times> bytes" where
  "zds_pack_FgwChannelConfig z room t has_prefix =
     pack_struct z room (channel_config_prefix z t) has_prefix (\<lambda>p.
       [(has_bit p 0, \<lambda>r. z_pack_u32 z r (cc_channel_id t)),
        (has_bit p 1, \<lambda>r. z_pack_u8 z r (cc_kind t)),
        (has_bit p 2, \<lambda>r. zds_pack_FgwEndpoint z r (cc_remote t) True),
        (has_bit p 3, \<lambda>r. z_pack_u32 z r (cc_priority t))])"

definition zds_unpack_FgwChannelConfig :: "zds \<Rightarrow> FgwChannelConfig \<Rightarrow> bytes \<Rightarrow> bool \<Rightarrow> int \<times> FgwChannelConfig" where
  "zds_unpack_FgwChannelConfig z t buf has_prefix =
     unpack_struct z t buf has_prefix (\<lambda>p.
       [(has_bit p 0, rd (z_unpack_u32 z) (\<lambda>v t. t\<lparr>cc_channel_id := v\<rparr>),
          \<lambda>t. t\<lparr>cc_channel_id := 0\<rparr>),
        (has_bit p 1, rd (z_unpack_u8 z) (\<lambda>v t. t\<lparr>cc_kind := v\<rparr>),
          \<lambda>t. t\<lparr>cc_kind := 0\<rparr>),
        (has_bit p 2, rd_struct (\<lambda>e b. zds_unpack_FgwEndpoint z e b True) FgwEndpoint_init cc_remote (\<lambda>v t. t\<lparr>cc_remote := v\<rparr>),
          \<lambda>t. t\<lparr>cc_remote := FgwEndpoint_init\<rparr>),
        (has_bit p 3, rd (z_unpack_u32 z) (\<lambda>v t. t\<lparr>cc_priority := v\<rparr>),
          \<lambda>t. t\<lparr>cc_priority := 0\<rparr>)])"

lemma channel_config_prim:
  assumes laws: "zds_laws z"
  shows "prim_ok (\<lambda>r t. zds_pack_FgwChannelConfig z r t hp) (\<lambda>b. zds_unpack_FgwChannelConfig z t0 b hp)"
  unfolding zds_pack_FgwChannelConfig_def zds_unpack_FgwChannelConfig_def channel_config_prefix_def
  by (rule codec_okI [OF laws, where assigns = "\<lambda>t. [\<lambda>s. s\<lparr>cc_channel_id := cc_channel_id t\<rparr>,
      \<lambda>s. s\<lparr>cc_kind := cc_kind t\<rparr>,
      \<lambda>s. s\<lparr>cc_remote := cc_remote t\<rparr>,
      \<lambda>s. s\<lparr>cc_priority := cc_priority t\<rparr>]"])
    (auto simp: bit_prefix zds_laws_empty [OF laws] intro!: member_intros [OF laws]
        member_okI_struct [OF endpoint_prim [OF laws]])

section \<open>FgwConfig\<close>

definition config_prefix :: "zds \<Rightarrow> FgwConfig \<Rightarrow> u64" where
  "config_prefix z t = struct_prefix
     [\<not> z_empty_u8 z (cfg_role t),
      \<not> z_empty_u32 z (cfg_ingress_id t),
      \<not> z_empty_u16 z (cfg_inport_listen_port t),
      \<not> z_empty_str z (cfg_outport_listen_host t),
      \<not> z_empty_u16 z (cfg_outport_listen_port t),
      cfg_channels t \<noteq> [],
      \<not> z_empty_u16 z (cfg_segment_size t),
      \<not> z_empty_u16 z (cfg_recv_window t),
      \<not> z_empty_u16 z (cfg_heartbeat_interval t),
      \<not> z_empty_u16 z (cfg_link_timeout t),
      \<not> z_empty_u16 z (cfg_reconnect_max t),
      \<not> z_empty_u8 z (cfg_multipath_mode t),
      \<not> z_empty_u8 z (cfg_enable_crc t),
      \<not> z_empty_u32 z (cfg_route_outport_id t),
      \<not> z_empty_u32 z (cfg_config_version t)]"

definition zds_pack_FgwConfig :: "zds \<Rightarrow> zroom \<Rightarrow> FgwConfig \<Rightarrow> bool \<Rightarrow> int \<times> bytes" where
  "zds_pack_FgwConfig z room t has_prefix =
     pack_struct z room (config_prefix z t) has_prefix (\<lambda>p.
       [(has_bit p 0, \<lambda>r. z_pack_u8 z r (cfg_role t)),
        (has_bit p 1, \<lambda>r. z_pack_u32 z r (cfg_ingress_id t)),
        (has_bit p 2, \<lambda>r. z_pack_u16 z r (cfg_inport_listen_port t)),
        (has_bit p 3, \<lambda>r. z_pack_str z r (cfg_outport_listen_host t)),
        (has_bit p 4, \<lambda>r. z_pack_u16 z r (cfg_outport_listen_port t)),
        (has_bit p 5, \<lambda>r. z_pack_channels z (\<lambda>r e. zds_pack_FgwChannelConfig z r e True) r (cfg_channels t)),
        (has_bit p 6, \<lambda>r. z_pack_u16 z r (cfg_segment_size t)),
        (has_bit p 7, \<lambda>r. z_pack_u16 z r (cfg_recv_window t)),
        (has_bit p 8, \<lambda>r. z_pack_u16 z r (cfg_heartbeat_interval t)),
        (has_bit p 9, \<lambda>r. z_pack_u16 z r (cfg_link_timeout t)),
        (has_bit p 10, \<lambda>r. z_pack_u16 z r (cfg_reconnect_max t)),
        (has_bit p 11, \<lambda>r. z_pack_u8 z r (cfg_multipath_mode t)),
        (has_bit p 12, \<lambda>r. z_pack_u8 z r (cfg_enable_crc t)),
        (has_bit p 13, \<lambda>r. z_pack_u32 z r (cfg_route_outport_id t)),
        (has_bit p 14, \<lambda>r. z_pack_u32 z r (cfg_config_version t))])"

definition zds_unpack_FgwConfig :: "zds \<Rightarrow> FgwConfig \<Rightarrow> bytes \<Rightarrow> bool \<Rightarrow> int \<times> FgwConfig" where
  "zds_unpack_FgwConfig z t buf has_prefix =
     unpack_struct z t buf has_prefix (\<lambda>p.
       [(has_bit p 0, rd (z_unpack_u8 z) (\<lambda>v t. t\<lparr>cfg_role := v\<rparr>),
          \<lambda>t. t\<lparr>cfg_role := 0\<rparr>),
        (has_bit p 1, rd (z_unpack_u32 z) (\<lambda>v t. t\<lparr>cfg_ingress_id := v\<rparr>),
          \<lambda>t. t\<lparr>cfg_ingress_id := 0\<rparr>),
        (has_bit p 2, rd (z_unpack_u16 z) (\<lambda>v t. t\<lparr>cfg_inport_listen_port := v\<rparr>),
          \<lambda>t. t\<lparr>cfg_inport_listen_port := 0\<rparr>),
        (has_bit p 3, rd (z_unpack_str z) (\<lambda>v t. t\<lparr>cfg_outport_listen_host := v\<rparr>),
          \<lambda>t. t\<lparr>cfg_outport_listen_host := []\<rparr>),
        (has_bit p 4, rd (z_unpack_u16 z) (\<lambda>v t. t\<lparr>cfg_outport_listen_port := v\<rparr>),
          \<lambda>t. t\<lparr>cfg_outport_listen_port := 0\<rparr>),
        (has_bit p 5, rd (z_unpack_channels z (\<lambda>b. zds_unpack_FgwChannelConfig z FgwChannelConfig_init b True)) (\<lambda>v t. t\<lparr>cfg_channels := v\<rparr>),
          \<lambda>t. t\<lparr>cfg_channels := []\<rparr>),
        (has_bit p 6, rd (z_unpack_u16 z) (\<lambda>v t. t\<lparr>cfg_segment_size := v\<rparr>),
          \<lambda>t. t\<lparr>cfg_segment_size := 0\<rparr>),
        (has_bit p 7, rd (z_unpack_u16 z) (\<lambda>v t. t\<lparr>cfg_recv_window := v\<rparr>),
          \<lambda>t. t\<lparr>cfg_recv_window := 0\<rparr>),
        (has_bit p 8, rd (z_unpack_u16 z) (\<lambda>v t. t\<lparr>cfg_heartbeat_interval := v\<rparr>),
          \<lambda>t. t\<lparr>cfg_heartbeat_interval := 0\<rparr>),
        (has_bit p 9, rd (z_unpack_u16 z) (\<lambda>v t. t\<lparr>cfg_link_timeout := v\<rparr>),
          \<lambda>t. t\<lparr>cfg_link_timeout := 0\<rparr>),
        (has_bit p 10, rd (z_unpack_u16 z) (\<lambda>v t. t\<lparr>cfg_reconnect_max := v\<rparr>),
          \<lambda>t. t\<lparr>cfg_reconnect_max := 0\<rparr>),
        (has_bit p 11, rd (z_unpack_u8 z) (\<lambda>v t. t\<lparr>cfg_multipath_mode := v\<rparr>),
          \<lambda>t. t\<lparr>cfg_multipath_mode := 0\<rparr>),
        (has_bit p 12, rd (z_unpack_u8 z) (\<lambda>v t. t\<lparr>cfg_enable_crc := v\<rparr>),
          \<lambda>t. t\<lparr>cfg_enable_crc := 0\<rparr>),
        (has_bit p 13, rd (z_unpack_u32 z) (\<lambda>v t. t\<lparr>cfg_route_outport_id := v\<rparr>),
          \<lambda>t. t\<lparr>cfg_route_outport_id := 0\<rparr>),
        (has_bit p 14, rd (z_unpack_u32 z) (\<lambda>v t. t\<lparr>cfg_config_version := v\<rparr>),
          \<lambda>t. t\<lparr>cfg_config_version := 0\<rparr>)])"

lemma config_prim:
  assumes laws: "zds_laws z"
  shows "prim_ok (\<lambda>r t. zds_pack_FgwConfig z r t hp) (\<lambda>b. zds_unpack_FgwConfig z t0 b hp)"
  unfolding zds_pack_FgwConfig_def zds_unpack_FgwConfig_def config_prefix_def
  by (rule codec_okI [OF laws, where assigns = "\<lambda>t. [\<lambda>s. s\<lparr>cfg_role := cfg_role t\<rparr>,
      \<lambda>s. s\<lparr>cfg_ingress_id := cfg_ingress_id t\<rparr>,
      \<lambda>s. s\<lparr>cfg_inport_listen_port := cfg_inport_listen_port t\<rparr>,
      \<lambda>s. s\<lparr>cfg_outport_listen_host := cfg_outport_listen_host t\<rparr>,
      \<lambda>s. s\<lparr>cfg_outport_listen_port := cfg_outport_listen_port t\<rparr>,
      \<lambda>s. s\<lparr>cfg_channels := cfg_channels t\<rparr>,
      \<lambda>s. s\<lparr>cfg_segment_size := cfg_segment_size t\<rparr>,
      \<lambda>s. s\<lparr>cfg_recv_window := cfg_recv_window t\<rparr>,
      \<lambda>s. s\<lparr>cfg_heartbeat_interval := cfg_heartbeat_interval t\<rparr>,
      \<lambda>s. s\<lparr>cfg_link_timeout := cfg_link_timeout t\<rparr>,
      \<lambda>s. s\<lparr>cfg_reconnect_max := cfg_reconnect_max t\<rparr>,
      \<lambda>s. s\<lparr>cfg_multipath_mode := cfg_multipath_mode t\<rparr>,
      \<lambda>s. s\<lparr>cfg_enable_crc := cfg_enable_crc t\<rparr>,
      \<lambda>s. s\<lparr>cfg_route_outport_id := cfg_route_outport_id t\<rparr>,
      \<lambda>s. s\<lparr>cfg_config_version := cfg_config_version t\<rparr>]"])
    (auto simp: bit_prefix zds_laws_empty [OF laws] intro!: member_intros [OF laws]
        member_okI [OF zds_laws_prims(8) [OF laws channel_config_prim [OF laws]]])

section \<open>FgwLinkQuality\<close>

definition link_quality_prefix :: "zds \<Rightarrow> FgwLinkQuality \<Rightarrow> u64" where
  "link_quality_prefix z t = struct_prefix
     [\<not> z_empty_u32 z (flq_channel_id t),
      \<not> z_empty_u8 z (flq_connected t),
      \<not> z_empty_u32 z (flq_rtt_ms t),
      \<not> z_empty_f64 z (flq_loss_rate t),
      \<not> z_empty_u64 z (flq_bytes_sent t),
      \<not> z_empty_u64 z (flq_bytes_recv t),
      \<not> z_empty_u32 z (flq_send_segments t),
      \<not> z_empty_u32 z (flq_recv_segments t),
      \<not> z_empty_u32 z (flq_rexmit_segments t)]"

definition zds_pack_FgwLinkQuality :: "zds \<Rightarrow> zroom \<Rightarrow> FgwLinkQuality \<Rightarrow> bool \<Rightarrow> int \<times> bytes" where
  "zds_pack_FgwLinkQuality z room t has_prefix =
     pack_struct z room (link_quality_prefix z t) has_prefix (\<lambda>p.
       [(has_bit p 0, \<lambda>r. z_pack_u32 z r (flq_channel_id t)),
        (has_bit p 1, \<lambda>r. z_pack_u8 z r (flq_connected t)),
        (has_bit p 2, \<lambda>r. z_pack_u32 z r (flq_rtt_ms t)),
        (has_bit p 3, \<lambda>r. z_pack_f64 z r (flq_loss_rate t)),
        (has_bit p 4, \<lambda>r. z_pack_u64 z r (flq_bytes_sent t)),
        (has_bit p 5, \<lambda>r. z_pack_u64 z r (flq_bytes_recv t)),
        (has_bit p 6, \<lambda>r. z_pack_u32 z r (flq_send_segments t)),
        (has_bit p 7, \<lambda>r. z_pack_u32 z r (flq_recv_segments t)),
        (has_bit p 8, \<lambda>r. z_pack_u32 z r (flq_rexmit_segments t))])"

definition zds_unpack_FgwLinkQuality :: "zds \<Rightarrow> FgwLinkQuality \<Rightarrow> bytes \<Rightarrow> bool \<Rightarrow> int \<times> FgwLinkQuality" where
  "zds_unpack_FgwLinkQuality z t buf has_prefix =
     unpack_struct z t buf has_prefix (\<lambda>p.
       [(has_bit p 0, rd (z_unpack_u32 z) (\<lambda>v t. t\<lparr>flq_channel_id := v\<rparr>),
          \<lambda>t. t\<lparr>flq_channel_id := 0\<rparr>),
        (has_bit p 1, rd (z_unpack_u8 z) (\<lambda>v t. t\<lparr>flq_connected := v\<rparr>),
          \<lambda>t. t\<lparr>flq_connected := 0\<rparr>),
        (has_bit p 2, rd (z_unpack_u32 z) (\<lambda>v t. t\<lparr>flq_rtt_ms := v\<rparr>),
          \<lambda>t. t\<lparr>flq_rtt_ms := 0\<rparr>),
        (has_bit p 3, rd (z_unpack_f64 z) (\<lambda>v t. t\<lparr>flq_loss_rate := v\<rparr>),
          \<lambda>t. t\<lparr>flq_loss_rate := 0\<rparr>),
        (has_bit p 4, rd (z_unpack_u64 z) (\<lambda>v t. t\<lparr>flq_bytes_sent := v\<rparr>),
          \<lambda>t. t\<lparr>flq_bytes_sent := 0\<rparr>),
        (has_bit p 5, rd (z_unpack_u64 z) (\<lambda>v t. t\<lparr>flq_bytes_recv := v\<rparr>),
          \<lambda>t. t\<lparr>flq_bytes_recv := 0\<rparr>),
        (has_bit p 6, rd (z_unpack_u32 z) (\<lambda>v t. t\<lparr>flq_send_segments := v\<rparr>),
          \<lambda>t. t\<lparr>flq_send_segments := 0\<rparr>),
        (has_bit p 7, rd (z_unpack_u32 z) (\<lambda>v t. t\<lparr>flq_recv_segments := v\<rparr>),
          \<lambda>t. t\<lparr>flq_recv_segments := 0\<rparr>),
        (has_bit p 8, rd (z_unpack_u32 z) (\<lambda>v t. t\<lparr>flq_rexmit_segments := v\<rparr>),
          \<lambda>t. t\<lparr>flq_rexmit_segments := 0\<rparr>)])"

lemma link_quality_prim:
  assumes laws: "zds_laws z"
  shows "prim_ok (\<lambda>r t. zds_pack_FgwLinkQuality z r t hp) (\<lambda>b. zds_unpack_FgwLinkQuality z t0 b hp)"
  unfolding zds_pack_FgwLinkQuality_def zds_unpack_FgwLinkQuality_def link_quality_prefix_def
  by (rule codec_okI [OF laws, where assigns = "\<lambda>t. [\<lambda>s. s\<lparr>flq_channel_id := flq_channel_id t\<rparr>,
      \<lambda>s. s\<lparr>flq_connected := flq_connected t\<rparr>,
      \<lambda>s. s\<lparr>flq_rtt_ms := flq_rtt_ms t\<rparr>,
      \<lambda>s. s\<lparr>flq_loss_rate := flq_loss_rate t\<rparr>,
      \<lambda>s. s\<lparr>flq_bytes_sent := flq_bytes_sent t\<rparr>,
      \<lambda>s. s\<lparr>flq_bytes_recv := flq_bytes_recv t\<rparr>,
      \<lambda>s. s\<lparr>flq_send_segments := flq_send_segments t\<rparr>,
      \<lambda>s. s\<lparr>flq_recv_segments := flq_recv_segments t\<rparr>,
      \<lambda>s. s\<lparr>flq_rexmit_segments := flq_rexmit_segments t\<rparr>]"])
    (auto simp: bit_prefix zds_laws_empty [OF laws] intro!: member_intros [OF laws])

section \<open>FgwSessionStat\<close>

definition session_stat_prefix :: "zds \<Rightarrow> FgwSessionStat \<Rightarrow> u64" where
  "session_stat_prefix z t = struct_prefix
     [\<not> z_empty_u32 z (ss_session_id t),
      \<not> z_empty_u32 z (ss_ingress_id t),
      \<not> z_empty_str z (ss_client_addr t),
      \<not> z_empty_str z (ss_target_addr t),
      \<not> z_empty_u64 z (ss_bytes_sent t),
      \<not> z_empty_u64 z (ss_bytes_recv t),
      \<not> z_empty_u32 z (ss_open_timestamp t)]"

definition zds_pack_FgwSessionStat :: "zds \<Rightarrow> zroom \<Rightarrow> FgwSessionStat \<Rightarrow> bool \<Rightarrow> int \<times> bytes" where
  "zds_pack_FgwSessionStat z room t has_prefix =
     pack_struct z room (session_stat_prefix z t) has_prefix (\<lambda>p.
       [(has_bit p 0, \<lambda>r. z_pack_u32 z r (ss_session_id t)),
        (has_bit p 1, \<lambda>r. z_pack_u32 z r (ss_ingress_id t)),
        (has_bit p 2, \<lambda>r. z_pack_str z r (ss_client_addr t)),
        (has_bit p 3, \<lambda>r. z_pack_str z r (ss_target_addr t)),
        (has_bit p 4, \<lambda>r. z_pack_u64 z r (ss_bytes_sent t)),
        (has_bit p 5, \<lambda>r. z_pack_u64 z r (ss_bytes_recv t)),
        (has_bit p 6, \<lambda>r. z_pack_u32 z r (ss_open_timestamp t))])"

definition zds_unpack_FgwSessionStat :: "zds \<Rightarrow> FgwSessionStat \<Rightarrow> bytes \<Rightarrow> bool \<Rightarrow> int \<times> FgwSessionStat" where
  "zds_unpack_FgwSessionStat z t buf has_prefix =
     unpack_struct z t buf has_prefix (\<lambda>p.
       [(has_bit p 0, rd (z_unpack_u32 z) (\<lambda>v t. t\<lparr>ss_session_id := v\<rparr>),
          \<lambda>t. t\<lparr>ss_session_id := 0\<rparr>),
        (has_bit p 1, rd (z_unpack_u32 z) (\<lambda>v t. t\<lparr>ss_ingress_id := v\<rparr>),
          \<lambda>t. t\<lparr>ss_ingress_id := 0\<rparr>),
        (has_bit p 2, rd (z_unpack_str z) (\<lambda>v t. t\<lparr>ss_client_addr := v\<rparr>),
          \<lambda>t. t\<lparr>ss_client_addr := []\<rparr>),
        (has_bit p 3, rd (z_unpack_str z) (\<lambda>v t. t\<lparr>ss_target_addr := v\<rparr>),
          \<lambda>t. t\<lparr>ss_target_addr := []\<rparr>),
        (has_bit p 4, rd (z_unpack_u64 z) (\<lambda>v t. t\<lparr>ss_bytes_sent := v\<rparr>),
          \<lambda>t. t\<lparr>ss_bytes_sent := 0\<rparr>),
        (has_bit p 5, rd (z_unpack_u64 z) (\<lambda>v t. t\<lparr>ss_bytes_recv := v\<rparr>),
          \<lambda>t. t\<lparr>ss_bytes_recv := 0\<rparr>),
        (has_bit p 6, rd (z_unpack_u32 z) (\<lambda>v t. t\<lparr>ss_open_timestamp := v\<rparr>),
          \<lambda>t. t\<lparr>ss_open_timestamp := 0\<rparr>)])"

lemma session_stat_prim:
  assumes laws: "zds_laws z"
  shows "prim_ok (\<lambda>r t. zds_pack_FgwSessionStat z r t hp) (\<lambda>b. zds_unpack_FgwSessionStat z t0 b hp)"
  unfolding zds_pack_FgwSessionStat_def zds_unpack_FgwSessionStat_def session_stat_prefix_def
  by (rule codec_okI [OF laws, where assigns = "\<lambda>t. [\<lambda>s. s\<lparr>ss_session_id := ss_session_id t\<rparr>,
      \<lambda>s. s\<lparr>ss_ingress_id := ss_ingress_id t\<rparr>,
      \<lambda>s. s\<lparr>ss_client_addr := ss_client_addr t\<rparr>,
      \<lambda>s. s\<lparr>ss_target_addr := ss_target_addr t\<rparr>,
      \<lambda>s. s\<lparr>ss_bytes_sent := ss_bytes_sent t\<rparr>,
      \<lambda>s. s\<lparr>ss_bytes_recv := ss_bytes_recv t\<rparr>,
      \<lambda>s. s\<lparr>ss_open_timestamp := ss_open_timestamp t\<rparr>]"])
    (auto simp: bit_prefix zds_laws_empty [OF laws] intro!: member_intros [OF laws])

section \<open>FgwStatus\<close>

definition status_prefix :: "zds \<Rightarrow> FgwStatus \<Rightarrow> u64" where
  "status_prefix z t = struct_prefix
     [\<not> z_empty_u8 z (fst_running t),
      \<not> z_empty_u8 z (fst_role t),
      \<not> z_empty_u32 z (fst_session_count t),
      fst_links t \<noteq> [],
      fst_sessions t \<noteq> []]"

definition zds_pack_FgwStatus :: "zds \<Rightarrow> zroom \<Rightarrow> FgwStatus \<Rightarrow> bool \<Rightarrow> int \<times> bytes" where
  "zds_pack_FgwStatus z room t has_prefix =
     pack_struct z room (status_prefix z t) has_prefix (\<lambda>p.
       [(has_bit p 0, \<lambda>r. z_pack_u8 z r (fst_running t)),
        (has_bit p 1, \<lambda>r. z_pack_u8 z r (fst_role t)),
        (has_bit p 2, \<lambda>r. z_pack_u32 z r (fst_session_count t)),
        (has_bit p 3, \<lambda>r. z_pack_links z (\<lambda>r e. zds_pack_FgwLinkQuality z r e True) r (fst_links t)),
        (has_bit p 4, \<lambda>r. z_pack_sessions z (\<lambda>r e. zds_pack_FgwSessionStat z r e True) r (fst_sessions t))])"

definition zds_unpack_FgwStatus :: "zds \<Rightarrow> FgwStatus \<Rightarrow> bytes \<Rightarrow> bool \<Rightarrow> int \<times> FgwStatus" where
  "zds_unpack_FgwStatus z t buf has_prefix =
     unpack_struct z t buf has_prefix (\<lambda>p.
       [(has_bit p 0, rd (z_unpack_u8 z) (\<lambda>v t. t\<lparr>fst_running := v\<rparr>),
          \<lambda>t. t\<lparr>fst_running := 0\<rparr>),
        (has_bit p 1, rd (z_unpack_u8 z) (\<lambda>v t. t\<lparr>fst_role := v\<rparr>),
          \<lambda>t. t\<lparr>fst_role := 0\<rparr>),
        (has_bit p 2, rd (z_unpack_u32 z) (\<lambda>v t. t\<lparr>fst_session_count := v\<rparr>),
          \<lambda>t. t\<lparr>fst_session_count := 0\<rparr>),
        (has_bit p 3, rd (z_unpack_links z (\<lambda>b. zds_unpack_FgwLinkQuality z FgwLinkQuality_init b True)) (\<lambda>v t. t\<lparr>fst_links := v\<rparr>),
          \<lambda>t. t\<lparr>fst_links := []\<rparr>),
        (has_bit p 4, rd (z_unpack_sessions z (\<lambda>b. zds_unpack_FgwSessionStat z FgwSessionStat_init b True)) (\<lambda>v t. t\<lparr>fst_sessions := v\<rparr>),
          \<lambda>t. t\<lparr>fst_sessions := []\<rparr>)])"

lemma status_prim:
  assumes laws: "zds_laws z"
  shows "prim_ok (\<lambda>r t. zds_pack_FgwStatus z r t hp) (\<lambda>b. zds_unpack_FgwStatus z t0 b hp)"
  unfolding zds_pack_FgwStatus_def zds_unpack_FgwStatus_def status_prefix_def
  by (rule codec_okI [OF laws, where assigns = "\<lambda>t. [\<lambda>s. s\<lparr>fst_running := fst_running t\<rparr>,
      \<lambda>s. s\<lparr>fst_role := fst_role t\<rparr>,
      \<lambda>s. s\<lparr>fst_session_count := fst_session_count t\<rparr>,
      \<lambda>s. s\<lparr>fst_links := fst_links t\<rparr>,
      \<lambda>s. s\<lparr>fst_sessions := fst_sessions t\<rparr>]"])
    (auto simp: bit_prefix zds_laws_empty [OF laws] intro!: member_intros [OF laws]
        member_okI [OF zds_laws_prims(9) [OF laws link_quality_prim [OF laws]]]
        member_okI [OF zds_laws_prims(10) [OF laws session_stat_prim [OF laws]]])

section \<open>FgwEmpty\<close>

definition empty_request_prefix :: "zds \<Rightarrow> FgwEmpty \<Rightarrow> u64" where
  "empty_request_prefix z t = struct_prefix
     [\<not> z_empty_u8 z (fe_placeholder t)]"

definition zds_pack_FgwEmpty :: "zds \<Rightarrow> zroom \<Rightarrow> FgwEmpty \<Rightarrow> bool \<Rightarrow> int \<times> bytes" where
  "zds_pack_FgwEmpty z room t has_prefix =
     pack_struct z room (empty_request_prefix z t) has_prefix (\<lambda>p.
       [(has_bit p 0, \<lambda>r. z_pack_u8 z r (fe_placeholder t))])"

definition zds_unpack_FgwEmpty :: "zds \<Rightarrow> FgwEmpty \<Rightarrow> bytes \<Rightarrow> bool \<Rightarrow> int \<times> FgwEmpty" where
  "zds_unpack_FgwEmpty z t buf has_prefix =
     unpack_struct z t buf has_prefix (\<lambda>p.
       [(has_bit p 0, rd (z_unpack_u8 z) (\<lambda>v t. t\<lparr>fe_placeholder := v\<rparr>),
          \<lambda>t. t\<lparr>fe_placeholder := 0\<rparr>)])"

lemma empty_request_prim:
  assumes laws: "zds_laws z"
  shows "prim_ok (\<lambda>r t. zds_pack_FgwEmpty z r t hp) (\<lambda>b. zds_unpack_FgwEmpty z t0 b hp)"
  unfolding zds_pack_FgwEmpty_def zds_unpack_FgwEmpty_def empty_request_prefix_def
  by (rule codec_okI [OF laws, where assigns = "\<lambda>t. [\<lambda>s. s\<lparr>fe_placeholder := fe_placeholder t\<rparr>]"])
    (auto simp: bit_prefix zds_laws_empty [OF laws] intro!: member_intros [OF laws])

section \<open>FgwStartRequest\<close>

definition start_request_prefix :: "zds \<Rightarrow> FgwStartRequest \<Rightarrow> u64" where
  "start_request_prefix z t = struct_prefix
     [\<not> z_empty_u8 z (sreq_force_restart t)]"

definition zds_pack_FgwStartRequest :: "zds \<Rightarrow> zroom \<Rightarrow> FgwStartRequest \<Rightarrow> bool \<Rightarrow> int \<times> bytes" where
  "zds_pack_FgwStartRequest z room t has_prefix =
     pack_struct z room (start_request_prefix z t) has_prefix (\<lambda>p.
       [(has_bit p 0, \<lambda>r. z_pack_u8 z r (sreq_force_restart t))])"

definition zds_unpack_FgwStartRequest :: "zds \<Rightarrow> FgwStartRequest \<Rightarrow> bytes \<Rightarrow> bool \<Rightarrow> int \<times> FgwStartRequest" where
  "zds_unpack_FgwStartRequest z t buf has_prefix =
     unpack_struct z t buf has_prefix (\<lambda>p.
       [(has_bit p 0, rd (z_unpack_u8 z) (\<lambda>v t. t\<lparr>sreq_force_restart := v\<rparr>),
          \<lambda>t. t\<lparr>sreq_force_restart := 0\<rparr>)])"

lemma start_request_prim:
  assumes laws: "zds_laws z"
  shows "prim_ok (\<lambda>r t. zds_pack_FgwStartRequest z r t hp) (\<lambda>b. zds_unpack_FgwStartRequest z t0 b hp)"
  unfolding zds_pack_FgwStartRequest_def zds_unpack_FgwStartRequest_def start_request_prefix_def
  by (rule codec_okI [OF laws, where assigns = "\<lambda>t. [\<lambda>s. s\<lparr>sreq_force_restart := sreq_force_restart t\<rparr>]"])
    (auto simp: bit_prefix zds_laws_empty [OF laws] intro!: member_intros [OF laws])

section \<open>FgwStartResult\<close>

definition start_result_prefix :: "zds \<Rightarrow> FgwStartResult \<Rightarrow> u64" where
  "start_result_prefix z t = struct_prefix
     [\<not> z_empty_i32 z (sres_errcode t),
      \<not> z_empty_str z (sres_message t)]"

definition zds_pack_FgwStartResult :: "zds \<Rightarrow> zroom \<Rightarrow> FgwStartResult \<Rightarrow> bool \<Rightarrow> int \<times> bytes" where
  "zds_pack_FgwStartResult z room t has_prefix =
     pack_struct z room (start_result_prefix z t) has_prefix (\<lambda>p.
       [(has_bit p 0, \<lambda>r. z_pack_i32 z r (sres_errcode t)),
        (has_bit p 1, \<lambda>r. z_pack_str z r (sres_message t))])"

definition zds_unpack_FgwStartResult :: "zds \<Rightarrow> FgwStartResult \<Rightarrow> bytes \<Rightarrow> bool \<Rightarrow> int \<times> FgwStartResult" where
  "zds_unpack_FgwStartResult z t buf has_prefix =
     unpack_struct z t buf has_prefix (\<lambda>p.
       [(has_bit p 0, rd (z_unpack_i32 z) (\<lambda>v t. t\<lparr>sres_errcode := v\<rparr>),
          \<lambda>t. t\<lparr>sres_errcode := 0\<rparr>),
        (has_bit p 1, rd (z_unpack_str z) (\<lambda>v t. t\<lparr>sres_message := v\<rparr>),
          \<lambda>t. t\<lparr>sres_message := []\<rparr>)])"

lemma start_result_prim:
  assumes laws: "zds_laws z"
  shows "prim_ok (\<lambda>r t. zds_pack_FgwStartResult z r t hp) (\<lambda>b. zds_unpack_FgwStartResult z t0 b hp)"
  unfolding zds_pack_FgwStartResult_def zds_unpack_FgwStartResult_def start_result_prefix_def
  by (rule codec_okI [OF laws, where assigns = "\<lambda>t. [\<lambda>s. s\<lparr>sres_errcode := sres_errcode t\<rparr>,
      \<lambda>s. s\<lparr>sres_message := sres_message t\<rparr>]"])
    (auto simp: bit_prefix zds_laws_empty [OF laws] intro!: member_intros [OF laws])

section \<open>FgwAddChannelRequest\<close>

definition add_channel_prefix :: "zds \<Rightarrow> FgwAddChannelRequest \<Rightarrow> u64" where
  "add_channel_prefix z t = struct_prefix
     [\<not> z_empty_channel z (areq_channel t)]"

definition zds_pack_FgwAddChannelRequest :: "zds \<Rightarrow> zroom \<Rightarrow> FgwAddChannelRequest \<Rightarrow> bool \<Rightarrow> int \<times> bytes" where
  "zds_pack_FgwAddChannelRequest z room t has_prefix =
     pack_struct z room (add_channel_prefix z t) has_prefix (\<lambda>p.
       [(has_bit p 0, \<lambda>r. zds_pack_FgwChannelConfig z r (areq_channel t) True)])"

definition zds_unpack_FgwAddChannelRequest :: "zds \<Rightarrow> FgwAddChannelRequest \<Rightarrow> bytes \<Rightarrow> bool \<Rightarrow> int \<times> FgwAddChannelRequest" where
  "zds_unpack_FgwAddChannelRequest z t buf has_prefix =
     unpack_struct z t buf has_prefix (\<lambda>p.
       [(has_bit p 0, rd_struct (\<lambda>e b. zds_unpack_FgwChannelConfig z e b True) FgwChannelConfig_init areq_channel (\<lambda>v t. t\<lparr>areq_channel := v\<rparr>),
          \<lambda>t. t\<lparr>areq_channel := FgwChannelConfig_init\<rparr>)])"

lemma add_channel_prim:
  assumes laws: "zds_laws z"
  shows "prim_ok (\<lambda>r t. zds_pack_FgwAddChannelRequest z r t hp) (\<lambda>b. zds_unpack_FgwAddChannelRequest z t0 b hp)"
  unfolding zds_pack_FgwAddChannelRequest_def zds_unpack_FgwAddChannelRequest_def add_channel_prefix_def
  by (rule codec_okI [OF laws, where assigns = "\<lambda>t. [\<lambda>s. s\<lparr>areq_channel := areq_channel t\<rparr>]"])
    (auto simp: bit_prefix zds_laws_empty [OF laws] intro!: member_intros [OF laws]
        member_okI_struct [OF channel_config_prim [OF laws]])

section \<open>FgwRemoveChannelRequest\<close>

definition remove_channel_prefix :: "zds \<Rightarrow> FgwRemoveChannelRequest \<Rightarrow> u64" where
  "remove_channel_prefix z t = struct_prefix
     [\<not> z_empty_u32 z (rreq_channel_id t)]"

definition zds_pack_FgwRemoveChannelRequest :: "zds \<Rightarrow> zroom \<Rightarrow> FgwRemoveChannelRequest \<Rightarrow> bool \<Rightarrow> int \<times> bytes" where
  "zds_pack_FgwRemoveChannelRequest z room t has_prefix =
     pack_struct z room (remove_channel_prefix z t) has_prefix (\<lambda>p.
       [(has_bit p 0, \<lambda>r. z_pack_u32 z r (rreq_channel_id t))])"

definition zds_unpack_FgwRemoveChannelRequest :: "zds \<Rightarrow> FgwRemoveChannelRequest \<Rightarrow> bytes \<Rightarrow> bool \<Rightarrow> int \<times> FgwRemoveChannelRequest" where
  "zds_unpack_FgwRemoveChannelRequest z t buf has_prefix =
     unpack_struct z t buf has_prefix (\<lambda>p.
       [(has_bit p 0, rd (z_unpack_u32 z) (\<lambda>v t. t\<lparr>rreq_channel_id := v\<rparr>),
          \<lambda>t. t\<lparr>rreq_channel_id := 0\<rparr>)])"

lemma remove_channel_prim:
  assumes laws: "zds_laws z"
  shows "prim_ok (\<lambda>r t. zds_pack_FgwRemoveChannelRequest z r t hp) (\<lambda>b. zds_unpack_FgwRemoveChannelRequest z t0 b hp)"
  unfolding zds_pack_FgwRemoveChannelRequest_def zds_unpack_FgwRemoveChannelRequest_def remove_channel_prefix_def
  by (rule codec_okI [OF laws, where assigns = "\<lambda>t. [\<lambda>s. s\<lparr>rreq_channel_id := rreq_channel_id t\<rparr>]"])
    (auto simp: bit_prefix zds_laws_empty [OF laws] intro!: member_intros [OF laws])

section \<open>FgwSetConfigRequest\<close>

definition set_config_prefix :: "zds \<Rightarrow> FgwSetConfigRequest \<Rightarrow> u64" where
  "set_config_prefix z t = struct_prefix
     [\<not> z_empty_config z (creq_config t)]"

definition zds_pack_FgwSetConfigRequest :: "zds \<Rightarrow> zroom \<Rightarrow> FgwSetConfigRequest \<Rightarrow> bool \<Rightarrow> int \<times> bytes" where
  "zds_pack_FgwSetConfigRequest z room t has_prefix =
     pack_struct z room (set_config_prefix z t) has_prefix (\<lambda>p.
       [(has_bit p 0, \<lambda>r. zds_pack_FgwConfig z r (creq_config t) True)])"

definition zds_unpack_FgwSetConfigRequest :: "zds \<Rightarrow> FgwSetConfigRequest \<Rightarrow> bytes \<Rightarrow> bool \<Rightarrow> int \<times> FgwSetConfigRequest" where
  "zds_unpack_FgwSetConfigRequest z t buf has_prefix =
     unpack_struct z t buf has_prefix (\<lambda>p.
       [(has_bit p 0, rd_struct (\<lambda>e b. zds_unpack_FgwConfig z e b True) FgwConfig_init creq_config (\<lambda>v t. t\<lparr>creq_config := v\<rparr>),
          \<lambda>t. t\<lparr>creq_config := FgwConfig_init\<rparr>)])"

lemma set_config_prim:
  assumes laws: "zds_laws z"
  shows "prim_ok (\<lambda>r t. zds_pack_FgwSetConfigRequest z r t hp) (\<lambda>b. zds_unpack_FgwSetConfigRequest z t0 b hp)"
  unfolding zds_pack_FgwSetConfigRequest_def zds_unpack_FgwSetConfigRequest_def set_config_prefix_def
  by (rule codec_okI [OF laws, where assigns = "\<lambda>t. [\<lambda>s. s\<lparr>creq_config := creq_config t\<rparr>]"])
    (auto simp: bit_prefix zds_laws_empty [OF laws] intro!: member_intros [OF laws]
        member_okI_struct [OF config_prim [OF laws]])

section \<open>All of them\<close>

lemma hello_prim:
  assumes laws: "zds_laws z"
  shows "prim_ok (\<lambda>r t. zds_pack_FgwHello z r t hp) (\<lambda>b. zds_unpack_FgwHello z t0 b hp)"
  unfolding zds_pack_FgwHello_def zds_unpack_FgwHello_def hello_prefix_def
  by (rule codec_okI [OF laws, where assigns = "\<lambda>t. [\<lambda>s. s\<lparr>hello_proto_version := hello_proto_version t\<rparr>,
      \<lambda>s. s\<lparr>hello_role := hello_role t\<rparr>,
      \<lambda>s. s\<lparr>hello_ingress_id := hello_ingress_id t\<rparr>,
      \<lambda>s. s\<lparr>hello_outport_id := hello_outport_id t\<rparr>,
      \<lambda>s. s\<lparr>hello_channel_id := hello_channel_id t\<rparr>,
      \<lambda>s. s\<lparr>hello_generation := hello_generation t\<rparr>]"])
    (auto simp: bit_prefix zds_laws_empty [OF laws] intro!: member_intros [OF laws])

lemma feedback_prim:
  assumes laws: "zds_laws z"
  shows "prim_ok (\<lambda>r t. zds_pack_FgwLinkFeedback z r t hp) (\<lambda>b. zds_unpack_FgwLinkFeedback z t0 b hp)"
  unfolding zds_pack_FgwLinkFeedback_def zds_unpack_FgwLinkFeedback_def feedback_prefix_def
  by (rule codec_okI [OF laws, where assigns = "\<lambda>t. [\<lambda>s. s\<lparr>fb_decision_epoch := fb_decision_epoch t\<rparr>,
      \<lambda>s. s\<lparr>fb_recommended_primary := fb_recommended_primary t\<rparr>,
      \<lambda>s. s\<lparr>fb_alive_bitmap := fb_alive_bitmap t\<rparr>,
      \<lambda>s. s\<lparr>fb_highest_seq := fb_highest_seq t\<rparr>]"])
    (auto simp: bit_prefix zds_laws_empty [OF laws] intro!: member_intros [OF laws])

text \<open>C17: For each of the fourteen generated structs: what zds_pack writes has the length it returns, fits the
  buffer, and is read back by zds_unpack as the same struct, whatever follows it and whatever the target held
  before.\<close>

theorem messages_survive_the_wire:
  assumes "zds_laws z"
  shows "prim_ok (\<lambda>r t. zds_pack_FgwHello z r t hp) (\<lambda>b. zds_unpack_FgwHello z h0 b hp) \<and>
    prim_ok (\<lambda>r t. zds_pack_FgwLinkFeedback z r t hp) (\<lambda>b. zds_unpack_FgwLinkFeedback z f0 b hp) \<and>
    prim_ok (\<lambda>r t. zds_pack_FgwEndpoint z r t hp) (\<lambda>b. zds_unpack_FgwEndpoint z e0 b hp) \<and>
    prim_ok (\<lambda>r t. zds_pack_FgwChannelConfig z r t hp) (\<lambda>b. zds_unpack_FgwChannelConfig z c0 b hp) \<and>
    prim_ok (\<lambda>r t. zds_pack_FgwConfig z r t hp) (\<lambda>b. zds_unpack_FgwConfig z g0 b hp) \<and>
    prim_ok (\<lambda>r t. zds_pack_FgwLinkQuality z r t hp) (\<lambda>b. zds_unpack_FgwLinkQuality z q0 b hp) \<and>
    prim_ok (\<lambda>r t. zds_pack_FgwSessionStat z r t hp) (\<lambda>b. zds_unpack_FgwSessionStat z s0 b hp) \<and>
    prim_ok (\<lambda>r t. zds_pack_FgwStatus z r t hp) (\<lambda>b. zds_unpack_FgwStatus z u0 b hp) \<and>
    prim_ok (\<lambda>r t. zds_pack_FgwEmpty z r t hp) (\<lambda>b. zds_unpack_FgwEmpty z y0 b hp) \<and>
    prim_ok (\<lambda>r t. zds_pack_FgwStartRequest z r t hp) (\<lambda>b. zds_unpack_FgwStartRequest z a0 b hp) \<and>
    prim_ok (\<lambda>r t. zds_pack_FgwStartResult z r t hp) (\<lambda>b. zds_unpack_FgwStartResult z r0 b hp) \<and>
    prim_ok (\<lambda>r t. zds_pack_FgwAddChannelRequest z r t hp) (\<lambda>b. zds_unpack_FgwAddChannelRequest z d0 b hp) \<and>
    prim_ok (\<lambda>r t. zds_pack_FgwRemoveChannelRequest z r t hp) (\<lambda>b. zds_unpack_FgwRemoveChannelRequest z m0 b hp) \<and>
    prim_ok (\<lambda>r t. zds_pack_FgwSetConfigRequest z r t hp) (\<lambda>b. zds_unpack_FgwSetConfigRequest z n0 b hp)"
  using assms by (intro conjI hello_prim feedback_prim endpoint_prim channel_config_prim config_prim link_quality_prim
      session_stat_prim status_prim empty_request_prim start_request_prim start_result_prim add_channel_prim
      remove_channel_prim set_config_prim)

definition sample_status :: FgwStatus where
  "sample_status = \<lparr>fst_running = 1, fst_role = 0, fst_session_count = 1, fst_links = [],
     fst_sessions = [FgwSessionStat_init\<lparr>ss_session_id := 5, ss_client_addr := ''client'', ss_bytes_sent := 77\<rparr>]\<rparr>"

theorem messages_survive_the_wire_witness:
  "\<exists>ret out. zds_pack_FgwStatus be_zds (Some 64) sample_status True = (ret, out) \<and> 0 \<le> ret \<and>
     zds_unpack_FgwStatus be_zds sample_status (out @ [9]) True = (ret, sample_status)"
proof -
  have "0 \<le> fst (zds_pack_FgwStatus be_zds (Some 64) sample_status True)"
    by code_simp
  moreover have "prim_ok (\<lambda>r t. zds_pack_FgwStatus be_zds r t True) (\<lambda>b. zds_unpack_FgwStatus be_zds sample_status b True)"
    using messages_survive_the_wire [OF be_zds_laws, where hp = True and ?u0.0 = sample_status] by blast
  ultimately show ?thesis
    unfolding prim_ok_def by (metis prod.collapse)
qed

end
