(* ===== verification/Fgw_Channel.thy ===== *)
theory Fgw_Channel
  imports Fgw_Pack
begin

text \<open>
  Link channels, \<^verbatim>\<open>src/src/zfgw_channel.h\<close> and \<^verbatim>\<open>zfgw_channel.cpp\<close>, as the default build has them
  (\<^verbatim>\<open>ZFGW_WITH_LIBUTP\<close> is 0). One record holds the members of \<^verbatim>\<open>IFgwChannel\<close> and of its two
  implementations; \<open>ch_kind\<close> tells which class the object has, and a virtual call is a case
  distinction on it. \<^verbatim>\<open>tcp_ptr_\<close> names the current \<^verbatim>\<open>TcpHandler\<close> by the number it was created
  with: a handler's \<^verbatim>\<open>owner_\<close> is set exactly while the channel points at it, because \<^verbatim>\<open>close\<close>
  clears it. Two fields are not in the source: \<open>ch_handlers\<close> counts the handlers created, and
  \<open>ch_wire\<close> lists the blocks the transport accepted, in order.

  What the channel calls in zce is in the record \<open>fgw_env\<close>: the result of
  \<^verbatim>\<open>Connector::start_connect\<close>, the result of \<^verbatim>\<open>Tcp::write\<close>, the space of a block acquired by
  \<^verbatim>\<open>ZCE_MBACQUIRE\<close>, and so on. \<^verbatim>\<open>zce_tick()\<close> is the argument \<open>now\<close> of an operation that reads it.
\<close>

section \<open>The environment\<close>

record fgw_env =
  e_start_connect :: "u32 \<Rightarrow> FgwEndpoint \<Rightarrow> int"
  e_tcp_write :: "u32 \<Rightarrow> bytes list \<Rightarrow> bytes \<Rightarrow> int"
  e_mb_space :: "u32 \<Rightarrow> nat \<Rightarrow> nat"
  e_acceptor_listen :: "string \<Rightarrow> u16 \<Rightarrow> int"
  e_udp_listen :: "string \<Rightarrow> u16 \<Rightarrow> int"
  e_random_device :: u32
  e_zds :: zds
  e_fl :: "rat \<Rightarrow> rat"
  e_sort :: "(u32 \<times> rat) list \<Rightarrow> (u32 \<times> rat) list"

text \<open>\<open>e_fl\<close> is the rounding of an exact value to a \<^verbatim>\<open>double\<close>; \<open>e_sort\<close> is \<^verbatim>\<open>std::sort\<close> by
  descending weight, which may order equal weights in any way.\<close>

section \<open>Link quality and the stall decision\<close>

record LinkQuality =
  lq_rtt_ms :: u32
  lq_loss_rate :: rat
  lq_bytes_sent :: u64
  lq_bytes_recv :: u64
  lq_send_segments :: u32
  lq_recv_segments :: u32
  lq_rexmit_segments :: u32
  lq_last_rx_tick :: u32

definition LinkQuality_init :: LinkQuality where
  "LinkQuality_init =
     \<lparr>lq_rtt_ms = 0, lq_loss_rate = 0, lq_bytes_sent = 0, lq_bytes_recv = 0, lq_send_segments = 0,
      lq_recv_segments = 0, lq_rexmit_segments = 0, lq_last_rx_tick = 0\<rparr>"

definition fgwLinkStalled :: "u32 \<Rightarrow> u32 \<Rightarrow> u32 \<Rightarrow> bool" where
  "fgwLinkStalled now_tick last_rx_tick timeout_ms = (now_tick - last_rx_tick > timeout_ms)"

section \<open>IFgwChannel\<close>

record channel =
  ch_channel_id :: u32
  ch_kind :: ZFGW_CHANNEL_KIND
  ch_priority :: u32
  ch_connected :: bool
  ch_accepted :: bool
  ch_stalled :: bool
  ch_peer_channel_id :: u32
  ch_peer_ingress_id :: u32
  ch_peer_outport_id :: u32
  ch_quality :: LinkQuality
  ch_tcp_ptr :: "nat option"
  ch_remote :: FgwEndpoint
  ch_handlers :: nat
  ch_wire :: "bytes list"

definition new_channel :: "u32 \<Rightarrow> ZFGW_CHANNEL_KIND \<Rightarrow> u32 \<Rightarrow> channel" where
  "new_channel cid kind priority =
     \<lparr>ch_channel_id = cid, ch_kind = kind, ch_priority = priority, ch_connected = False,
      ch_accepted = False, ch_stalled = False, ch_peer_channel_id = 0, ch_peer_ingress_id = 0,
      ch_peer_outport_id = 0, ch_quality = LinkQuality_init, ch_tcp_ptr = None,
      ch_remote = FgwEndpoint_init, ch_handlers = 0, ch_wire = []\<rparr>"

definition isLive :: "channel \<Rightarrow> bool" where
  "isLive c = (ch_connected c \<and> \<not> ch_stalled c)"

definition evaluateStall :: "u32 \<Rightarrow> u32 \<Rightarrow> channel \<Rightarrow> channel" where
  "evaluateStall now timeout_ms c =
     c\<lparr>ch_stalled := fgwLinkStalled now (lq_last_rx_tick (ch_quality c)) timeout_ms\<rparr>"

definition markAccepted :: "channel \<Rightarrow> channel" where
  "markAccepted c = c\<lparr>ch_accepted := True\<rparr>"

definition setPeerIdentity :: "u32 \<Rightarrow> u32 \<Rightarrow> u32 \<Rightarrow> channel \<Rightarrow> channel" where
  "setPeerIdentity peer_channel peer_ingress peer_outport c =
     c\<lparr>ch_peer_channel_id := peer_channel, ch_peer_ingress_id := peer_ingress,
       ch_peer_outport_id := peer_outport\<rparr>"

text \<open>\<open>markConnected\<close> and \<open>markClosed\<close> up to their callbacks, which belong to the owner of the
  channel; the first component is the error code \<open>on_connected_\<close> gets.\<close>

definition markConnected :: "u32 \<Rightarrow> bool \<Rightarrow> channel \<Rightarrow> int \<times> channel" where
  "markConnected now v c =
     (let c = c\<lparr>ch_connected := v\<rparr>;
          c = (if v then c\<lparr>ch_quality := (ch_quality c)\<lparr>lq_last_rx_tick := now\<rparr>\<rparr> else c)
      in (if v then 0 else errcode ERR_CHANNELFAIL, c))"

definition markClosed :: "channel \<Rightarrow> channel" where
  "markClosed c = c\<lparr>ch_connected := False\<rparr>"

definition addSentBytes :: "u32 \<Rightarrow> channel \<Rightarrow> channel" where
  "addSentBytes n c =
     c\<lparr>ch_quality := (ch_quality c)\<lparr>lq_bytes_sent := lq_bytes_sent (ch_quality c) + ucast n\<rparr>\<rparr>"

definition addRecvBytes :: "u32 \<Rightarrow> u32 \<Rightarrow> channel \<Rightarrow> channel" where
  "addRecvBytes now n c =
     c\<lparr>ch_quality := (ch_quality c)\<lparr>lq_bytes_recv := lq_bytes_recv (ch_quality c) + ucast n,
                                    lq_last_rx_tick := now\<rparr>,
       ch_stalled := False\<rparr>"

definition noteSegmentRecv :: "channel \<Rightarrow> channel" where
  "noteSegmentRecv c =
     c\<lparr>ch_quality := (ch_quality c)\<lparr>lq_recv_segments := lq_recv_segments (ch_quality c) + 1\<rparr>\<rparr>"

text \<open>The remaining members; nothing in the program calls them.\<close>

definition markStalled :: "bool \<Rightarrow> channel \<Rightarrow> channel" where
  "markStalled v c = c\<lparr>ch_stalled := v\<rparr>"

definition noteSegmentSent :: "channel \<Rightarrow> channel" where
  "noteSegmentSent c =
     c\<lparr>ch_quality := (ch_quality c)\<lparr>lq_send_segments := lq_send_segments (ch_quality c) + 1\<rparr>\<rparr>"

definition noteSegmentRexmit :: "channel \<Rightarrow> channel" where
  "noteSegmentRexmit c =
     c\<lparr>ch_quality := (ch_quality c)\<lparr>lq_rexmit_segments := lq_rexmit_segments (ch_quality c) + 1\<rparr>\<rparr>"

definition setRttMs :: "u32 \<Rightarrow> channel \<Rightarrow> channel" where
  "setRttMs v c = c\<lparr>ch_quality := (ch_quality c)\<lparr>lq_rtt_ms := v\<rparr>\<rparr>"

definition effectiveMss :: "channel \<Rightarrow> int" where
  "effectiveMss c = 1200"

section \<open>FgwTcpChannel\<close>

definition tcp_close :: "channel \<Rightarrow> channel" where
  "tcp_close c = c\<lparr>ch_tcp_ptr := None, ch_connected := False\<rparr>"

text \<open>\<^verbatim>\<open>new TcpHandler(reactor_, this)\<close>, stored in \<^verbatim>\<open>tcp_ptr_\<close>.\<close>

definition new_handler :: "channel \<Rightarrow> channel" where
  "new_handler c = c\<lparr>ch_tcp_ptr := Some (ch_handlers c), ch_handlers := Suc (ch_handlers c)\<rparr>"

definition tcp_connect :: "fgw_env \<Rightarrow> u32 \<Rightarrow> FgwEndpoint \<Rightarrow> channel \<Rightarrow> int \<times> channel" where
  "tcp_connect env now remote c =
     (let c = tcp_close c;
          c = c\<lparr>ch_remote := remote\<rparr>;
          c = new_handler c
      in (e_start_connect env now remote, c))"

definition tcp_sendBytes :: "fgw_env \<Rightarrow> u32 \<Rightarrow> bytes \<Rightarrow> channel \<Rightarrow> int \<times> channel" where
  "tcp_sendBytes env now buf c =
     (if ch_tcp_ptr c = None then (errcode ERR_NOTRUNNING, c)
      else if \<not> ch_connected c then (errcode ERR_NOCHANNEL, c)
      else if length buf = 0 then (0, c)
      else if e_mb_space env now (length buf) < length buf then (errcode ERR_MEMORY, c)
      else
        let ret = e_tcp_write env (ch_channel_id c) (ch_wire c) buf
        in if ret < 0 then (ret, c)
           else (int (length buf), addSentBytes (of_nat (length buf)) (c\<lparr>ch_wire := ch_wire c @ [buf]\<rparr>)))"

definition createAcceptedHandler :: "channel \<Rightarrow> channel" where
  "createAcceptedHandler c = new_handler (markAccepted c)"

definition adoptAcceptedTcp :: "channel \<Rightarrow> int" where
  "adoptAcceptedTcp c = errcode ERR_INVALIDCONFIG"

section \<open>FgwUtpChannel without libutp\<close>

definition utp_connect :: "FgwEndpoint \<Rightarrow> channel \<Rightarrow> int \<times> channel" where
  "utp_connect remote c = (errcode ERR_INVALIDCONFIG, c\<lparr>ch_remote := remote\<rparr>)"

definition utp_close :: "channel \<Rightarrow> channel" where
  "utp_close c = c\<lparr>ch_connected := False\<rparr>"

definition utp_sendBytes :: "bytes \<Rightarrow> channel \<Rightarrow> int \<times> channel" where
  "utp_sendBytes buf c = (errcode ERR_INVALIDCONFIG, c)"

text \<open>What a libutp would call, up to the callbacks, and what the shared context answers to a channel.\<close>

definition utp_deliverBytes :: "u32 \<Rightarrow> bytes \<Rightarrow> channel \<Rightarrow> channel" where
  "utp_deliverBytes now buf c = addRecvBytes now (of_nat (length buf)) c"

definition utp_onUtpState :: "int \<Rightarrow> channel \<Rightarrow> channel" where
  "utp_onUtpState state c = c"

definition utp_onUtpError :: "int \<Rightarrow> channel \<Rightarrow> channel" where
  "utp_onUtpError error_code c = markClosed c"

definition utp_connectChannel :: "channel \<Rightarrow> FgwEndpoint \<Rightarrow> int" where
  "utp_connectChannel c remote = errcode ERR_INVALIDCONFIG"

section \<open>Virtual calls\<close>

definition chan_connect :: "fgw_env \<Rightarrow> u32 \<Rightarrow> FgwEndpoint \<Rightarrow> channel \<Rightarrow> int \<times> channel" where
  "chan_connect env now remote c =
     (case ch_kind c of CHANNEL_TCP \<Rightarrow> tcp_connect env now remote c | CHANNEL_UTP \<Rightarrow> utp_connect remote c)"

definition chan_close :: "channel \<Rightarrow> channel" where
  "chan_close c = (case ch_kind c of CHANNEL_TCP \<Rightarrow> tcp_close c | CHANNEL_UTP \<Rightarrow> utp_close c)"

definition sendBytes :: "fgw_env \<Rightarrow> u32 \<Rightarrow> bytes \<Rightarrow> channel \<Rightarrow> int \<times> channel" where
  "sendBytes env now buf c =
     (case ch_kind c of CHANNEL_TCP \<Rightarrow> tcp_sendBytes env now buf c | CHANNEL_UTP \<Rightarrow> utp_sendBytes buf c)"

section \<open>Well-formed channels\<close>

text \<open>Only a TCP channel with a handler is connected, and a handler is one the channel created.\<close>

definition chan_inv :: "channel \<Rightarrow> bool" where
  "chan_inv c \<longleftrightarrow> (ch_connected c \<longrightarrow> ch_kind c = CHANNEL_TCP \<and> ch_tcp_ptr c \<noteq> None) \<and>
     (\<forall>h. ch_tcp_ptr c = Some h \<longrightarrow> h < ch_handlers c)"

lemmas chan_defs = new_channel_def evaluateStall_def markAccepted_def setPeerIdentity_def
  markConnected_def markClosed_def addSentBytes_def addRecvBytes_def noteSegmentRecv_def
  tcp_close_def new_handler_def tcp_connect_def createAcceptedHandler_def utp_connect_def
  utp_close_def utp_sendBytes_def chan_connect_def chan_close_def Let_def
  markStalled_def noteSegmentSent_def noteSegmentRexmit_def setRttMs_def utp_deliverBytes_def
  utp_onUtpState_def utp_onUtpError_def

lemma chan_inv_new [simp]: "chan_inv (new_channel cid kind priority)"
  by (simp add: chan_inv_def chan_defs)

lemma chan_inv_ops:
  assumes "chan_inv c"
  shows "chan_inv (evaluateStall now timeout c)" "chan_inv (markAccepted c)"
    "chan_inv (setPeerIdentity a b d c)" "chan_inv (markClosed c)" "chan_inv (addRecvBytes now n c)"
    "chan_inv (noteSegmentRecv c)" "chan_inv (chan_close c)" "chan_inv (snd (chan_connect env now remote c))"
    "chan_inv (createAcceptedHandler c)" "chan_inv (markStalled v c)" "chan_inv (noteSegmentSent c)"
    "chan_inv (noteSegmentRexmit c)" "chan_inv (setRttMs i c)" "chan_inv (utp_deliverBytes now buf c)"
    "chan_inv (utp_onUtpState j c)" "chan_inv (utp_onUtpError k c)"
  using assms by (auto simp: chan_inv_def chan_defs split: ZFGW_CHANNEL_KIND.splits)

text \<open>Without libutp no uTP channel ever carries anything: it cannot connect, no event of its transport connects it,
  and what is sent on it is refused.\<close>

lemma utp_never_carries:
  assumes "ch_kind c = CHANNEL_UTP" and "chan_inv c"
  shows "\<not> isLive c" and "fst (chan_connect env now remote c) < 0" and "fst (sendBytes env now buf c) < 0"
    and "\<not> isLive (utp_onUtpState j (utp_deliverBytes now buf c))"
  using assms by (auto simp: isLive_def chan_inv_def chan_defs sendBytes_def errcode_def)

lemma chan_inv_markConnected:
  "chan_inv c \<Longrightarrow> ch_kind c = CHANNEL_TCP \<Longrightarrow> ch_tcp_ptr c \<noteq> None \<Longrightarrow> chan_inv (snd (markConnected now v c))"
  by (simp add: chan_inv_def markConnected_def Let_def)

text \<open>A send either leaves the channel as it was and reports an error or nothing to do, or puts
  the block on the wire; it changes nothing else but the byte counter.\<close>

lemma sendBytes_cases:
  "(fst (sendBytes env now buf c) \<le> 0 \<and> snd (sendBytes env now buf c) = c) \<or>
   (fst (sendBytes env now buf c) = int (length buf) \<and> buf \<noteq> [] \<and> ch_connected c \<and>
    snd (sendBytes env now buf c) = addSentBytes (of_nat (length buf)) (c\<lparr>ch_wire := ch_wire c @ [buf]\<rparr>))"
  by (auto simp: sendBytes_def tcp_sendBytes_def utp_sendBytes_def Let_def less_imp_le
      split: ZFGW_CHANNEL_KIND.splits)

text \<open>Everything of a channel that a send leaves alone.\<close>

definition chan_core :: "channel \<Rightarrow> channel" where
  "chan_core c = c\<lparr>ch_wire := [], ch_quality := (ch_quality c)\<lparr>lq_bytes_sent := 0\<rparr>\<rparr>"

definition same_identity :: "channel \<Rightarrow> channel \<Rightarrow> bool" where
  "same_identity c d \<longleftrightarrow> chan_core c = chan_core d"

lemma same_identity_refl [simp]: "same_identity c c"
  by (simp add: same_identity_def)

lemma same_identity_trans: "same_identity c d \<Longrightarrow> same_identity d e \<Longrightarrow> same_identity c e"
  by (simp add: same_identity_def)

lemma same_identity_fields:
  assumes "same_identity c d"
  shows "ch_channel_id c = ch_channel_id d" "ch_kind c = ch_kind d" "ch_priority c = ch_priority d"
    "ch_connected c = ch_connected d" "ch_accepted c = ch_accepted d" "ch_stalled c = ch_stalled d"
    "ch_peer_channel_id c = ch_peer_channel_id d" "ch_peer_ingress_id c = ch_peer_ingress_id d"
    "ch_peer_outport_id c = ch_peer_outport_id d" "ch_tcp_ptr c = ch_tcp_ptr d" "ch_handlers c = ch_handlers d"
    "lq_rtt_ms (ch_quality c) = lq_rtt_ms (ch_quality d)"
    "lq_loss_rate (ch_quality c) = lq_loss_rate (ch_quality d)"
    "lq_last_rx_tick (ch_quality c) = lq_last_rx_tick (ch_quality d)"
  using assms unfolding same_identity_def chan_core_def
  by (cases c; cases d; cases "ch_quality c"; cases "ch_quality d"; simp)+

lemma same_identity_live: "same_identity c d \<Longrightarrow> isLive c = isLive d"
  by (simp add: same_identity_fields isLive_def)

lemma sendBytes_identity: "same_identity (snd (sendBytes env now buf c)) c"
  using sendBytes_cases [of env now buf c] by (auto simp: same_identity_def chan_core_def addSentBytes_def)

lemma sendBytes_wire:
  "ch_wire (snd (sendBytes env now buf c)) = ch_wire c @ (if 0 < fst (sendBytes env now buf c) then [buf] else [])"
  using sendBytes_cases [of env now buf c] by (auto simp: addSentBytes_def)

lemma sendBytes_ok:
  assumes "chan_inv c" and "ch_connected c" and "buf \<noteq> []"
    and "length buf \<le> e_mb_space env now (length buf)"
    and "0 \<le> e_tcp_write env (ch_channel_id c) (ch_wire c) buf"
  shows "fst (sendBytes env now buf c) = int (length buf)"
  using assms by (auto simp: sendBytes_def tcp_sendBytes_def chan_inv_def Let_def)

lemma chan_inv_identity: "same_identity c d \<Longrightarrow> chan_inv d \<Longrightarrow> chan_inv c"
  by (simp add: chan_inv_def same_identity_fields)

section \<open>Stall detection\<close>

text \<open>The unsigned difference is the elapsed time, also when the tick counter has wrapped.\<close>

lemma fgwLinkStalled_elapsed:
  "elapsed < 2 ^ 32 \<Longrightarrow> fgwLinkStalled (rx + of_nat elapsed) rx timeout \<longleftrightarrow> unat timeout < elapsed"
  by (simp add: fgwLinkStalled_def word_less_nat_alt unat_of_nat)

section \<open>A concrete environment\<close>

text \<open>For the examples: every call of the transport succeeds, arithmetic is exact, the sort is
  stable.\<close>

definition open_env :: fgw_env where
  "open_env =
     \<lparr>e_start_connect = (\<lambda>_ _. 0), e_tcp_write = (\<lambda>_ _ _. 0), e_mb_space = (\<lambda>_ n. n),
      e_acceptor_listen = (\<lambda>_ _. 0), e_udp_listen = (\<lambda>_ _. 0), e_random_device = 7, e_zds = be_zds,
      e_fl = (\<lambda>x. x), e_sort = sort_key (\<lambda>e. - snd e)\<rparr>"

section \<open>Channels as a whole\<close>

theorem sendBytes_contract:
  "fst (sendBytes env now buf c) \<le> 0 \<and> snd (sendBytes env now buf c) = c \<or>
   fst (sendBytes env now buf c) = int (length buf) \<and> buf \<noteq> [] \<and> ch_kind c = CHANNEL_TCP \<and> ch_connected c \<and>
   ch_wire (snd (sendBytes env now buf c)) = ch_wire c @ [buf] \<and>
   lq_bytes_sent (ch_quality (snd (sendBytes env now buf c))) =
     lq_bytes_sent (ch_quality c) + ucast (of_nat (length buf) :: u32) \<and>
   same_identity (snd (sendBytes env now buf c)) c"
  using sendBytes_cases [of env now buf c] sendBytes_identity [of env now buf c]
  by (auto simp: addSentBytes_def sendBytes_def utp_sendBytes_def split: ZFGW_CHANNEL_KIND.splits)

theorem stall_and_recovery:
  assumes "elapsed < 2 ^ 32" and "now = lq_last_rx_tick (ch_quality c) + of_nat elapsed"
  shows "(isLive (evaluateStall now timeout c) \<longleftrightarrow> ch_connected c \<and> elapsed \<le> unat timeout) \<and>
    (isLive (evaluateStall now timeout (addRecvBytes now n c)) \<longleftrightarrow> ch_connected c)"
  using fgwLinkStalled_elapsed [OF assms(1), of "lq_last_rx_tick (ch_quality c)" timeout] assms(2)
  by (auto simp: isLive_def evaluateStall_def addRecvBytes_def fgwLinkStalled_def not_less)

text \<open>The tick counter wraps between the last byte and the check.\<close>

theorem stall_and_recovery_witness:
  "\<not> isLive (evaluateStall 0x1000 0xFFF
      ((new_channel 1 CHANNEL_TCP 100)\<lparr>ch_connected := True, ch_quality := LinkQuality_init\<lparr>lq_last_rx_tick := 0xFFFFFFFF\<rparr>\<rparr>)) \<and>
   isLive (evaluateStall 0x1000 0x1001
      ((new_channel 1 CHANNEL_TCP 100)\<lparr>ch_connected := True, ch_quality := LinkQuality_init\<lparr>lq_last_rx_tick := 0xFFFFFFFF\<rparr>\<rparr>))"
  using stall_and_recovery [of "0x1001" "0x1000"
      "(new_channel 1 CHANNEL_TCP 100)\<lparr>ch_connected := True, ch_quality := LinkQuality_init\<lparr>lq_last_rx_tick := 0xFFFFFFFF\<rparr>\<rparr>" "0xFFF"]
    stall_and_recovery [of "0x1001" "0x1000"
      "(new_channel 1 CHANNEL_TCP 100)\<lparr>ch_connected := True, ch_quality := LinkQuality_init\<lparr>lq_last_rx_tick := 0xFFFFFFFF\<rparr>\<rparr>" "0x1001"]
  by simp

end
