(* ===== verification/Fgw_Config.thy ===== *)
theory Fgw_Config
  imports Fgw_Structs Fgw_Channel
begin

text \<open>
  The configuration file of \<^verbatim>\<open>src/src/zfgw.cpp\<close>: where it lies, how it is written and how it is read. The
  file system is a map from paths to contents; what \<^verbatim>\<open>fopen\<close>, \<^verbatim>\<open>fwrite\<close> and \<^verbatim>\<open>fread\<close> answer is a parameter.
  A file is taken to be smaller than 2 GB, so that the casts of its length to \<^verbatim>\<open>int\<close> keep it.
\<close>

section \<open>The file system\<close>

type_synonym files = "string \<Rightarrow> bytes option"

record file_env =
  f_open_w :: "string \<Rightarrow> bool"
  f_open_r :: "string \<Rightarrow> bool"
  f_fwrite :: "nat \<Rightarrow> nat"
  f_fread :: "nat \<Rightarrow> nat"

section \<open>zfgw.cpp\<close>

definition with_slash :: "string \<Rightarrow> string" where
  "with_slash dir = (if dir \<noteq> [] \<and> last dir \<noteq> CHR ''/'' \<and> last dir \<noteq> CHR 0x5C then dir @ ''/'' else dir)"

definition fgwConfigFilePath :: "string \<Rightarrow> string \<Rightarrow> string \<Rightarrow> string" where
  "fgwConfigFilePath host_dir vmname vmpath =
     (let dir = with_slash host_dir;
          dir = (if vmpath \<noteq> [] then with_slash (dir @ vmpath) else dir)
      in dir @ vmname @ ''/config.zds'')"

definition getFgwVMRelativeFilePath :: "string \<Rightarrow> string \<Rightarrow> string \<Rightarrow> string" where
  "getFgwVMRelativeFilePath host_dir vmname vmpath = fgwConfigFilePath host_dir vmname vmpath"

definition zfgw_save_config ::
  "file_env \<Rightarrow> fgw_env \<Rightarrow> u32 \<Rightarrow> FgwConfig \<Rightarrow> string \<Rightarrow> string \<Rightarrow> string \<Rightarrow> files \<Rightarrow> int \<times> files" where
  "zfgw_save_config fe env now config host_dir vmname vmpath files =
     (let path = fgwConfigFilePath host_dir vmname vmpath;
          stamped = config\<lparr>cfg_config_version := kFgwConfigVersion\<rparr>;
          need = fst (zds_pack_FgwConfig (e_zds env) None stamped True)
      in if need < 0 then (need, files)
         else
           let space = int (e_mb_space env now (nat need))
           in if space < need then (errcode ERR_MEMORY, files)
              else
                case zds_pack_FgwConfig (e_zds env) (Some space) stamped True of
                  (wrote, out) \<Rightarrow>
                    if wrote < 0 then (wrote, files)
                    else if \<not> f_open_w fe path then (errcode ERR_PATHFILEWRITE, files)
                    else
                      let n = f_fwrite fe (nat wrote)
                      in (if n = nat wrote then 0 else errcode ERR_PATHFILEWRITE,
                          files(path \<mapsto> take n (take (nat wrote) out))))"

definition zfgw_load_config ::
  "file_env \<Rightarrow> fgw_env \<Rightarrow> u32 \<Rightarrow> FgwConfig \<Rightarrow> string \<Rightarrow> string \<Rightarrow> string \<Rightarrow> files \<Rightarrow> int \<times> FgwConfig" where
  "zfgw_load_config fe env now config host_dir vmname vmpath files =
     (let path = fgwConfigFilePath host_dir vmname vmpath
      in case files path of
           None \<Rightarrow> (errcode ERR_PATHFILEREAD, config)
         | Some content \<Rightarrow>
             if \<not> f_open_r fe path then (errcode ERR_PATHFILEREAD, config)
             else if length content = 0 then (errcode ERR_PATHFILEREAD, config)
             else if e_mb_space env now (length content) < length content then (errcode ERR_MEMORY, config)
             else if f_fread fe (length content) \<noteq> length content then (errcode ERR_PATHFILEREAD, config)
             else
               case zds_unpack_FgwConfig (e_zds env) FgwConfig_init content True of
                 (consumed, decoded) \<Rightarrow>
                   if consumed < 0 then (consumed, config)
                   else if \<not> fgwConfigVersionOk (cfg_config_version decoded)
                   then (errcode ERR_INVALIDCONFIG, config)
                   else (0, decoded))"

section \<open>What was saved is what is loaded\<close>

text \<open>A stored struct prefix that has a bit set takes room.\<close>

definition header_stored :: "zds \<Rightarrow> bool" where
  "header_stored z \<longleftrightarrow>
     (\<forall>room p len. p \<noteq> 0 \<longrightarrow> z_pack_struct_header z (Some room) p True = (len, []) \<longrightarrow> len < 0)"

lemma pack_part_extend:
  "pack_part z m (room, ret, out) = Inl (e, out') \<Longrightarrow> \<exists>x. out' = out @ x"
  "pack_part z m (room, ret, out) = Inr (room', ret', out') \<Longrightarrow> \<exists>x. out' = out @ x"
  by (auto simp: pack_part_def split: prod.splits sum.splits if_splits)

lemma pack_parts_extend:
  "pack_parts z ms (room, ret, out) = Inl (e, out') \<Longrightarrow> \<exists>x. out' = out @ x"
  "pack_parts z ms (room, ret, out) = Inr (room', ret', out') \<Longrightarrow> \<exists>x. out' = out @ x"
proof (induction ms arbitrary: room ret out)
  case (Cons m ms)
  {
    case 1
    then show ?case
      using Cons.IH(1) pack_part_extend [of z m room ret out]
      by (cases "pack_part z m (room, ret, out)") fastforce+
  next
    case 2
    then show ?case
      using Cons.IH(2) pack_part_extend(2) [of z m room ret out]
      by (cases "pack_part z m (room, ret, out)") fastforce+
  }
qed simp_all

lemma pack_struct_starts:
  assumes laws: "zds_laws z" and pack: "pack_struct z (Some room) p hp pms = (ret, out)" "0 \<le> ret"
  shows "\<exists>len bs x. z_pack_struct_header z (Some room) p hp = (len, bs) \<and> 0 \<le> len \<and> out = bs @ x"
proof -
  obtain len bs where hdr: "z_pack_struct_header z (Some room) p hp = (len, bs)" by fastforce
  have len: "0 \<le> len"
  proof (rule ccontr)
    assume "\<not> 0 \<le> len"
    with zds_laws_check(1) [OF laws, of len "(Some room, 0)"] hdr pack show False
      by (simp add: pack_struct_def pack_part_def)
  qed
  have "prim_ok (\<lambda>r p. z_pack_struct_header z r p hp) (\<lambda>b. z_unpack_struct_header z b hp)"
    using laws by (simp add: zds_laws_def)
  with hdr len have "len \<le> room" by (auto simp: prim_ok_def)
  with zds_laws_check(2) [OF laws len this, of 0] hdr pack(1)
  have "(case pack_parts z (pms p) (Some (room - len), len, bs) of Inl e \<Rightarrow> e | Inr (r, t, o') \<Rightarrow> (t, o')) = (ret, out)"
    by (simp add: pack_struct_def pack_part_def)
  with pack_parts_extend [of z "pms p" "Some (room - len)" len bs] hdr len show ?thesis
    by (cases "pack_parts z (pms p) (Some (room - len), len, bs)") auto
qed

lemma stamped_stored:
  assumes "zds_laws z" and "header_stored z" and "cfg_config_version t \<noteq> 0"
    and "zds_pack_FgwConfig z (Some room) t True = (ret, out)" and "0 \<le> ret"
  shows "out \<noteq> []"
proof -
  have "has_bit (config_prefix z t) 14"
    unfolding config_prefix_def using zds_laws_empty(3) [OF assms(1)] assms(3) by (subst bit_prefix) auto
  then have "config_prefix z t \<noteq> 0" by (auto simp: has_bit_iff)
  then show ?thesis
    using pack_struct_starts [OF assms(1) assms(4) [unfolded zds_pack_FgwConfig_def] assms(5)] assms(2)
    by (fastforce simp: header_stored_def)
qed

lemma saved_is_loaded:
  assumes laws: "zds_laws (e_zds env)" "header_stored (e_zds env)"
    and save: "zfgw_save_config fe env now config host_dir vmname vmpath files = (0, files')"
    and read: "e_zds env' = e_zds env" "f_open_r fe' (fgwConfigFilePath host_dir vmname vmpath)"
      "\<And>n. f_fread fe' n = n" "\<And>n. n \<le> e_mb_space env' now' n"
  shows "zfgw_load_config fe' env' now' config' host_dir vmname vmpath files' =
    (0, config\<lparr>cfg_config_version := kFgwConfigVersion\<rparr>)"
proof -
  let ?path = "fgwConfigFilePath host_dir vmname vmpath" and ?z = "e_zds env"
    and ?t = "config\<lparr>cfg_config_version := kFgwConfigVersion\<rparr>"
  obtain space wrote out where pk: "zds_pack_FgwConfig ?z (Some space) ?t True = (wrote, out)" "0 \<le> wrote"
    and w: "f_fwrite fe (nat wrote) = nat wrote" "files' = files(?path \<mapsto> take (nat wrote) out)"
    using save unfolding zfgw_save_config_def Let_def by (auto split: if_splits prod.splits)
  have rt: "wrote = int (length out)" "zds_unpack_FgwConfig ?z FgwConfig_init out True = (wrote, ?t)"
    using config_prim [OF laws(1)] pk prim_ok_def append_Nil2 unfolding prim_ok_def by metis+
  have "out \<noteq> []"
    using stamped_stored [OF laws _ pk] by (simp add: kFgwConfigVersion_def)
  then show ?thesis
    using w rt read by (simp add: zfgw_load_config_def Let_def fgwConfigVersionOk_def not_less)
qed

text \<open>C21: A configuration that zfgw_save_config stored with result 0 is what zfgw_load_config returns later, with
  the schema version stamped, whatever configuration the caller passed in, as long as the file can be read and
  memory does not run out.\<close>

theorem config_survives:
  assumes "zds_laws (e_zds env)" and "header_stored (e_zds env)"
    and "zfgw_save_config fe env now config host_dir vmname vmpath files = (0, files')"
    and "e_zds env' = e_zds env" and "f_open_r fe' (fgwConfigFilePath host_dir vmname vmpath)"
    and "\<And>n. f_fread fe' n = n" and "\<And>n. n \<le> e_mb_space env' now' n"
  shows "zfgw_load_config fe' env' now' config' host_dir vmname vmpath files' =
    (0, config\<lparr>cfg_config_version := kFgwConfigVersion\<rparr>)"
  using assms by (rule saved_is_loaded)

definition open_files :: file_env where
  "open_files = \<lparr>f_open_w = (\<lambda>_. True), f_open_r = (\<lambda>_. True), f_fwrite = (\<lambda>n. n), f_fread = (\<lambda>n. n)\<rparr>"

lemma open_files_facts: "f_open_r open_files path" "f_fread open_files n = n"
  by (simp_all add: open_files_def)

lemma open_env_facts: "e_zds open_env = be_zds" "e_mb_space open_env now n = n"
  by (simp_all add: open_env_def)

lemma be_header_stored: "header_stored be_zds"
  by (simp add: header_stored_def be_zds_def fixed_pack_def pack_be16_def)

definition sample_file_config :: FgwConfig where
  "sample_file_config = FgwConfig_init\<lparr>cfg_role := 2, cfg_outport_listen_host := ''0.0.0.0'', cfg_route_outport_id := 9,
     cfg_channels := [\<lparr>cc_channel_id = 1, cc_kind = 0, cc_remote = \<lparr>ep_host = ''peer'', ep_port = 9000\<rparr>, cc_priority = 100\<rparr>]\<rparr>"

theorem config_survives_witness:
  "zfgw_load_config open_files open_env 5 FgwConfig_init ''/etc'' ''gw'' []
     (snd (zfgw_save_config open_files open_env 0 sample_file_config ''/etc'' ''gw'' [] (\<lambda>_. None))) =
   (0, sample_file_config\<lparr>cfg_config_version := kFgwConfigVersion\<rparr>)"
proof -
  have "fst (zfgw_save_config open_files open_env 0 sample_file_config ''/etc'' ''gw'' [] (\<lambda>_. None)) = 0"
    by code_simp
  then show ?thesis
    using config_survives [where env = open_env and env' = open_env and fe = open_files and fe' = open_files and now = 0
        and now' = 5 and config = sample_file_config and host_dir = "''/etc''" and vmname = "''gw''" and vmpath = "[]"
        and files = "\<lambda>_. None" and config' = FgwConfig_init]
    by (metis (no_types, lifting) be_header_stored be_zds_laws open_env_facts open_files_facts order.refl prod.collapse)
qed

theorem load_rejects:
  "case zfgw_load_config fe env now config host_dir vmname vmpath files of (ret, config') \<Rightarrow>
     if ret = 0
     then fgwConfigVersionOk (cfg_config_version config') \<and>
       (\<exists>content n. files (fgwConfigFilePath host_dir vmname vmpath) = Some content \<and> 0 \<le> n \<and>
          zds_unpack_FgwConfig (e_zds env) FgwConfig_init content True = (n, config'))
     else ret < 0 \<and> config' = config"
  unfolding zfgw_load_config_def Let_def
  by (auto split: option.splits if_splits prod.splits)

end
