(* ===== verification/Fgw_Selector.thy ===== *)
theory Fgw_Selector
  imports Fgw_Channel "HOL-Library.Multiset"
begin

text \<open>
  \<^verbatim>\<open>LinkSelector\<close> of \<^verbatim>\<open>src/src/zfgw_channel_manager.{h,cpp}\<close>: which links carry the next outgoing
  segment. \<^verbatim>\<open>select\<close> is \<^verbatim>\<open>const\<close> but advances the \<^verbatim>\<open>mutable\<close> rotation counter, so the model returns
  the selector too. \<^verbatim>\<open>size_t\<close> is 64 bits wide. The pool holds channels, not pointers: the
  entries of \<^verbatim>\<open>liveChannels()\<close> are never null.
\<close>

record LinkSelector =
  sel_mode :: ZFGW_MULTIPATH_MODE
  sel_primary :: u32
  sel_rotation :: u64

definition LinkSelector_init :: LinkSelector where
  "LinkSelector_init = \<lparr>sel_mode = MULTIPATH_WEIGHTED, sel_primary = 0, sel_rotation = 0\<rparr>"

definition setMode :: "ZFGW_MULTIPATH_MODE \<Rightarrow> LinkSelector \<Rightarrow> LinkSelector" where
  "setMode m sel = sel\<lparr>sel_mode := m\<rparr>"

definition setPrimaryChannel :: "u32 \<Rightarrow> LinkSelector \<Rightarrow> LinkSelector" where
  "setPrimaryChannel cid sel = sel\<lparr>sel_primary := cid\<rparr>"

definition link_weight :: "fgw_env \<Rightarrow> channel \<Rightarrow> rat" where
  "link_weight env c =
     (let fl = e_fl env;
          q = ch_quality c;
          rtt = (if lq_rtt_ms q = 0 then 50 else of_nat (unat (lq_rtt_ms q)));
          loss = lq_loss_rate q;
          loss = (if loss < 0 then 0 else loss);
          loss = (if loss > fl (99 / 100) then fl (99 / 100) else loss)
      in fl (of_nat (unat (ch_priority c)) / fl (rtt * fl (1 + fl (10 * loss)))))"

definition ranked_links :: "fgw_env \<Rightarrow> channel list \<Rightarrow> (u32 \<times> rat) list" where
  "ranked_links env pool =
     e_sort env (map (\<lambda>c. (ch_channel_id c, link_weight env c)) (filter isLive pool))"

text \<open>The index of the first entry with the wanted id, else 0.\<close>

fun index_of_id :: "u32 \<Rightarrow> (u32 \<times> rat) list \<Rightarrow> nat \<Rightarrow> nat option" where
  "index_of_id want [] i = None"
| "index_of_id want (e # es) i = (if fst e = want then Some i else index_of_id want es (Suc i))"

definition primary_index :: "u32 \<Rightarrow> (u32 \<times> rat) list \<Rightarrow> nat" where
  "primary_index want ranked =
     (if want \<noteq> 0 then (case index_of_id want ranked 0 of Some i \<Rightarrow> i | None \<Rightarrow> 0) else 0)"

definition probe_index :: "u64 \<Rightarrow> nat \<Rightarrow> nat \<Rightarrow> nat" where
  "probe_index rotation others primary_idx =
     (let r = unat rotation mod others in if r < primary_idx then r else r + 1)"

definition select_weighted :: "LinkSelector \<Rightarrow> (u32 \<times> rat) list \<Rightarrow> u32 list \<times> LinkSelector" where
  "select_weighted sel ranked =
     (if ranked = [] then ([], sel)
      else
        let pidx = primary_index (sel_primary sel) ranked;
            out = [fst (ranked ! pidx)]
        in if length ranked > 1 then
             (out @ [fst (ranked ! probe_index (sel_rotation sel) (length ranked - 1) pidx)],
              sel\<lparr>sel_rotation := sel_rotation sel + 1\<rparr>)
           else (out, sel))"

definition select :: "fgw_env \<Rightarrow> channel list \<Rightarrow> LinkSelector \<Rightarrow> u32 list \<times> LinkSelector" where
  "select env pool sel =
     (if pool = [] then ([], sel)
      else
        let ranked = ranked_links env pool
        in case sel_mode sel of
             MULTIPATH_BEST \<Rightarrow> (if ranked \<noteq> [] then [fst (hd ranked)] else [], sel)
           | MULTIPATH_ALL \<Rightarrow> (map fst ranked, sel)
           | MULTIPATH_WEIGHTED \<Rightarrow> select_weighted sel ranked
           | MULTIPATH_OTHER b \<Rightarrow> select_weighted sel ranked)"

section \<open>What select relies on\<close>

text \<open>\<^verbatim>\<open>std::sort\<close> with the comparator \<^verbatim>\<open>a.weight > b.weight\<close>: a permutation in which no later
  entry is heavier.\<close>

definition sort_ok :: "fgw_env \<Rightarrow> bool" where
  "sort_ok env \<longleftrightarrow> (\<forall>xs. mset (e_sort env xs) = mset xs \<and>
     sorted_wrt (\<lambda>a b. \<not> snd b > snd a) (e_sort env xs))"

definition live_ids :: "channel list \<Rightarrow> u32 list" where
  "live_ids pool = map ch_channel_id (filter isLive pool)"

lemma ranked_mset: "sort_ok env \<Longrightarrow> mset (map fst (ranked_links env pool)) = mset (live_ids pool)"
  by (simp add: sort_ok_def ranked_links_def live_ids_def comp_def flip: mset_map)
    (simp add: image_mset.compositionality comp_def)

lemma ranked_ids: "sort_ok env \<Longrightarrow> fst ` set (ranked_links env pool) = set (live_ids pool)"
  using arg_cong [OF ranked_mset, of env set_mset pool] by simp

lemma ranked_length: "sort_ok env \<Longrightarrow> length (ranked_links env pool) = length (live_ids pool)"
  using arg_cong [OF ranked_mset, of env size pool] by simp

lemma ranked_distinct:
  "sort_ok env \<Longrightarrow> distinct (live_ids pool) \<Longrightarrow> distinct (map fst (ranked_links env pool))"
  using ranked_mset [of env pool] by (metis mset_eq_imp_distinct_iff)

lemma ranked_empty_iff: "sort_ok env \<Longrightarrow> ranked_links env pool = [] \<longleftrightarrow> live_ids pool = []"
  using ranked_length [of env pool] by (metis length_0_conv)

lemma index_of_id_sound:
  "index_of_id want es i = Some k \<Longrightarrow> i \<le> k \<and> k - i < length es \<and> fst (es ! (k - i)) = want"
  by (induction want es i rule: index_of_id.induct) (auto simp: nth_Cons' Suc_diff_le split: if_splits)

lemma index_of_id_complete: "want \<in> fst ` set es \<Longrightarrow> \<exists>k. index_of_id want es i = Some k"
  by (induction want es i rule: index_of_id.induct) auto

lemma primary_index_bound: "ranked \<noteq> [] \<Longrightarrow> primary_index want ranked < length ranked"
  using index_of_id_sound [of want ranked 0]
  by (auto simp: primary_index_def split: option.splits)

lemma primary_index_want:
  "want \<noteq> 0 \<Longrightarrow> want \<in> fst ` set ranked \<Longrightarrow> fst (ranked ! primary_index want ranked) = want"
  using index_of_id_complete [of want ranked 0] index_of_id_sound [of want ranked 0]
  by (auto simp: primary_index_def)

lemma probe_index_bound:
  "0 < others \<Longrightarrow> probe_index rotation others pidx < Suc others \<and> probe_index rotation others pidx \<noteq> pidx"
  using mod_less_divisor [of others "unat rotation"] by (auto simp: probe_index_def Let_def less_SucI)

section \<open>The selection\<close>

lemma select_weighted_ids: "set (fst (select_weighted sel ranked)) \<subseteq> fst ` set ranked"
proof -
  have "primary_index (sel_primary sel) ranked < length ranked" if "ranked \<noteq> []"
    using that by (rule primary_index_bound)
  moreover have "probe_index (sel_rotation sel) (length ranked - 1) pidx < length ranked"
    if "1 < length ranked" for pidx
    using that probe_index_bound [of "length ranked - 1" "sel_rotation sel" pidx] by (simp; linarith)
  ultimately show ?thesis
    by (auto simp: select_weighted_def Let_def intro!: imageI nth_mem)
qed

lemma select_mode_cases:
  obtains "sel_mode sel = MULTIPATH_BEST" | "sel_mode sel = MULTIPATH_ALL"
  | "\<And>env pool. pool \<noteq> [] \<Longrightarrow> select env pool sel = select_weighted sel (ranked_links env pool)"
  by (cases "sel_mode sel") (auto simp: select_def Let_def)

lemma select_subset:
  assumes "sort_ok env"
  shows "set (fst (select env pool sel)) \<subseteq> set (live_ids pool)"
proof (cases "pool = []")
  case False
  show ?thesis
  proof (rule select_mode_cases [of sel])
    assume "\<And>env pool. pool \<noteq> [] \<Longrightarrow> select env pool sel = select_weighted sel (ranked_links env pool)"
    then show ?thesis
      using False select_weighted_ids [of sel "ranked_links env pool"] ranked_ids [OF assms, of pool] by simp
  qed (use False ranked_ids [OF assms, of pool] in \<open>auto simp: select_def Let_def\<close>)
qed (simp add: select_def)

lemma select_empty_iff:
  assumes "sort_ok env"
  shows "fst (select env pool sel) = [] \<longleftrightarrow> live_ids pool = []"
proof (cases "pool = []")
  case False
  then show ?thesis
    using ranked_empty_iff [OF assms, of pool]
    by (auto simp: select_def select_weighted_def Let_def split: ZFGW_MULTIPATH_MODE.splits)
qed (simp add: select_def live_ids_def)

lemma select_weighted_distinct:
  assumes "distinct (map fst ranked)"
  shows "distinct (fst (select_weighted sel ranked))"
proof (cases "1 < length ranked")
  case True
  let ?pidx = "primary_index (sel_primary sel) ranked"
  let ?q = "probe_index (sel_rotation sel) (length ranked - 1) ?pidx"
  have "?pidx < length ranked" "?q < length ranked" "?q \<noteq> ?pidx"
    using True primary_index_bound [of ranked "sel_primary sel"]
      probe_index_bound [of "length ranked - 1" "sel_rotation sel" ?pidx] by fastforce+
  then have "map fst ranked ! ?q \<noteq> map fst ranked ! ?pidx"
    using assms by (simp add: nth_eq_iff_index_eq del: nth_map)
  then show ?thesis
    using True \<open>?pidx < length ranked\<close> \<open>?q < length ranked\<close> by (auto simp: select_weighted_def Let_def)
qed (simp add: select_weighted_def Let_def)

lemma select_distinct:
  assumes "sort_ok env" and "distinct (live_ids pool)"
  shows "distinct (fst (select env pool sel))"
proof (cases "pool = []")
  case False
  show ?thesis
  proof (rule select_mode_cases [of sel])
    assume "\<And>env pool. pool \<noteq> [] \<Longrightarrow> select env pool sel = select_weighted sel (ranked_links env pool)"
    then show ?thesis
      using False select_weighted_distinct [OF ranked_distinct [OF assms]] by simp
  qed (use False ranked_distinct [OF assms] in \<open>auto simp: select_def Let_def\<close>)
qed (simp add: select_def)

text \<open>The rotation: \<open>others\<close> consecutive selections over the same ranking probe every link but the
  primary.\<close>

lemma probe_cover:
  assumes "i < Suc others" "i \<noteq> pidx" "pidx < Suc others" "unat rotation + others < 2 ^ 64"
  obtains j where "j < others" "probe_index (rotation + of_nat j) others pidx = i"
proof -
  define r where "r = (if i < pidx then i else i - 1)"
  define n where "n = unat rotation mod others"
  have r: "r < others" using assms by (auto simp: r_def)
  then have n: "n < others" by (simp add: n_def)
  define j where "j = (if n \<le> r then r - n else r + others - n)"
  have j: "j < others" using r n by (auto simp: j_def)
  have "unat (rotation + of_nat j) = unat rotation + j"
    using assms(4) j by (simp add: unat_word_ariths unat_of_nat)
  moreover have "(unat rotation + j) mod others = r"
  proof -
    have "(unat rotation + j) mod others = (n + j) mod others"
      by (simp add: n_def mod_add_left_eq)
    also have "\<dots> = r"
      using r n by (auto simp: j_def mod_if)
    finally show ?thesis .
  qed
  ultimately have "probe_index (rotation + of_nat j) others pidx = i"
    using assms by (auto simp: probe_index_def r_def Let_def)
  with j show ?thesis by (rule that)
qed

section \<open>Which links are chosen\<close>

lemma sort_ok_open_env: "sort_ok open_env"
  unfolding sort_ok_def
proof (intro allI conjI)
  fix xs :: "(u32 \<times> rat) list"
  show "mset (e_sort open_env xs) = mset xs" by (simp add: open_env_def)
  have "sorted (map (\<lambda>e. - snd e) (sort_key (\<lambda>e. - snd e) xs))" by (rule sorted_sort_key)
  then show "sorted_wrt (\<lambda>a b. \<not> snd b > snd a) (e_sort open_env xs)"
    by (simp add: open_env_def sorted_map not_less)
qed

definition sample_pool :: "channel list" where
  "sample_pool = [(new_channel 4 CHANNEL_TCP 100)\<lparr>ch_connected := True\<rparr>, new_channel 5 CHANNEL_TCP 100,
     (new_channel 6 CHANNEL_TCP 200)\<lparr>ch_connected := True\<rparr>, (new_channel 8 CHANNEL_TCP 50)\<lparr>ch_connected := True\<rparr>]"

lemma sample_pool_ids [simp]: "live_ids sample_pool = [4, 6, 8]"
  by (simp add: sample_pool_def live_ids_def isLive_def new_channel_def)

theorem select_picks_live:
  assumes "sort_ok env" and "distinct (live_ids pool)"
  shows "set (fst (select env pool sel)) \<subseteq> set (live_ids pool) \<and> distinct (fst (select env pool sel)) \<and>
    (fst (select env pool sel) = [] \<longleftrightarrow> live_ids pool = [])"
  using select_subset [OF assms(1)] select_distinct [OF assms] select_empty_iff [OF assms(1)] by blast

theorem select_picks_live_witness:
  "set (fst (select open_env sample_pool LinkSelector_init)) \<subseteq> {4, 6, 8} \<and>
   fst (select open_env sample_pool LinkSelector_init) \<noteq> []"
  using select_picks_live [OF sort_ok_open_env, of sample_pool LinkSelector_init] by simp

lemma ranked_set: "sort_ok env \<Longrightarrow>
    set (ranked_links env pool) = (\<lambda>c. (ch_channel_id c, link_weight env c)) ` {c \<in> set pool. isLive c}"
  using mset_eq_setD [of "ranked_links env pool" "map (\<lambda>c. (ch_channel_id c, link_weight env c)) (filter isLive pool)"]
  by (simp add: ranked_links_def sort_ok_def)

lemma ranked_member: "e \<in> set (ranked_links env pool) \<Longrightarrow> sort_ok env \<Longrightarrow>
    \<exists>c \<in> set pool. isLive c \<and> e = (ch_channel_id c, link_weight env c)"
proof -
  assume e: "e \<in> set (ranked_links env pool)" and "sort_ok env"
  with ranked_set [of env pool] show ?thesis by auto
qed

lemma ranked_heaviest:
  assumes "sort_ok env" and "c \<in> set pool" "isLive c" and "ranked_links env pool = e # es"
  shows "link_weight env c \<le> snd e"
proof -
  have "(ch_channel_id c, link_weight env c) \<in> set (e # es)"
    using assms ranked_set [OF assms(1), of pool] by auto
  moreover have "sorted_wrt (\<lambda>a b. \<not> snd b > snd a) (ranked_links env pool)"
    using assms(1) by (simp only: ranked_links_def sort_ok_def)
  then have "sorted_wrt (\<lambda>a b. \<not> snd b > snd a) (e # es)"
    by (simp only: assms(4))
  ultimately show ?thesis by (auto simp: not_less)
qed

text \<open>The link \<^verbatim>\<open>select\<close> puts first in its default mode: the wanted primary while it is live, else
  a link no live link outweighs.\<close>

text \<open>C36: In the default WEIGHTED mode the first link chosen is the fed-back primary if that is live, else a live
  link that no live link outweighs; one other link is probed when there is one.\<close>

theorem select_weighted_first:
  assumes "sort_ok env" and "sel_mode sel = MULTIPATH_WEIGHTED" and "live_ids pool \<noteq> []"
  shows "\<exists>c \<in> set pool. isLive c \<and> hd (fst (select env pool sel)) = ch_channel_id c \<and>
    (if sel_primary sel \<noteq> 0 \<and> sel_primary sel \<in> set (live_ids pool) then ch_channel_id c = sel_primary sel
     else (\<forall>d \<in> set pool. isLive d \<longrightarrow> link_weight env d \<le> link_weight env c)) \<and>
    length (fst (select env pool sel)) = min 2 (length (live_ids pool))"
proof -
  have pool: "pool \<noteq> []" using assms(3) by (auto simp: live_ids_def)
  obtain e es where r: "ranked_links env pool = e # es"
    using ranked_empty_iff [OF assms(1), of pool] assms(3) by (cases "ranked_links env pool") auto
  let ?i = "primary_index (sel_primary sel) (e # es)"
  have i: "?i < length (e # es)" by (rule primary_index_bound) simp
  have sel: "select env pool sel = select_weighted sel (e # es)"
    using pool assms(2) r by (simp add: select_def)
  have len: "length (fst (select env pool sel)) = min 2 (length (live_ids pool))"
    using ranked_length [OF assms(1), of pool] r by (simp add: sel select_weighted_def Let_def)
  have hd: "hd (fst (select env pool sel)) = fst ((e # es) ! ?i)"
    by (simp add: sel select_weighted_def Let_def)
  obtain c where c: "c \<in> set pool" "isLive c" "(e # es) ! ?i = (ch_channel_id c, link_weight env c)"
    using ranked_member [OF _ assms(1), of "(e # es) ! ?i" pool] nth_mem [OF i] r by auto
  show ?thesis
  proof (cases "sel_primary sel \<noteq> 0 \<and> sel_primary sel \<in> set (live_ids pool)")
    case True
    then have "fst ((e # es) ! ?i) = sel_primary sel"
      using primary_index_want [of "sel_primary sel" "e # es"] ranked_ids [OF assms(1), of pool] r by auto
    with c hd len True show ?thesis by auto
  next
    case False
    moreover have "index_of_id (sel_primary sel) (e # es) 0 = Some k \<Longrightarrow> sel_primary sel \<in> set (live_ids pool)" for k
      using index_of_id_sound [of "sel_primary sel" "e # es" 0 k] nth_mem [of k "e # es"]
        ranked_ids [OF assms(1), of pool] r by (metis diff_zero imageI)
    ultimately have "?i = 0"
      by (auto simp: primary_index_def split: option.split simp del: index_of_id.simps)
    then have "\<forall>d \<in> set pool. isLive d \<longrightarrow> link_weight env d \<le> link_weight env c"
      using ranked_heaviest [OF assms(1) _ _ r] c(3) by simp
    with c hd len False show ?thesis by auto
  qed
qed

theorem select_weighted_first_witness:
  "hd (fst (select open_env sample_pool (setPrimaryChannel 8 LinkSelector_init))) = 8"
  using select_weighted_first [OF sort_ok_open_env, of "setPrimaryChannel 8 LinkSelector_init" sample_pool]
  by (auto simp: setPrimaryChannel_def LinkSelector_init_def)

lemma select_rotates:
  assumes "sort_ok env" and "sel_mode sel = MULTIPATH_WEIGHTED" and "1 < length (live_ids pool)"
  shows "((\<lambda>s. snd (select env pool s)) ^^ j) sel = sel\<lparr>sel_rotation := sel_rotation sel + of_nat j\<rparr>"
proof (induction j)
  case (Suc j)
  have "pool \<noteq> []" using assms(3) by (auto simp: live_ids_def)
  then show ?case
    using Suc assms(2,3) ranked_length [OF assms(1), of pool]
    by (auto simp: select_def select_weighted_def Let_def algebra_simps)
qed simp

text \<open>C37: In WEIGHTED mode with n > 1 live links, every live link is among the chosen ones of some of the next n
  - 1 selections, as long as the size_t rotation counter does not wrap.\<close>

theorem probes_reach_every_link:
  assumes "sort_ok env" and "sel_mode sel = MULTIPATH_WEIGHTED" and "1 < length (live_ids pool)"
    and "cid \<in> set (live_ids pool)" and "unat (sel_rotation sel) + length (live_ids pool) < 2 ^ 64"
  shows "\<exists>j < length (live_ids pool) - 1. cid \<in> set (fst (select env pool (((\<lambda>s. snd (select env pool s)) ^^ j) sel)))"
proof -
  let ?ranked = "ranked_links env pool"
  let ?n = "length (live_ids pool) - 1" and ?p = "primary_index (sel_primary sel) ?ranked"
  have len: "length ?ranked = Suc ?n" using ranked_length [OF assms(1), of pool] assms(3) by simp
  have pool: "pool \<noteq> []" using assms(3) by (auto simp: live_ids_def)
  have p: "?p < Suc ?n" using primary_index_bound [of ?ranked "sel_primary sel"] len by force
  obtain i where i: "i < Suc ?n" "fst (?ranked ! i) = cid"
    using assms(4) ranked_ids [OF assms(1), of pool] len by (metis imageE in_set_conv_nth)
  have sel: "fst (select env pool (((\<lambda>s. snd (select env pool s)) ^^ j) sel)) =
      [fst (?ranked ! ?p), fst (?ranked ! probe_index (sel_rotation sel + of_nat j) ?n ?p)]" for j
    using pool assms(2) len assms(3) unfolding select_rotates [OF assms(1-3)]
    by (auto simp: select_def select_weighted_def Let_def)
  show ?thesis
  proof (cases "i = ?p")
    case True
    then show ?thesis using i(2) assms(3) unfolding sel by (intro exI [of _ 0]) simp
  next
    case False
    have "unat (sel_rotation sel) + ?n < 2 ^ 64" using assms(5) by linarith
    from probe_cover [OF i(1) False p this] obtain j where
      "j < ?n" "probe_index (sel_rotation sel + of_nat j) ?n ?p = i" by blast
    then show ?thesis using i(2) unfolding sel by (intro exI [of _ j]) simp
  qed
qed

theorem probes_reach_every_link_witness:
  "\<exists>j < 2. 8 \<in> set (fst (select open_env sample_pool
     (((\<lambda>s. snd (select open_env sample_pool s)) ^^ j) LinkSelector_init)))"
proof -
  have "\<exists>j < length (live_ids sample_pool) - 1. 8 \<in> set (fst (select open_env sample_pool
      (((\<lambda>s. snd (select open_env sample_pool s)) ^^ j) LinkSelector_init)))"
    by (rule probes_reach_every_link [OF sort_ok_open_env]) (simp_all add: LinkSelector_init_def)
  then show ?thesis by (simp add: numeral_2_eq_2)
qed

theorem select_best_and_all:
  assumes "sort_ok env"
  shows "(sel_mode sel = MULTIPATH_ALL \<longrightarrow> mset (fst (select env pool sel)) = mset (live_ids pool)) \<and>
    (sel_mode sel = MULTIPATH_BEST \<longrightarrow> live_ids pool \<noteq> [] \<longrightarrow>
       (\<exists>c \<in> set pool. isLive c \<and> fst (select env pool sel) = [ch_channel_id c] \<and>
          (\<forall>d \<in> set pool. isLive d \<longrightarrow> link_weight env d \<le> link_weight env c)))"
proof (intro conjI impI)
  show "mset (fst (select env pool sel)) = mset (live_ids pool)" if "sel_mode sel = MULTIPATH_ALL"
    using that ranked_mset [OF assms, of pool] by (auto simp: select_def live_ids_def)
  assume best: "sel_mode sel = MULTIPATH_BEST" and live: "live_ids pool \<noteq> []"
  obtain e es where r: "ranked_links env pool = e # es"
    using ranked_empty_iff [OF assms, of pool] live by (cases "ranked_links env pool") auto
  obtain c where c: "c \<in> set pool" "isLive c" "e = (ch_channel_id c, link_weight env c)"
    using ranked_member [OF _ assms, of e pool] r by auto
  have "fst (select env pool sel) = [ch_channel_id c]"
    using best r c live by (auto simp: select_def live_ids_def)
  moreover have "\<forall>d \<in> set pool. isLive d \<longrightarrow> link_weight env d \<le> link_weight env c"
    using ranked_heaviest [OF assms _ _ r] c(3) by simp
  ultimately show "\<exists>c \<in> set pool. isLive c \<and> fst (select env pool sel) = [ch_channel_id c] \<and>
      (\<forall>d \<in> set pool. isLive d \<longrightarrow> link_weight env d \<le> link_weight env c)" using c by blast
qed

theorem select_best_and_all_witness:
  "mset (fst (select open_env sample_pool (setMode MULTIPATH_ALL LinkSelector_init))) = {#4, 6, 8#} \<and>
   length (fst (select open_env sample_pool (setMode MULTIPATH_BEST LinkSelector_init))) = 1"
  using select_best_and_all [OF sort_ok_open_env, of "setMode MULTIPATH_ALL LinkSelector_init" sample_pool]
    select_best_and_all [OF sort_ok_open_env, of "setMode MULTIPATH_BEST LinkSelector_init" sample_pool]
  by (auto simp: setMode_def)

end
