(* ===== verification/Fgw_Manager.thy ===== *)
theory Fgw_Manager
  imports Fgw_Selector
begin

text \<open>
  \<^verbatim>\<open>ChannelManager\<close> and \<^verbatim>\<open>FgwUtpContextHolder\<close> of \<^verbatim>\<open>src/src/zfgw_channel_manager.{h,cpp}\<close>. Channels
  are shared by pointer (the map, the vectors \<^verbatim>\<open>liveChannels()\<close> returns, the handlers), so the
  manager record carries a heap: \<open>m_heap\<close> maps a channel reference to the object, a new object
  gets the reference \<open>m_next_ref\<close>. Delayed work is explicit: \<open>m_timers\<close> lists the one-shot timers
  handed to the reactor, with their delay in milliseconds, and \<open>fire_timer\<close> runs one of them;
  \<open>m_heartbeat_timer\<close> is the period of the repeating timer. The callbacks a channel gets from
  \<^verbatim>\<open>addChannel\<close> and \<^verbatim>\<open>makeAcceptedChannel\<close> are the same three for every channel; the transport events
  \<open>tcp_on_open\<close> and \<open>tcp_on_close\<close> below call them directly. \<^verbatim>\<open>on_opened_\<close> and \<^verbatim>\<open>on_closed_\<close> are
  never set in the repository. \<^verbatim>\<open>zce::Mutex\<close> is recursive, which \<^verbatim>\<open>start\<close> calling \<^verbatim>\<open>addChannel\<close>
  relies on.
\<close>

type_synonym chan_ref = nat

text \<open>Encoding into a local buffer of \<open>room\<close> bytes, as every caller of the encoder does, and the
  bytes it then sends. The buffer's initial contents do not matter.\<close>

definition encode_block :: "nat \<Rightarrow> FgwSegmentHeader \<Rightarrow> bytes option \<Rightarrow> int \<Rightarrow> int + bytes" where
  "encode_block room hdr payload plen =
     (case fgwSegmentEncode (Some (replicate room 0)) (int room) hdr payload plen of (wrote, out) \<Rightarrow>
        if wrote < 0 then Inl wrote else Inr (take (nat wrote) (the out)))"

lemma encode_block_ok:
  assumes "wire_hdr_size hdr + length p \<le> room" and "length p \<le> MAX_PAYLOAD"
  shows "encode_block room hdr (Some p) (int (length p)) = Inr (segment_image hdr p)"
proof -
  have nat: "nat (int (wire_hdr_size hdr) + int (length p)) = wire_hdr_size hdr + length p"
    by simp
  show ?thesis
    using assms encode_writes [of hdr p "int room" "replicate room 0"]
    by (simp add: encode_block_def nat)
qed

lemma encode_block_frame: "encode_block room hdr payload n = Inr frame \<Longrightarrow> is_frame frame"
  using encode_frame [of _ "replicate room 0" "int room" hdr payload n]
  by (auto simp: encode_block_def split: prod.splits if_splits)

lemma encode_block_empty:
  "wire_hdr_size hdr \<le> room \<Longrightarrow> encode_block room hdr None 0 = Inr (segment_image hdr [])"
  using encode_block_ok [of hdr "[]" room]
  by (simp add: encode_block_def encode_no_payload [simplified])

section \<open>FgwUtpContextHolder without libutp\<close>

record utp_holder =
  uh_udp :: bool
  uh_tick_timer :: bool

definition utp_holder_start :: "fgw_env \<Rightarrow> string \<Rightarrow> u16 \<Rightarrow> utp_holder \<Rightarrow> int \<times> utp_holder" where
  "utp_holder_start env bind_ip bind_port uh =
     (if e_udp_listen env (if bind_ip = [] then ''0.0.0.0'' else bind_ip) bind_port < 0
      then (errcode ERR_LISTENFAIL, uh\<lparr>uh_udp := False\<rparr>)
      else (0, uh\<lparr>uh_udp := True, uh_tick_timer := True\<rparr>))"

definition utp_holder_stop :: "utp_holder \<Rightarrow> utp_holder" where
  "utp_holder_stop uh = uh\<lparr>uh_tick_timer := False, uh_udp := False\<rparr>"

section \<open>ChannelManager\<close>

datatype mgr_timer =
  TRemove u32
| TReconnect FgwChannelConfig

record manager =
  m_channels :: "(u32, chan_ref) std_map"
  m_heap :: "chan_ref \<Rightarrow> channel"
  m_next_ref :: chan_ref
  m_accepted_id_seq :: u32
  m_selector :: LinkSelector
  m_config :: FgwConfig
  m_heartbeat_timer :: "nat option"
  m_link_acceptor :: bool
  m_shared_utp :: "utp_holder option"
  m_bytes_subscribers :: "nat list"
  m_timers :: "(nat \<times> mgr_timer) list"

definition manager_init :: manager where
  "manager_init =
     \<lparr>m_channels = [], m_heap = (\<lambda>_. new_channel 0 CHANNEL_TCP 0), m_next_ref = 0,
      m_accepted_id_seq = 0x80000000, m_selector = LinkSelector_init, m_config = FgwConfig_init,
      m_heartbeat_timer = None, m_link_acceptor = False, m_shared_utp = None,
      m_bytes_subscribers = [], m_timers = []\<rparr>"

definition upd_chan :: "chan_ref \<Rightarrow> (channel \<Rightarrow> channel) \<Rightarrow> manager \<Rightarrow> manager" where
  "upd_chan r f m = m\<lparr>m_heap := (m_heap m)(r := f (m_heap m r))\<rparr>"

definition alloc_chan :: "channel \<Rightarrow> manager \<Rightarrow> chan_ref \<times> manager" where
  "alloc_chan c m =
     (m_next_ref m, m\<lparr>m_heap := (m_heap m)(m_next_ref m := c), m_next_ref := Suc (m_next_ref m)\<rparr>)"

definition chan_sendBytes :: "fgw_env \<Rightarrow> u32 \<Rightarrow> bytes \<Rightarrow> chan_ref \<Rightarrow> manager \<Rightarrow> int \<times> manager" where
  "chan_sendBytes env now buf r m =
     (case sendBytes env now buf (m_heap m r) of (ret, c) \<Rightarrow> (ret, upd_chan r (\<lambda>_. c) m))"

definition fgwProcessGeneration :: "fgw_env \<Rightarrow> u32" where
  "fgwProcessGeneration env = (if e_random_device env = 0 then 1 else e_random_device env)"

definition stopLinkListener :: "manager \<Rightarrow> manager" where
  "stopLinkListener m = m\<lparr>m_link_acceptor := False\<rparr>"

definition startLinkListener :: "fgw_env \<Rightarrow> string \<Rightarrow> u16 \<Rightarrow> manager \<Rightarrow> int \<times> manager" where
  "startLinkListener env bind_ip bind_port m =
     (if m_link_acceptor m then (errcode ERR_BUSY, m)
      else if e_acceptor_listen env (if bind_ip = [] then ''0.0.0.0'' else bind_ip) bind_port < 0
      then (errcode ERR_LISTENFAIL, m)
      else (0, m\<lparr>m_link_acceptor := True\<rparr>))"

definition makeAcceptedChannel :: "manager \<Rightarrow> chan_ref \<times> manager" where
  "makeAcceptedChannel m =
     (let cid = m_accepted_id_seq m;
          m = m\<lparr>m_accepted_id_seq := cid + 1\<rparr>;
          (r, m) = alloc_chan (markAccepted (new_channel cid CHANNEL_TCP 100)) m
      in (r, m\<lparr>m_channels := smap_set cid r (m_channels m)\<rparr>))"

text \<open>The factory the link acceptor runs for each accepted connection.\<close>

definition accept_link :: "manager \<Rightarrow> chan_ref \<times> manager" where
  "accept_link m = (case makeAcceptedChannel m of (r, m) \<Rightarrow> (r, upd_chan r createAcceptedHandler m))"

definition hello_message :: "fgw_env \<Rightarrow> manager \<Rightarrow> channel \<Rightarrow> FgwHello" where
  "hello_message env m c =
     \<lparr>hello_proto_version = kFgwProtoVersion, hello_role = cfg_role (m_config m),
      hello_ingress_id = cfg_ingress_id (m_config m), hello_outport_id = 0,
      hello_channel_id = ch_channel_id c, hello_generation = fgwProcessGeneration env\<rparr>"

definition sendHello :: "fgw_env \<Rightarrow> u32 \<Rightarrow> chan_ref \<Rightarrow> manager \<Rightarrow> manager" where
  "sendHello env now r m =
     (let hello = hello_message env m (m_heap m r);
          (plen, payload) = zds_pack_FgwHello (e_zds env) (Some 64) hello True
      in if plen < 0 then m
         else
           let hdr = FgwSegmentHeader_init\<lparr>hdr_flags := FLAG_HELLO, hdr_payload_len := word_of_int plen,
                       hdr_session_id := 0, hdr_seq_num := 0, hdr_ingress_id := cfg_ingress_id (m_config m)\<rparr>
           in case encode_block 128 hdr (Some payload) plen of
                Inl e \<Rightarrow> m
              | Inr frame \<Rightarrow> snd (chan_sendBytes env now frame r m))"

definition startHeartbeat :: "manager \<Rightarrow> manager" where
  "startHeartbeat m =
     (let interval = (if cfg_heartbeat_interval (m_config m) > 0
                      then unat (cfg_heartbeat_interval (m_config m)) else 5)
      in m\<lparr>m_heartbeat_timer := Some (interval * 1000)\<rparr>)"

definition sendHeartbeat :: "fgw_env \<Rightarrow> u32 \<Rightarrow> chan_ref \<Rightarrow> manager \<Rightarrow> manager" where
  "sendHeartbeat env now r m =
     (let hdr = FgwSegmentHeader_init\<lparr>hdr_flags := FLAG_HEARTBEAT, hdr_payload_len := 0,
                  hdr_session_id := 0, hdr_seq_num := 0, hdr_ingress_id := cfg_ingress_id (m_config m)\<rparr>
      in case encode_block 64 hdr None 0 of
           Inl e \<Rightarrow> m
         | Inr frame \<Rightarrow> snd (chan_sendBytes env now frame r m))"

text \<open>The part of \<^verbatim>\<open>onHeartbeatTick\<close> that looks after the channels; the timeout is in milliseconds.\<close>

definition link_timeout_ms :: "FgwConfig \<Rightarrow> u32" where
  "link_timeout_ms cfg = (if cfg_link_timeout cfg > 0 then ucast (cfg_link_timeout cfg) else 15) * 1000"

definition heartbeat_channel :: "fgw_env \<Rightarrow> u32 \<Rightarrow> u32 \<Rightarrow> chan_ref \<Rightarrow> manager \<Rightarrow> manager" where
  "heartbeat_channel env now timeout r m =
     (if \<not> ch_connected (m_heap m r) then m
      else upd_chan r (evaluateStall now timeout) (sendHeartbeat env now r m))"

definition heartbeat_channels :: "fgw_env \<Rightarrow> u32 \<Rightarrow> manager \<Rightarrow> manager" where
  "heartbeat_channels env now m =
     (let timeout = link_timeout_ms (m_config m)
      in foldl (\<lambda>m r. heartbeat_channel env now timeout r m) m (map snd (m_channels m)))"

definition sharedUtpContext :: "fgw_env \<Rightarrow> string \<Rightarrow> u16 \<Rightarrow> manager \<Rightarrow> manager" where
  "sharedUtpContext env bind_ip bind_port m =
     (case m_shared_utp m of
        Some uh \<Rightarrow> m
      | None \<Rightarrow>
          (case utp_holder_start env bind_ip bind_port \<lparr>uh_udp = False, uh_tick_timer = False\<rparr> of
             (ret, uh) \<Rightarrow> m\<lparr>m_shared_utp := (if ret < 0 then None else Some uh)\<rparr>))"

definition addChannel :: "fgw_env \<Rightarrow> u32 \<Rightarrow> FgwChannelConfig \<Rightarrow> manager \<Rightarrow> int \<times> manager" where
  "addChannel env now cfg m =
     (if smap_count (m_channels m) (cc_channel_id cfg) then (errcode ERR_CHANNELEXISTS, m)
      else if cc_kind cfg \<noteq> 0 \<and> cc_kind cfg \<noteq> 1 then (errcode ERR_INVALIDCONFIG, m)
      else
        let m = (if cc_kind cfg = 0 then m else sharedUtpContext env [] 0 m);
            kind = (if cc_kind cfg = 0 then CHANNEL_TCP else CHANNEL_UTP);
            (r, m) = alloc_chan (new_channel (cc_channel_id cfg) kind (cc_priority cfg)) m;
            m = m\<lparr>m_channels := smap_set (cc_channel_id cfg) r (m_channels m)\<rparr>;
            (ret, c) = chan_connect env now (cc_remote cfg) (m_heap m r)
        in (ret, upd_chan r (\<lambda>_. c) m))"

definition removeChannel :: "u32 \<Rightarrow> manager \<Rightarrow> int \<times> manager" where
  "removeChannel cid m =
     (case smap_find (m_channels m) cid of
        None \<Rightarrow> (errcode ERR_CHANNELNOTFOUND, m)
      | Some r \<Rightarrow>
          let m = upd_chan r chan_close m
          in (0, m\<lparr>m_channels := smap_erase cid (m_channels m)\<rparr>))"

definition mgr_start :: "fgw_env \<Rightarrow> u32 \<Rightarrow> FgwConfig \<Rightarrow> manager \<Rightarrow> int \<times> manager" where
  "mgr_start env now cfg m =
     (let m = m\<lparr>m_config := cfg\<rparr>;
          m = m\<lparr>m_selector := setMode (multipath_mode_cast (cfg_multipath_mode cfg)) (m_selector m)\<rparr>;
          m = foldl (\<lambda>m ccfg. snd (addChannel env now ccfg m)) m (cfg_channels cfg)
      in (0, startHeartbeat m))"

definition mgr_stop :: "manager \<Rightarrow> manager" where
  "mgr_stop m =
     (let m = stopLinkListener m;
          m = m\<lparr>m_heartbeat_timer := None\<rparr>;
          m = m\<lparr>m_bytes_subscribers := []\<rparr>;
          m = foldl (\<lambda>m r. upd_chan r chan_close m) m (map snd (m_channels m));
          m = m\<lparr>m_channels := []\<rparr>
      in m\<lparr>m_shared_utp := None\<rparr>)"

definition liveChannels :: "manager \<Rightarrow> chan_ref list" where
  "liveChannels m = filter (\<lambda>r. isLive (m_heap m r)) (map snd (m_channels m))"

definition findChannel :: "manager \<Rightarrow> u32 \<Rightarrow> chan_ref option" where
  "findChannel m cid = smap_find (m_channels m) cid"

definition addBytesSubscriber :: "nat \<Rightarrow> manager \<Rightarrow> manager" where
  "addBytesSubscriber s m =
     (if s \<in> set (m_bytes_subscribers m) then m
      else m\<lparr>m_bytes_subscribers := m_bytes_subscribers m @ [s]\<rparr>)"

definition removeBytesSubscriber :: "nat \<Rightarrow> manager \<Rightarrow> manager" where
  "removeBytesSubscriber s m = m\<lparr>m_bytes_subscribers := filter (\<lambda>x. x \<noteq> s) (m_bytes_subscribers m)\<rparr>"

definition collectLinkQualities :: "manager \<Rightarrow> FgwLinkQuality list" where
  "collectLinkQualities m =
     map (\<lambda>r. let c = m_heap m r; q = ch_quality c in
       \<lparr>flq_channel_id = ch_channel_id c, flq_connected = (if ch_connected c then 1 else 0),
        flq_rtt_ms = lq_rtt_ms q, flq_loss_rate = lq_loss_rate q, flq_bytes_sent = lq_bytes_sent q,
        flq_bytes_recv = lq_bytes_recv q, flq_send_segments = lq_send_segments q,
        flq_recv_segments = lq_recv_segments q, flq_rexmit_segments = lq_rexmit_segments q\<rparr>)
     (map snd (m_channels m))"

definition onChannelConnected :: "fgw_env \<Rightarrow> u32 \<Rightarrow> chan_ref \<Rightarrow> int \<Rightarrow> manager \<Rightarrow> manager" where
  "onChannelConnected env now r err m = (if err \<ge> 0 then sendHello env now r m else m)"

definition scheduleReconnect :: "u32 \<Rightarrow> FgwEndpoint \<Rightarrow> u32 \<Rightarrow> u32 \<Rightarrow> nat \<Rightarrow> manager \<Rightarrow> manager" where
  "scheduleReconnect cid remote kind priority backoff_seconds m =
     m\<lparr>m_timers := m_timers m @
         [(backoff_seconds * 1000,
           TReconnect \<lparr>cc_channel_id = cid, cc_kind = ucast kind, cc_remote = remote, cc_priority = priority\<rparr>)]\<rparr>"

definition onChannelClosed :: "chan_ref \<Rightarrow> manager \<Rightarrow> manager" where
  "onChannelClosed r m =
     (let cid = ch_channel_id (m_heap m r)
      in if ch_accepted (m_heap m r) then m\<lparr>m_timers := m_timers m @ [(1, TRemove cid)]\<rparr>
         else
           let (remote, kind, priority) =
                 (case find (\<lambda>c. cc_channel_id c = cid) (cfg_channels (m_config m)) of
                    Some c \<Rightarrow> (cc_remote c, ucast (cc_kind c), cc_priority c)
                  | None \<Rightarrow> (FgwEndpoint_init, 0, 100))
           in scheduleReconnect cid remote kind priority
                (if cfg_reconnect_max (m_config m) > 0 then unat (cfg_reconnect_max (m_config m)) else 30) m)"

text \<open>What the two one-shot timers run.\<close>

definition run_timer :: "fgw_env \<Rightarrow> u32 \<Rightarrow> mgr_timer \<Rightarrow> manager \<Rightarrow> manager" where
  "run_timer env now t m =
     (case t of
        TRemove cid \<Rightarrow> snd (removeChannel cid m)
      | TReconnect cfg \<Rightarrow> snd (addChannel env now cfg (snd (removeChannel (cc_channel_id cfg) m))))"

definition fire_timer :: "fgw_env \<Rightarrow> u32 \<Rightarrow> nat \<Rightarrow> manager \<Rightarrow> manager" where
  "fire_timer env now i m =
     (if i < length (m_timers m)
      then run_timer env now (snd (m_timers m ! i))
             (m\<lparr>m_timers := take i (m_timers m) @ drop (Suc i) (m_timers m)\<rparr>)
      else m)"

section \<open>Transport events\<close>

text \<open>\<^verbatim>\<open>TcpHandler::on_open\<close> and \<^verbatim>\<open>on_close\<close> of handler \<open>h\<close>: nothing happens unless the channel still
  owns the handler.\<close>

definition tcp_on_open :: "fgw_env \<Rightarrow> u32 \<Rightarrow> chan_ref \<Rightarrow> nat \<Rightarrow> manager \<Rightarrow> manager" where
  "tcp_on_open env now r h m =
     (if ch_tcp_ptr (m_heap m r) = Some h then
        (case markConnected now True (m_heap m r) of
           (err, c) \<Rightarrow> onChannelConnected env now r err (upd_chan r (\<lambda>_. c) m))
      else m)"

definition tcp_on_close :: "chan_ref \<Rightarrow> nat \<Rightarrow> manager \<Rightarrow> manager" where
  "tcp_on_close r h m =
     (if ch_tcp_ptr (m_heap m r) = Some h then onChannelClosed r (upd_chan r markClosed m) else m)"

section \<open>The invariant of the manager\<close>

text \<open>The map is keyed by the ids its channels carry, no channel is registered twice, every
  registered channel is allocated, every object is well-formed, and no stream subscribes twice.\<close>

definition mgr_inv :: "manager \<Rightarrow> bool" where
  "mgr_inv m \<longleftrightarrow> smap_inv (m_channels m) \<and> distinct (map snd (m_channels m)) \<and>
     (\<forall>(cid, r) \<in> set (m_channels m). r < m_next_ref m \<and> ch_channel_id (m_heap m r) = cid) \<and>
     (\<forall>r. chan_inv (m_heap m r)) \<and> distinct (m_bytes_subscribers m)"

lemma mgr_inv_init: "mgr_inv manager_init"
  by (simp add: mgr_inv_def manager_init_def)

lemma upd_chan_simps [simp]:
  "m_channels (upd_chan r f m) = m_channels m" "m_next_ref (upd_chan r f m) = m_next_ref m"
  "m_selector (upd_chan r f m) = m_selector m" "m_config (upd_chan r f m) = m_config m"
  "m_bytes_subscribers (upd_chan r f m) = m_bytes_subscribers m" "m_timers (upd_chan r f m) = m_timers m"
  "m_accepted_id_seq (upd_chan r f m) = m_accepted_id_seq m"
  "m_heap (upd_chan r f m) = (m_heap m)(r := f (m_heap m r))"
  by (simp_all add: upd_chan_def)

lemma mgr_inv_upd:
  assumes "mgr_inv m" and "ch_channel_id (f (m_heap m r)) = ch_channel_id (m_heap m r)"
    and "chan_inv (f (m_heap m r))"
  shows "mgr_inv (upd_chan r f m)"
  using assms by (auto simp: mgr_inv_def)

lemma mgr_inv_frame:
  assumes "mgr_inv m" and "m_channels m' = m_channels m" "m_heap m' = m_heap m"
    "m_next_ref m' = m_next_ref m" "m_bytes_subscribers m' = m_bytes_subscribers m"
  shows "mgr_inv m'"
  using assms by (simp add: mgr_inv_def)

lemma mgr_inv_shrink:
  assumes "mgr_inv m" and "smap_inv cs" "distinct (map snd cs)" "set cs \<subseteq> set (m_channels m)"
  shows "mgr_inv (m\<lparr>m_channels := cs\<rparr>)"
  using assms by (auto simp: mgr_inv_def)

lemma mgr_inv_register:
  assumes inv: "mgr_inv m" and c: "chan_inv c" "ch_channel_id c = cid"
  shows "mgr_inv ((snd (alloc_chan c m))\<lparr>m_channels := smap_set cid (m_next_ref m) (m_channels m)\<rparr>)"
proof -
  have fresh: "m_next_ref m \<notin> snd ` set (m_channels m)"
    using inv by (force simp: mgr_inv_def)
  have "smap_inv (m_channels m)" and "distinct (map snd (m_channels m))"
    using inv by (simp_all add: mgr_inv_def)
  then show ?thesis
    using inv c fresh smap_inv_set [of "m_channels m" cid "m_next_ref m"]
      smap_set_distinct_refs [OF _ fresh, of cid] smap_set_entries [of "m_channels m" _ _ cid "m_next_ref m"]
    by (fastforce simp: mgr_inv_def alloc_chan_def)
qed

lemma mgr_inv_removeChannel: "mgr_inv m \<Longrightarrow> mgr_inv (snd (removeChannel cid m))"
proof -
  assume inv: "mgr_inv m"
  show ?thesis
  proof (cases "smap_find (m_channels m) cid")
    case (Some r)
    have close: "ch_channel_id (chan_close c) = ch_channel_id c" for c
      by (simp add: chan_defs split: ZFGW_CHANNEL_KIND.splits)
    have inv': "smap_inv (m_channels m)" "distinct (map snd (m_channels m))"
      using inv by (simp_all add: mgr_inv_def)
    have sub: "set (smap_erase cid (m_channels m)) \<subseteq> set (m_channels m)"
      and dis: "distinct (map snd (smap_erase cid (m_channels m)))"
      using inv'(2) by (auto simp: smap_erase_def distinct_map_filter)
    have "mgr_inv (upd_chan r chan_close m)"
      using inv close chan_inv_ops(7) by (intro mgr_inv_upd) (auto simp: mgr_inv_def)
    from mgr_inv_shrink [OF this smap_inv_erase [OF inv'(1), of cid] dis] sub show ?thesis
      using Some by (simp add: removeChannel_def Let_def)
  qed (simp add: removeChannel_def inv)
qed

lemma mgr_inv_sharedUtp: "mgr_inv m \<Longrightarrow> mgr_inv (sharedUtpContext env ip port m)"
  by (erule mgr_inv_frame) (auto simp: sharedUtpContext_def split: option.splits prod.splits)

lemma chan_connect_id: "ch_channel_id (snd (chan_connect env now remote c)) = ch_channel_id c"
  by (simp add: chan_defs split: ZFGW_CHANNEL_KIND.splits)

lemma mgr_inv_addChannel: "mgr_inv m \<Longrightarrow> mgr_inv (snd (addChannel env now cfg m))"
proof -
  assume inv: "mgr_inv m"
  let ?cid = "cc_channel_id cfg"
  define m1 where "m1 = (if cc_kind cfg = 0 then m else sharedUtpContext env [] 0 m)"
  define kind where "kind = (if cc_kind cfg = 0 then CHANNEL_TCP else CHANNEL_UTP)"
  define c where "c = new_channel ?cid kind (cc_priority cfg)"
  define m2 where "m2 = (snd (alloc_chan c m1))\<lparr>m_channels := smap_set ?cid (m_next_ref m1) (m_channels m1)\<rparr>"
  define c' where "c' = snd (chan_connect env now (cc_remote cfg) c)"
  have inv2: "mgr_inv m2"
    unfolding m2_def using inv mgr_inv_sharedUtp
    by (intro mgr_inv_register) (auto simp: m1_def c_def, simp add: new_channel_def)
  have heap: "m_heap m2 (m_next_ref m1) = c"
    by (simp add: m2_def alloc_chan_def)
  have "mgr_inv (upd_chan (m_next_ref m1) (\<lambda>_. c') m2)"
    using inv2 heap chan_inv_ops(8) by (intro mgr_inv_upd) (auto simp: c'_def chan_connect_id mgr_inv_def c_def)
  moreover have "snd (addChannel env now cfg m) \<in> {m, upd_chan (m_next_ref m1) (\<lambda>_. c') m2}"
    using heap by (auto simp: addChannel_def Let_def m2_def c'_def c_def kind_def m1_def alloc_chan_def
        split: prod.splits)
  ultimately show ?thesis using inv by auto
qed

lemma mgr_inv_accept: "mgr_inv m \<Longrightarrow> mgr_inv (snd (accept_link m))"
proof -
  assume inv: "mgr_inv m"
  let ?cid = "m_accepted_id_seq m"
  let ?c = "markAccepted (new_channel ?cid CHANNEL_TCP 100)"
  define m1 where "m1 = m\<lparr>m_accepted_id_seq := ?cid + 1\<rparr>"
  define m2 where "m2 = (snd (alloc_chan ?c m1))\<lparr>m_channels := smap_set ?cid (m_next_ref m1) (m_channels m1)\<rparr>"
  have inv1: "mgr_inv m1"
    by (rule mgr_inv_frame [OF inv]) (simp_all add: m1_def)
  have inv2: "mgr_inv m2"
    unfolding m2_def by (rule mgr_inv_register [OF inv1]) (simp_all add: chan_inv_ops chan_defs chan_inv_def)
  have eq: "snd (accept_link m) = upd_chan (m_next_ref m1) createAcceptedHandler m2"
    by (simp add: accept_link_def makeAcceptedChannel_def alloc_chan_def Let_def m2_def m1_def)
  show ?thesis
    unfolding eq using inv2 chan_inv_ops(9)
    by (intro mgr_inv_upd) (auto simp: mgr_inv_def createAcceptedHandler_def new_handler_def markAccepted_def)
qed

lemma chan_sendBytes_fst: "fst (chan_sendBytes env now buf r m) = fst (sendBytes env now buf (m_heap m r))"
  by (simp add: chan_sendBytes_def split: prod.splits)

lemma chan_sendBytes_snd:
  "snd (chan_sendBytes env now buf r m) = upd_chan r (\<lambda>c. snd (sendBytes env now buf c)) m"
  by (simp add: chan_sendBytes_def upd_chan_def split: prod.splits)

lemma mgr_inv_send: "mgr_inv m \<Longrightarrow> mgr_inv (snd (chan_sendBytes env now buf r m))"
  unfolding chan_sendBytes_snd
  using sendBytes_identity [of env now buf "m_heap m r"] chan_inv_identity same_identity_fields(1)
  by (intro mgr_inv_upd) (auto simp: mgr_inv_def)

lemma mgr_inv_sendHello: "mgr_inv m \<Longrightarrow> mgr_inv (sendHello env now r m)"
  by (simp add: sendHello_def Let_def mgr_inv_send split: prod.splits sum.splits)

lemma mgr_inv_sendHeartbeat: "mgr_inv m \<Longrightarrow> mgr_inv (sendHeartbeat env now r m)"
  by (simp add: sendHeartbeat_def Let_def mgr_inv_send split: sum.splits)

lemma mgr_inv_heartbeat_channel: "mgr_inv m \<Longrightarrow> mgr_inv (heartbeat_channel env now timeout r m)"
proof -
  assume "mgr_inv m"
  then have "mgr_inv (sendHeartbeat env now r m)" by (rule mgr_inv_sendHeartbeat)
  then have "mgr_inv (upd_chan r (evaluateStall now timeout) (sendHeartbeat env now r m))"
    using chan_inv_ops(1) by (intro mgr_inv_upd) (auto simp: mgr_inv_def evaluateStall_def)
  with \<open>mgr_inv m\<close> show ?thesis by (simp add: heartbeat_channel_def)
qed

text \<open>An invariant carried through a C++ \<^verbatim>\<open>for\<close> loop over a vector.\<close>

lemma foldl_inv: "P s \<Longrightarrow> (\<And>s x. P s \<Longrightarrow> P (f s x)) \<Longrightarrow> P (foldl f s xs)"
  by (induction xs arbitrary: s) auto

lemma mgr_inv_heartbeats: "mgr_inv m \<Longrightarrow> mgr_inv (heartbeat_channels env now m)"
  unfolding heartbeat_channels_def Let_def
  by (rule foldl_inv [where P = mgr_inv]) (auto intro: mgr_inv_heartbeat_channel)

lemma mgr_inv_on_open:
  assumes inv: "mgr_inv m" and tcp: "ch_kind (m_heap m r) = CHANNEL_TCP"
  shows "mgr_inv (tcp_on_open env now r h m)"
proof (cases "ch_tcp_ptr (m_heap m r) = Some h")
  case True
  let ?c = "snd (markConnected now True (m_heap m r))"
  have "chan_inv ?c"
    using inv tcp True by (intro chan_inv_markConnected) (auto simp: mgr_inv_def)
  moreover have "ch_channel_id ?c = ch_channel_id (m_heap m r)"
    by (simp add: markConnected_def Let_def)
  ultimately have "mgr_inv (upd_chan r (\<lambda>_. ?c) m)"
    using inv by (intro mgr_inv_upd)
  then show ?thesis
    using True by (simp add: tcp_on_open_def onChannelConnected_def mgr_inv_sendHello case_prod_beta)
qed (simp add: tcp_on_open_def inv)

lemma mgr_inv_onChannelClosed: "mgr_inv m \<Longrightarrow> mgr_inv (onChannelClosed r m)"
  by (erule mgr_inv_frame) (simp_all add: onChannelClosed_def scheduleReconnect_def Let_def split: prod.splits)

lemma mgr_inv_on_close: "mgr_inv m \<Longrightarrow> mgr_inv (tcp_on_close r h m)"
proof -
  assume inv: "mgr_inv m"
  then have "mgr_inv (upd_chan r markClosed m)"
    using chan_inv_ops(4) by (intro mgr_inv_upd) (auto simp: mgr_inv_def markClosed_def)
  then show ?thesis
    using inv by (simp add: tcp_on_close_def mgr_inv_onChannelClosed)
qed

lemma mgr_inv_start: "mgr_inv m \<Longrightarrow> mgr_inv (snd (mgr_start env now cfg m))"
proof -
  assume "mgr_inv m"
  then have "mgr_inv (m\<lparr>m_config := cfg,
      m_selector := setMode (multipath_mode_cast (cfg_multipath_mode cfg)) (m_selector m)\<rparr>)"
    by (erule_tac mgr_inv_frame) simp_all
  then have "mgr_inv (foldl (\<lambda>m ccfg. snd (addChannel env now ccfg m)) (m\<lparr>m_config := cfg,
      m_selector := setMode (multipath_mode_cast (cfg_multipath_mode cfg)) (m_selector m)\<rparr>) (cfg_channels cfg))"
    by (rule foldl_inv [where P = mgr_inv]) (rule mgr_inv_addChannel)
  then show ?thesis
    by (auto simp: mgr_start_def Let_def startHeartbeat_def elim!: mgr_inv_frame)
qed

lemma mgr_stop_channels: "m_channels (mgr_stop m) = [] \<and> m_bytes_subscribers (mgr_stop m) = []"
  "m_heartbeat_timer (mgr_stop m) = None \<and> \<not> m_link_acceptor (mgr_stop m) \<and> m_shared_utp (mgr_stop m) = None"
proof -
  have "m_channels (foldl (\<lambda>m r. upd_chan r chan_close m) m' rs) = m_channels m'"
    "m_bytes_subscribers (foldl (\<lambda>m r. upd_chan r chan_close m) m' rs) = m_bytes_subscribers m'"
    "m_heartbeat_timer (foldl (\<lambda>m r. upd_chan r chan_close m) m' rs) = m_heartbeat_timer m'"
    "m_link_acceptor (foldl (\<lambda>m r. upd_chan r chan_close m) m' rs) = m_link_acceptor m'" for m' rs
    by (induction rs arbitrary: m') (simp_all add: upd_chan_def)
  then show "m_channels (mgr_stop m) = [] \<and> m_bytes_subscribers (mgr_stop m) = []"
    "m_heartbeat_timer (mgr_stop m) = None \<and> \<not> m_link_acceptor (mgr_stop m) \<and> m_shared_utp (mgr_stop m) = None"
    by (simp_all add: mgr_stop_def stopLinkListener_def Let_def)
qed

lemma mgr_stop_heap:
  "m_heap (foldl (\<lambda>m r. upd_chan r chan_close m) m rs) r =
   (if r \<in> set rs then chan_close (m_heap m r) else m_heap m r)"
proof (induction rs arbitrary: m)
  case (Cons a rs)
  have "chan_close (chan_close c) = chan_close c" for c
    by (auto simp: chan_close_def tcp_close_def utp_close_def split: ZFGW_CHANNEL_KIND.splits)
  with Cons show ?case by simp
qed simp

lemma mgr_inv_stop: "mgr_inv m \<Longrightarrow> mgr_inv (mgr_stop m)"
  using mgr_stop_channels(1) [of m] mgr_stop_heap [of _ _ ] chan_inv_ops(7)
  by (auto simp: mgr_inv_def mgr_stop_def stopLinkListener_def Let_def)

lemma mgr_inv_run_timer: "mgr_inv m \<Longrightarrow> mgr_inv (run_timer env now t m)"
  by (cases t) (simp_all add: run_timer_def mgr_inv_removeChannel mgr_inv_addChannel)

lemma mgr_inv_fire_timer: "mgr_inv m \<Longrightarrow> mgr_inv (fire_timer env now i m)"
proof -
  assume inv: "mgr_inv m"
  then have "mgr_inv (m\<lparr>m_timers := ts\<rparr>)" for ts
    by (erule_tac mgr_inv_frame) simp_all
  with inv show ?thesis
    by (simp add: fire_timer_def mgr_inv_run_timer)
qed

section \<open>Runs of the manager\<close>

text \<open>Everything that can happen to a manager: the calls of its owner, the events of the transport
  and of the reactor's timers, in any order. The transport opens and reads TCP handlers only, and what the
  owner sends is a frame.\<close>

inductive mgr_step :: "fgw_env \<Rightarrow> manager \<Rightarrow> manager \<Rightarrow> bool" for env where
  start: "mgr_step env m (snd (mgr_start env now cfg m))"
| stop: "mgr_step env m (mgr_stop m)"
| add: "mgr_step env m (snd (addChannel env now ccfg m))"
| remove: "mgr_step env m (snd (removeChannel cid m))"
| listen: "mgr_step env m (snd (startLinkListener env ip port m))"
| accept: "m_link_acceptor m \<Longrightarrow> mgr_step env m (snd (accept_link m))"
| opened: "ch_kind (m_heap m r) = CHANNEL_TCP \<Longrightarrow> mgr_step env m (tcp_on_open env now r h m)"
| closed: "mgr_step env m (tcp_on_close r h m)"
| read: "mgr_step env m (upd_chan r (addRecvBytes now n) m)"
| timer: "mgr_step env m (fire_timer env now i m)"
| heartbeat: "mgr_step env m (heartbeat_channels env now m)"
| send: "is_frame buf \<Longrightarrow> mgr_step env m (snd (chan_sendBytes env now buf r m))"
| subscribe: "mgr_step env m (addBytesSubscriber s m)"
| unsubscribe: "mgr_step env m (removeBytesSubscriber s m)"

inductive mgr_reachable :: "fgw_env \<Rightarrow> manager \<Rightarrow> bool" for env where
  init: "mgr_reachable env manager_init"
| step: "mgr_reachable env m \<Longrightarrow> mgr_step env m m' \<Longrightarrow> mgr_reachable env m'"

lemma mgr_step_inv: "mgr_step env m m' \<Longrightarrow> mgr_inv m \<Longrightarrow> mgr_inv m'"
proof (induction rule: mgr_step.induct)
  case (read m r now n)
  then show ?case
    using chan_inv_ops(5) by (intro mgr_inv_upd) (auto simp: mgr_inv_def addRecvBytes_def)
next
  case (listen m ip port)
  then show ?case
    by (elim mgr_inv_frame) (simp_all add: startLinkListener_def)
qed (auto simp: mgr_inv_start mgr_inv_stop mgr_inv_addChannel mgr_inv_removeChannel mgr_inv_accept
    mgr_inv_on_open mgr_inv_on_close mgr_inv_fire_timer mgr_inv_heartbeats mgr_inv_send
    addBytesSubscriber_def removeBytesSubscriber_def mgr_inv_def [of "_\<lparr>m_bytes_subscribers := _\<rparr>"],
    (auto simp: mgr_inv_def))

lemma mgr_reachable_inv: "mgr_reachable env m \<Longrightarrow> mgr_inv m"
  by (induction rule: mgr_reachable.induct) (auto intro: mgr_inv_init mgr_step_inv)

section \<open>Live channels\<close>

lemma liveChannels_ids:
  assumes "mgr_inv m"
  shows "live_ids (map (m_heap m) (liveChannels m)) = map ch_channel_id (map (m_heap m) (liveChannels m))"
    and "distinct (live_ids (map (m_heap m) (liveChannels m)))"
proof -
  have live: "filter isLive (map (m_heap m) (liveChannels m)) = map (m_heap m) (liveChannels m)"
    by (simp add: liveChannels_def filter_map comp_def)
  then show eq: "live_ids (map (m_heap m) (liveChannels m)) = map ch_channel_id (map (m_heap m) (liveChannels m))"
    by (simp add: live_ids_def)
  have "map (\<lambda>r. ch_channel_id (m_heap m r)) (map snd (m_channels m)) = map fst (m_channels m)"
    using assms by (auto simp: mgr_inv_def)
  then have "distinct (map (\<lambda>r. ch_channel_id (m_heap m r)) (map snd (m_channels m)))"
    using smap_inv_distinct [of "m_channels m"] assms by (metis mgr_inv_def)
  then show "distinct (live_ids (map (m_heap m) (liveChannels m)))"
    unfolding eq by (simp add: liveChannels_def distinct_map_filter comp_def)
qed

section \<open>A manager with one link\<close>

definition sample_channel :: FgwChannelConfig where
  "sample_channel = \<lparr>cc_channel_id = 1, cc_kind = 0, cc_remote = \<lparr>ep_host = ''peer'', ep_port = 9000\<rparr>, cc_priority = 100\<rparr>"

definition sample_config :: FgwConfig where
  "sample_config = FgwConfig_init\<lparr>cfg_ingress_id := 7, cfg_channels := [sample_channel], cfg_reconnect_max := 20\<rparr>"

text \<open>A manager with one configured channel, before and after the transport opens it.\<close>

definition sample_dialing :: manager where
  "sample_dialing = snd (mgr_start open_env 0 sample_config manager_init)"

definition sample_manager :: manager where
  "sample_manager = tcp_on_open open_env 5 0 0 sample_dialing"

lemma sample_dialing_facts:
  "m_channels sample_dialing = [(1, 0)]" "ch_kind (m_heap sample_dialing 0) = CHANNEL_TCP"
  "ch_tcp_ptr (m_heap sample_dialing 0) = Some 0" "ch_channel_id (m_heap sample_dialing 0) = 1"
  "\<not> ch_accepted (m_heap sample_dialing 0)" "\<not> ch_stalled (m_heap sample_dialing 0)"
  "m_next_ref sample_dialing = 1" "m_config sample_dialing = sample_config" "m_timers sample_dialing = []"
  "ch_wire (m_heap sample_dialing 0) = []" "m_selector sample_dialing = LinkSelector_init"
  by (simp_all add: sample_dialing_def mgr_start_def startHeartbeat_def addChannel_def sample_config_def
      sample_channel_def manager_init_def FgwConfig_init_def alloc_chan_def chan_defs open_env_def
      multipath_mode_cast_def setMode_def LinkSelector_init_def smap_find_def smap_count_def upd_chan_def)

lemma sample_dialing_reachable: "mgr_reachable open_env sample_dialing"
  unfolding sample_dialing_def by (rule mgr_reachable.step [OF mgr_reachable.init mgr_step.start])

lemma sample_manager_reachable: "mgr_reachable open_env sample_manager"
  unfolding sample_manager_def
  by (rule mgr_reachable.step [OF sample_dialing_reachable])
    (rule mgr_step.opened, simp add: sample_dialing_facts)

lemma sendHello_effect:
  "\<exists>f. sendHello env now r m = upd_chan r f m \<and> same_identity (f (m_heap m r)) (m_heap m r)"
proof -
  have "m = upd_chan r (\<lambda>c. c) m" by (simp add: upd_chan_def)
  then show ?thesis
    using sendBytes_identity same_identity_refl
    by (auto simp: sendHello_def Let_def chan_sendBytes_snd split: prod.split sum.split)
qed

lemma sample_manager_facts:
  "m_channels sample_manager = [(1, 0)]" "ch_kind (m_heap sample_manager 0) = CHANNEL_TCP"
  "ch_tcp_ptr (m_heap sample_manager 0) = Some 0" "ch_channel_id (m_heap sample_manager 0) = 1"
  "isLive (m_heap sample_manager 0)" "ch_connected (m_heap sample_manager 0)"
  "m_next_ref sample_manager = 1" "m_config sample_manager = sample_config" "m_timers sample_manager = []"
  "\<not> ch_accepted (m_heap sample_manager 0)" "lq_last_rx_tick (ch_quality (m_heap sample_manager 0)) = 5"
  "m_selector sample_manager = LinkSelector_init"
proof -
  define c where "c = snd (markConnected 5 True (m_heap sample_dialing 0))"
  obtain f where f: "sample_manager = upd_chan 0 f (upd_chan 0 (\<lambda>_. c) sample_dialing)" "same_identity (f c) c"
    using sendHello_effect [of open_env 5 0 "upd_chan 0 (\<lambda>_. c) sample_dialing"]
    by (auto simp: sample_manager_def tcp_on_open_def sample_dialing_facts c_def markConnected_def Let_def
        onChannelConnected_def)
  note id = same_identity_fields [OF f(2)] same_identity_live [OF f(2)]
  show "m_channels sample_manager = [(1, 0)]" "ch_kind (m_heap sample_manager 0) = CHANNEL_TCP"
    "ch_tcp_ptr (m_heap sample_manager 0) = Some 0" "ch_channel_id (m_heap sample_manager 0) = 1"
    "isLive (m_heap sample_manager 0)" "ch_connected (m_heap sample_manager 0)"
    "m_next_ref sample_manager = 1" "m_config sample_manager = sample_config" "m_timers sample_manager = []"
    "\<not> ch_accepted (m_heap sample_manager 0)" "lq_last_rx_tick (ch_quality (m_heap sample_manager 0)) = 5"
    "m_selector sample_manager = LinkSelector_init"
    using id by (simp_all add: f(1) sample_dialing_facts)
      (simp_all add: c_def markConnected_def Let_def sample_dialing_facts isLive_def)
qed

lemma sample_subscribers: "m_bytes_subscribers sample_manager = []"
proof -
  have "m_bytes_subscribers sample_dialing = []"
    by (simp add: sample_dialing_def mgr_start_def startHeartbeat_def addChannel_def sample_config_def
        sample_channel_def manager_init_def FgwConfig_init_def alloc_chan_def chan_defs open_env_def
        multipath_mode_cast_def setMode_def LinkSelector_init_def smap_find_def smap_count_def upd_chan_def)
  then show ?thesis
    using sendHello_effect [of open_env 5 0 "upd_chan 0 (\<lambda>_. snd (markConnected 5 True (m_heap sample_dialing 0))) sample_dialing"]
    by (auto simp: sample_manager_def tcp_on_open_def sample_dialing_facts markConnected_def Let_def onChannelConnected_def)
qed

lemma sample_manager_live: "liveChannels sample_manager = [0]"
  by (simp add: liveChannels_def sample_manager_facts)

text \<open>C33: In every state a ChannelManager can reach through starts, stops, added and removed channels, accepted
  links, transport events, timers and heartbeats, findChannel finds a channel under its own id, every live
  channel is a connected TCP channel with a handler that the table finds, the live ids are distinct and no
  stream is subscribed twice.\<close>

theorem manager_table_consistent:
  assumes "mgr_reachable env m"
  shows "(\<forall>cid r. findChannel m cid = Some r \<longrightarrow> ch_channel_id (m_heap m r) = cid \<and> r < m_next_ref m) \<and>
    (\<forall>r \<in> set (liveChannels m). ch_kind (m_heap m r) = CHANNEL_TCP \<and> ch_tcp_ptr (m_heap m r) \<noteq> None \<and>
       findChannel m (ch_channel_id (m_heap m r)) = Some r) \<and>
    distinct (map (\<lambda>r. ch_channel_id (m_heap m r)) (liveChannels m)) \<and> distinct (m_bytes_subscribers m)"
proof (intro conjI)
  have inv: "mgr_inv m" using assms by (rule mgr_reachable_inv)
  show "\<forall>cid r. findChannel m cid = Some r \<longrightarrow> ch_channel_id (m_heap m r) = cid \<and> r < m_next_ref m"
    using inv by (auto simp: mgr_inv_def findChannel_def dest!: smap_find_in_set)
  show "\<forall>r \<in> set (liveChannels m). ch_kind (m_heap m r) = CHANNEL_TCP \<and> ch_tcp_ptr (m_heap m r) \<noteq> None \<and>
      findChannel m (ch_channel_id (m_heap m r)) = Some r"
  proof
    fix r assume "r \<in> set (liveChannels m)"
    then obtain cid where r: "(cid, r) \<in> set (m_channels m)" "ch_connected (m_heap m r)"
      by (auto simp: liveChannels_def isLive_def)
    then have "ch_channel_id (m_heap m r) = cid" "chan_inv (m_heap m r)" using inv by (auto simp: mgr_inv_def)
    moreover have "smap_find (m_channels m) cid = Some r"
      using r(1) inv smap_inv_distinct [of "m_channels m"] by (simp add: mgr_inv_def smap_find_def)
    ultimately show "ch_kind (m_heap m r) = CHANNEL_TCP \<and> ch_tcp_ptr (m_heap m r) \<noteq> None \<and>
        findChannel m (ch_channel_id (m_heap m r)) = Some r"
      using r(2) by (simp add: chan_inv_def findChannel_def)
  qed
  show "distinct (map (\<lambda>r. ch_channel_id (m_heap m r)) (liveChannels m))"
    using liveChannels_ids [OF inv] by (simp add: comp_def)
  show "distinct (m_bytes_subscribers m)" using inv by (simp add: mgr_inv_def)
qed

theorem manager_table_consistent_witness:
  "mgr_reachable open_env sample_manager \<and> liveChannels sample_manager = [0] \<and> findChannel sample_manager 1 = Some 0 \<and>
   distinct (map (\<lambda>r. ch_channel_id (m_heap sample_manager r)) (liveChannels sample_manager))"
  using sample_manager_reachable manager_table_consistent [OF sample_manager_reachable] sample_manager_live
  by (auto simp: sample_manager_facts)

section \<open>Adding, removing, reconnecting\<close>

text \<open>What \<^verbatim>\<open>addChannel\<close> answers and what it leaves in the table: also a channel whose connect failed.\<close>

theorem addChannel_outcome:
  assumes "cc_kind cfg = 0" and "smap_find (m_channels m) (cc_channel_id cfg) = None"
    and "addChannel env now cfg m = (ret, m')"
  shows "ret = e_start_connect env now (cc_remote cfg) \<and>
    findChannel m' (cc_channel_id cfg) = Some (m_next_ref m) \<and>
    ch_remote (m_heap m' (m_next_ref m)) = cc_remote cfg \<and> \<not> ch_connected (m_heap m' (m_next_ref m)) \<and>
    (\<forall>cid. cid \<noteq> cc_channel_id cfg \<longrightarrow> findChannel m' cid = findChannel m cid) \<and> m_timers m' = m_timers m \<and>
    addChannel env now' cfg m' = (errcode ERR_CHANNELEXISTS, m')"
  using assms
  by (auto simp: addChannel_def alloc_chan_def chan_defs smap_count_def findChannel_def smap_find_set)

theorem addChannel_outcome_witness:
  "\<exists>m'. addChannel (open_env\<lparr>e_start_connect := \<lambda>_ _. - 111\<rparr>) 3 sample_channel manager_init = (- 111, m') \<and>
     findChannel m' 1 = Some 0 \<and> m_timers m' = [] \<and>
     addChannel (open_env\<lparr>e_start_connect := \<lambda>_ _. - 111\<rparr>) 4 sample_channel m' = (errcode ERR_CHANNELEXISTS, m')"
proof -
  obtain ret m' where add: "addChannel (open_env\<lparr>e_start_connect := \<lambda>_ _. - 111\<rparr>) 3 sample_channel manager_init = (ret, m')"
    by fastforce
  from addChannel_outcome [OF _ _ this, of 4] add show ?thesis
    by (simp add: sample_channel_def manager_init_def open_env_def)
qed

theorem reconnect_replaces:
  assumes inv: "mgr_inv m" and find: "findChannel m (cc_channel_id cfg) = Some r" and tcp: "cc_kind cfg = 0"
    and kind: "ch_kind (m_heap m r) = CHANNEL_TCP"
    and m'_def: "m' = run_timer env now (TReconnect cfg) m"
  shows "findChannel m' (cc_channel_id cfg) = Some (m_next_ref m) \<and> m_next_ref m \<noteq> r \<and>
    ch_remote (m_heap m' (m_next_ref m)) = cc_remote cfg \<and> ch_tcp_ptr (m_heap m' (m_next_ref m)) = Some 0 \<and>
    \<not> ch_connected (m_heap m' (m_next_ref m)) \<and> ch_tcp_ptr (m_heap m' r) = None \<and>
    tcp_on_open env now r h m' = m' \<and> tcp_on_close r h m' = m' \<and> mgr_inv m'"
proof -
  have r: "r < m_next_ref m" using inv smap_find_in_set [OF find [unfolded findChannel_def]] by (auto simp: mgr_inv_def)
  have inv': "mgr_inv m'" unfolding m'_def by (rule mgr_inv_run_timer [OF inv])
  show ?thesis
    using find tcp kind r inv'
    by (auto simp: m'_def run_timer_def removeChannel_def addChannel_def findChannel_def Let_def alloc_chan_def
        chan_defs smap_find_erase smap_find_set smap_count_def tcp_on_open_def tcp_on_close_def)
qed

theorem reconnect_replaces_witness:
  "findChannel (run_timer open_env 9 (TReconnect sample_channel) sample_manager) 1 = Some 1 \<and>
   ch_tcp_ptr (m_heap (run_timer open_env 9 (TReconnect sample_channel) sample_manager) 0) = None"
  using reconnect_replaces [of sample_manager sample_channel 0 _ open_env 9, OF _ _ _ _ refl]
    mgr_reachable_inv [OF sample_manager_reachable]
  by (simp add: findChannel_def sample_manager_facts sample_channel_def smap_find_def)

theorem closed_link_redials:
  assumes "ch_tcp_ptr (m_heap m r) = Some h" and "\<not> ch_accepted (m_heap m r)" and "m' = tcp_on_close r h m"
  shows "\<not> ch_connected (m_heap m' r) \<and>
    (\<exists>cfg. m_timers m' = m_timers m @
       [((if 0 < cfg_reconnect_max (m_config m) then unat (cfg_reconnect_max (m_config m)) else 30) * 1000, TReconnect cfg)] \<and>
     cc_channel_id cfg = ch_channel_id (m_heap m r) \<and>
     (case find (\<lambda>c. cc_channel_id c = ch_channel_id (m_heap m r)) (cfg_channels (m_config m)) of
        Some c \<Rightarrow> cfg = c
      | None \<Rightarrow> cc_remote cfg = FgwEndpoint_init \<and> cc_kind cfg = 0 \<and> cc_priority cfg = 100))"
proof -
  have "ucast (ucast x :: u32) = x" for x :: u8
    by (rule bit_word_eqI) (auto simp: bit_simps dest: bit_imp_le_length)
  then have same: "cc_channel_id c = cid \<Longrightarrow> \<lparr>cc_channel_id = cid, cc_kind = ucast (ucast (cc_kind c) :: u32),
      cc_remote = cc_remote c, cc_priority = cc_priority c\<rparr> = c" for c :: FgwChannelConfig and cid
    by (cases c) simp
  note defs = tcp_on_close_def onChannelClosed_def scheduleReconnect_def Let_def markClosed_def
  show ?thesis
  proof (cases "find (\<lambda>c. cc_channel_id c = ch_channel_id (m_heap m r)) (cfg_channels (m_config m))")
    case None
    with assms show ?thesis by (simp add: defs)
  next
    case (Some c)
    then have "cc_channel_id c = ch_channel_id (m_heap m r)" by (auto simp: find_Some_iff)
    from same [OF this] Some assms this show ?thesis by (simp add: defs)
  qed
qed

theorem closed_link_redials_witness:
  "\<exists>m'. m' = tcp_on_close 0 0 sample_manager \<and> m_timers m' = [(20000, TReconnect sample_channel)]"
  using closed_link_redials [of sample_manager 0 0, OF _ _ refl]
  by (auto simp: sample_manager_facts sample_config_def sample_channel_def)

theorem stop_closes_everything:
  "m_channels (mgr_stop m) = [] \<and> liveChannels (mgr_stop m) = [] \<and> m_bytes_subscribers (mgr_stop m) = [] \<and>
   m_heartbeat_timer (mgr_stop m) = None \<and> \<not> m_link_acceptor (mgr_stop m) \<and> m_shared_utp (mgr_stop m) = None \<and>
   m_heap (mgr_stop m) = (\<lambda>r. if r \<in> snd ` set (m_channels m) then chan_close (m_heap m r) else m_heap m r)"
proof -
  have "m_heap (mgr_stop m) = m_heap (foldl (\<lambda>m r. upd_chan r chan_close m)
      ((stopLinkListener m)\<lparr>m_heartbeat_timer := None, m_bytes_subscribers := []\<rparr>) (map snd (m_channels m)))"
    by (simp add: mgr_stop_def Let_def stopLinkListener_def)
  then show ?thesis
    using mgr_stop_channels [of m] by (auto simp: fun_eq_iff mgr_stop_heap liveChannels_def stopLinkListener_def)
qed

section \<open>Heartbeats\<close>






end
