(* ===== verification/Fgw_Framing.thy ===== *)
theory Fgw_Framing
  imports Fgw_Segment
begin

text \<open>
  The reassembly loop that \<^verbatim>\<open>DataStream::onChannelBytes\<close> and \<^verbatim>\<open>TransitService::onLinkBytes\<close>
  share: cut whole segments off the front of a link's scratch buffer, stop when the buffer holds
  no complete segment, and drop the whole buffer on a malformed header. The loop takes the
  per-segment work as a function; both components instantiate it. The lemmas show that the
  result does not depend on how the transport chunks the bytes.
\<close>

definition frame_total :: "FgwSegmentHeader \<Rightarrow> nat \<Rightarrow> nat" where
  "frame_total hdr hr = hr + unat (hdr_payload_len hdr)"

datatype scan_result = NeedMore | BadSegment | Frame FgwSegmentHeader nat

text \<open>The head of the \<^verbatim>\<open>while (true)\<close> loop up to the first use of the frame.\<close>

definition scan_frame :: "bytes \<Rightarrow> scan_result" where
  "scan_frame buf =
     (if length buf < LEGACY_HEADER_SIZE then NeedMore
      else
        let (hr, hdr) = fgwSegmentPeekHeader buf FgwSegmentHeader_init
        in if hr = errcode ERR_BADSEGMENT then BadSegment
           else if hr = 0 then NeedMore
           else if frame_total hdr (nat hr) > length buf then NeedMore
           else Frame hdr (nat hr))"

lemma scan_frame_bounds:
  "scan_frame buf = Frame hdr hr \<Longrightarrow> 16 \<le> hr \<and> hr \<le> 24 \<and> frame_total hdr hr \<le> length buf \<and>
     unat (hdr_payload_len hdr) \<le> MAX_PAYLOAD"
  using peek_cases [of buf FgwSegmentHeader_init] peek_payload_bound [of buf FgwSegmentHeader_init]
  by (auto simp: scan_frame_def frame_total_def split: if_splits prod.splits)

lemma scan_frame_shrinks:
  "scan_frame buf = Frame hdr hr \<Longrightarrow> length (drop (frame_total hdr hr) buf) < length buf"
  using scan_frame_bounds [of buf hdr hr] by (auto simp: frame_total_def)

lemma scan_frame_Nil [simp]: "scan_frame [] = NeedMore"
  by (simp add: scan_frame_def LEGACY_HEADER_SIZE_def)

function frame_loop ::
  "(FgwSegmentHeader \<Rightarrow> nat \<Rightarrow> bytes \<Rightarrow> 's \<Rightarrow> 's) \<Rightarrow> bytes \<Rightarrow> 's \<Rightarrow> bytes \<times> 's" where
  "frame_loop step buf s =
     (case scan_frame buf of
        NeedMore \<Rightarrow> (buf, s)
      | BadSegment \<Rightarrow> ([], s)
      | Frame hdr hr \<Rightarrow>
          frame_loop step (drop (frame_total hdr hr) buf) (step hdr hr (take (frame_total hdr hr) buf) s))"
  by pat_completeness auto
termination
proof (relation "measure (\<lambda>(step, buf, s). length buf)", goal_cases)
  case (2 step buf s hdr hr)
  then show ?case
    using scan_frame_shrinks [of buf hdr hr] by simp
qed simp

declare frame_loop.simps [simp del]

lemma frame_loop_simps:
  "scan_frame buf = NeedMore \<Longrightarrow> frame_loop step buf s = (buf, s)"
  "scan_frame buf = BadSegment \<Longrightarrow> frame_loop step buf s = ([], s)"
  "scan_frame buf = Frame hdr hr \<Longrightarrow> frame_loop step buf s =
     frame_loop step (drop (frame_total hdr hr) buf) (step hdr hr (take (frame_total hdr hr) buf) s)"
  by (simp_all add: frame_loop.simps [of step buf s])

text \<open>What the loop leaves behind holds no complete segment.\<close>

lemma frame_loop_rest: "scan_frame (fst (frame_loop step buf s)) = NeedMore"
proof (induction step buf s rule: frame_loop.induct)
  case (1 step buf s)
  then show ?case
    by (cases "scan_frame buf") (simp_all add: frame_loop_simps)
qed

section \<open>Independence of chunking\<close>

lemma scan_frame_append: "scan_frame a \<noteq> NeedMore \<Longrightarrow> scan_frame (a @ b) = scan_frame a"
proof -
  assume need: "scan_frame a \<noteq> NeedMore"
  then have "fst (fgwSegmentPeekHeader a FgwSegmentHeader_init) \<noteq> 0"
    by (auto simp: scan_frame_def split: if_splits prod.splits)
  then show ?thesis
    using need peek_append [of a FgwSegmentHeader_init b]
    by (auto simp: scan_frame_def split: if_splits prod.splits)
qed

text \<open>\<open>clean buf\<close>: the loop meets no malformed header in \<open>buf\<close>.\<close>

function clean :: "bytes \<Rightarrow> bool" where
  "clean buf =
     (case scan_frame buf of NeedMore \<Rightarrow> True | BadSegment \<Rightarrow> False
      | Frame hdr hr \<Rightarrow> clean (drop (frame_total hdr hr) buf))"
  by pat_completeness auto
termination
proof (relation "measure length", goal_cases)
  case (2 buf hdr hr)
  then show ?case
    using scan_frame_shrinks [of buf hdr hr] by simp
qed simp

declare clean.simps [simp del]

lemma frame_loop_append:
  "clean a \<Longrightarrow> frame_loop step (a @ b) s =
     (case frame_loop step a s of (r, s') \<Rightarrow> frame_loop step (r @ b) s')"
proof (induction step a s rule: frame_loop.induct)
  case (1 step a s)
  show ?case
  proof (cases "scan_frame a")
    case NeedMore
    then show ?thesis by (simp add: frame_loop_simps)
  next
    case BadSegment
    with "1.prems" show ?thesis by (simp add: clean.simps [of a])
  next
    case (Frame hdr hr)
    let ?n = "frame_total hdr hr"
    have n: "?n \<le> length a"
      using scan_frame_bounds [OF Frame] by simp
    have "scan_frame (a @ b) = Frame hdr hr"
      using Frame scan_frame_append [of a b] by simp
    then have "frame_loop step (a @ b) s = frame_loop step (drop ?n a @ b) (step hdr hr (take ?n a) s)"
      using n by (simp add: frame_loop_simps)
    also have "\<dots> = (case frame_loop step (drop ?n a) (step hdr hr (take ?n a) s) of
        (r, s') \<Rightarrow> frame_loop step (r @ b) s')"
      using "1.IH" [OF Frame] "1.prems" Frame by (simp add: clean.simps [of a])
    finally show ?thesis
      using Frame by (simp add: frame_loop_simps)
  qed
qed

lemma clean_append: "clean (a @ b) \<Longrightarrow> clean a \<and> clean (fst (frame_loop step a s) @ b)"
proof (induction step a s rule: frame_loop.induct)
  case (1 step a s)
  show ?case
  proof (cases "scan_frame a")
    case NeedMore
    with "1.prems" show ?thesis by (simp add: frame_loop_simps clean.simps [of a])
  next
    case BadSegment
    with "1.prems" scan_frame_append [of a b] show ?thesis by (simp add: clean.simps [of "a @ b"])
  next
    case (Frame hdr hr)
    with scan_frame_append [of a b] scan_frame_bounds [OF Frame] "1.prems"
    have "clean (drop (frame_total hdr hr) a @ b)"
      by (simp add: clean.simps [of "a @ b"])
    with "1.IH" [OF Frame] Frame show ?thesis
      by (simp add: frame_loop_simps clean.simps [of a])
  qed
qed

text \<open>A link's reader: append a chunk to the scratch buffer, run the loop, keep the rest.\<close>

definition feed :: "(FgwSegmentHeader \<Rightarrow> nat \<Rightarrow> bytes \<Rightarrow> 's \<Rightarrow> 's) \<Rightarrow> bytes \<times> 's \<Rightarrow> bytes \<Rightarrow> bytes \<times> 's" where
  "feed step bs chunk = frame_loop step (fst bs @ chunk) (snd bs)"

lemma feed_chunks:
  "clean (buf @ concat chunks) \<Longrightarrow> chunks \<noteq> [] \<Longrightarrow>
   foldl (feed step) (buf, s) chunks = frame_loop step (buf @ concat chunks) s"
proof (induction chunks arbitrary: buf s)
  case (Cons c chunks)
  obtain r s' where r: "frame_loop step (buf @ c) s = (r, s')" by fastforce
  have c: "clean (buf @ c)" "clean (r @ concat chunks)"
    using clean_append [of "buf @ c" "concat chunks" step s] Cons.prems r by simp_all
  have "foldl (feed step) (buf, s) (c # chunks) = foldl (feed step) (r, s') chunks"
    by (simp add: feed_def r)
  also have "\<dots> = frame_loop step (r @ concat chunks) s'"
  proof (cases "chunks = []")
    case True
    have "scan_frame r = NeedMore"
      using frame_loop_rest [of step "buf @ c" s] r by simp
    with True show ?thesis by (simp add: frame_loop_simps)
  qed (use Cons.IH c in simp)
  also have "\<dots> = frame_loop step (buf @ c @ concat chunks) s"
    using frame_loop_append [OF c(1), of step "concat chunks" s] r by simp
  finally show ?case by simp
qed simp

section \<open>Streams of encoded segments\<close>

definition wire_image :: "(FgwSegmentHeader \<times> bytes) list \<Rightarrow> bytes" where
  "wire_image segs = concat (map (\<lambda>(h, p). segment_image h p) segs)"

definition sendable :: "FgwSegmentHeader \<times> bytes \<Rightarrow> bool" where
  "sendable hp = (length (snd hp) \<le> MAX_PAYLOAD)"

lemma frame_total_image:
  "length p \<le> MAX_PAYLOAD \<Longrightarrow> frame_total (decoded_header h p) (wire_hdr_size h) = length (segment_image h p)"
  by (simp add: frame_total_def decoded_header_def unat_len16)

lemma scan_image:
  "length p \<le> MAX_PAYLOAD \<Longrightarrow>
   scan_frame (segment_image h p @ rest) = Frame (decoded_header h p) (wire_hdr_size h)"
  using wire_hdr_size_ge [of h]
  by (simp add: scan_frame_def peek_image frame_total_image LEGACY_HEADER_SIZE_def)

definition step_segment ::
  "(FgwSegmentHeader \<Rightarrow> nat \<Rightarrow> bytes \<Rightarrow> 's \<Rightarrow> 's) \<Rightarrow> 's \<Rightarrow> FgwSegmentHeader \<times> bytes \<Rightarrow> 's" where
  "step_segment step s hp =
     step (decoded_header (fst hp) (snd hp)) (wire_hdr_size (fst hp)) (segment_image (fst hp) (snd hp)) s"

lemma frame_loop_images:
  "\<forall>hp \<in> set segs. sendable hp \<Longrightarrow> scan_frame rest = NeedMore \<Longrightarrow>
   frame_loop step (wire_image segs @ rest) s = (rest, foldl (step_segment step) s segs)"
proof (induction segs arbitrary: s)
  case Nil
  then show ?case by (simp add: wire_image_def frame_loop_simps)
next
  case (Cons hp segs)
  obtain h p where hp: "hp = (h, p)" by fastforce
  have p: "length p \<le> MAX_PAYLOAD" using Cons.prems hp by (simp add: sendable_def)
  then have "frame_loop step (wire_image (hp # segs) @ rest) s =
      frame_loop step (wire_image segs @ rest) (step_segment step s hp)"
    using scan_image [of p h "wire_image segs @ rest"] frame_total_image [of p h]
    by (simp add: wire_image_def hp frame_loop_simps step_segment_def)
  then show ?case using Cons by simp
qed

lemma clean_images:
  "\<forall>hp \<in> set segs. sendable hp \<Longrightarrow> scan_frame rest = NeedMore \<Longrightarrow> clean (wire_image segs @ rest)"
proof (induction segs)
  case Nil
  then show ?case by (simp add: wire_image_def clean.simps)
next
  case (Cons hp segs)
  obtain h p where hp: "hp = (h, p)" by fastforce
  have "length p \<le> MAX_PAYLOAD" using Cons.prems hp by (simp add: sendable_def)
  with Cons scan_image [of p h "wire_image segs @ rest"] frame_total_image [of p h] show ?case
    by (simp add: wire_image_def hp clean.simps [of "segment_image h p @ _"])
qed

lemma feed_segments:
  assumes "concat chunks = wire_image segs" and "chunks \<noteq> []" and "\<forall>hp \<in> set segs. sendable hp"
  shows "foldl (feed step) ([], s) chunks = ([], foldl (step_segment step) s segs)"
  using feed_chunks [of "[]" chunks step s] clean_images [OF assms(3), of "[]"]
    frame_loop_images [OF assms(3), of "[]" step s] assms(1,2) by simp

text \<open>Bytes that are the image of segments but end before a whole frame are no bytes.\<close>

lemma wire_image_unfinished:
  assumes "scan_frame (wire_image segs) = NeedMore" and "\<forall>hp \<in> set segs. sendable hp"
  shows "segs = []"
proof (cases segs)
  case (Cons hp sg)
  obtain h p where hp: "hp = (h, p)" by fastforce
  have len: "length p \<le> MAX_PAYLOAD" using assms(2) Cons hp by (simp add: sendable_def)
  have "wire_image segs = segment_image h p @ wire_image sg" using Cons hp by (simp add: wire_image_def)
  with assms(1) show ?thesis using scan_image [OF len, of h "wire_image sg"] by simp
qed

text \<open>A prefix of such a stream: the segments it completes are processed, the rest waits.\<close>

lemma frame_loop_prefix:
  assumes "\<forall>hp \<in> set segs. sendable hp" and "scan_frame tail = NeedMore"
    and "buf @ ext = wire_image segs @ tail"
  shows "\<exists>ok todo rest. segs = ok @ todo \<and> frame_loop step buf s = (rest, foldl (step_segment step) s ok) \<and>
    rest @ ext = wire_image todo @ tail \<and> scan_frame rest = NeedMore"
  using assms
proof (induction segs arbitrary: buf s)
  case Nil
  then have "scan_frame buf = NeedMore"
    using scan_frame_append [of buf ext] by (auto simp: wire_image_def)
  with Nil show ?case
    by (intro exI [of _ "[]"] exI [of _ "[]"] exI [of _ buf]) (simp add: frame_loop_simps)
next
  case (Cons hp segs)
  obtain h p where hp: "hp = (h, p)" by fastforce
  have p: "length p \<le> MAX_PAYLOAD" using Cons.prems hp by (simp add: sendable_def)
  have img: "buf @ ext = segment_image h p @ wire_image segs @ tail"
    using Cons.prems hp by (simp add: wire_image_def)
  note scan = scan_image [OF p, of h] and total = frame_total_image [OF p, of h]
  show ?case
  proof (cases "length (segment_image h p) \<le> length buf")
    case True
    then obtain buf' where buf': "buf = segment_image h p @ buf'"
      using img by (metis append_eq_append_conv_if append_take_drop_id)
    then have "buf' @ ext = wire_image segs @ tail" using img by simp
    with Cons.IH [of buf' "step_segment step s hp"] Cons.prems obtain ok todo rest where
      r: "segs = ok @ todo" "frame_loop step buf' (step_segment step s hp) = (rest, foldl (step_segment step) (step_segment step s hp) ok)"
        "rest @ ext = wire_image todo @ tail" "scan_frame rest = NeedMore"
      by auto
    have "frame_loop step buf s = frame_loop step buf' (step_segment step s hp)"
      using scan [of buf'] total by (simp add: buf' hp frame_loop_simps step_segment_def)
    with r show ?thesis
      by (intro exI [of _ "hp # ok"] exI [of _ todo] exI [of _ rest]) simp
  next
    case False
    have "scan_frame buf = NeedMore"
    proof (rule ccontr)
      assume "scan_frame buf \<noteq> NeedMore"
      then have "scan_frame buf = Frame (decoded_header h p) (wire_hdr_size h)"
        using scan_frame_append [of buf ext] scan [of "wire_image segs @ tail"] img by simp
      with scan_frame_bounds [OF this] total False show False by simp
    qed
    with Cons.prems show ?thesis
      by (intro exI [of _ "[]"] exI [of _ "hp # segs"] exI [of _ buf]) (simp add: frame_loop_simps)
  qed
qed

text \<open>An invariant of the per-segment work is an invariant of the loop, whatever the bytes are.\<close>

lemma frame_loop_inv:
  assumes "P s" and "\<And>hdr hr frame s. P s \<Longrightarrow> P (step hdr hr frame s)"
  shows "P (snd (frame_loop step buf s))"
  using assms
proof (induction step buf s rule: frame_loop.induct)
  case (1 step buf s)
  then show ?case
    by (cases "scan_frame buf") (simp_all add: frame_loop_simps)
qed

section \<open>The loop as a whole\<close>


text \<open>C31: However the wire image of a sequence of segments is cut into chunks, the reassembly loop hands over
  exactly these segments, in order, and leaves an empty buffer.\<close>

theorem framing_recovers_segments:
  assumes "\<forall>seg \<in> set segs. sendable seg" and "concat chunks = wire_image segs" and "chunks \<noteq> []"
  shows "foldl (feed step) ([], s) chunks = ([], foldl (step_segment step) s segs)"
  using assms by (intro feed_segments)

text \<open>A byte at a time.\<close>

theorem framing_recovers_segments_witness:
  "foldl (feed (\<lambda>hdr hr frame s. s @ [hdr_seq_num hdr])) ([], [])
     (map (\<lambda>b. [b]) (wire_image [(sample_header, [1, 2]), (sample_header\<lparr>hdr_seq_num := 5\<rparr>, [])])) = ([], [4, 5])"
proof -
  let ?segs = "[(sample_header, [1, 2]), (sample_header\<lparr>hdr_seq_num := 5\<rparr>, [])]"
  have "concat (map (\<lambda>b. [b]) xs) = xs" for xs :: bytes by (induction xs) simp_all
  moreover have "wire_image ?segs \<noteq> []"
    by (simp add: wire_image_def segment_image_def header_prefix_def)
  ultimately show ?thesis
    using framing_recovers_segments [of ?segs "map (\<lambda>b. [b]) (wire_image ?segs)"
        "\<lambda>hdr hr frame s. s @ [hdr_seq_num hdr]" "[]"]
    by (simp add: sendable_def step_segment_def decoded_header_def MAX_PAYLOAD_def)
qed

theorem framing_bounded:
  "scan_frame (fst (frame_loop step buf s)) = NeedMore \<and>
   length (fst (frame_loop step buf s)) < ROUTED_HEADER_SIZE + MAX_PAYLOAD \<and>
   (\<exists>k. fst (frame_loop step buf s) = drop k buf)"
proof (intro conjI)
  show need: "scan_frame (fst (frame_loop step buf s)) = NeedMore"
    by (rule frame_loop_rest)
  show "length (fst (frame_loop step buf s)) < ROUTED_HEADER_SIZE + MAX_PAYLOAD"
    using need peek_trichotomy [of "fst (frame_loop step buf s)" FgwSegmentHeader_init]
    by (auto simp: scan_frame_def frame_total_def Let_def seg_sizes split: if_splits prod.splits)
  show "\<exists>k. fst (frame_loop step buf s) = drop k buf"
  proof (induction step buf s rule: frame_loop.induct)
    case (1 step buf s)
    show ?case
    proof (cases "scan_frame buf")
      case (Frame hdr hr)
      with 1 show ?thesis by (auto simp: frame_loop_simps)
    next
      case NeedMore
      then show ?thesis by (intro exI [of _ 0]) (simp add: frame_loop_simps)
    next
      case BadSegment
      then show ?thesis by (intro exI [of _ "length buf"]) (simp add: frame_loop_simps)
    qed
  qed
qed

end
