(* ===== verification/Fgw_DataStream.thy ===== *)
theory Fgw_DataStream
  imports Fgw_Manager Fgw_Framing
begin

text \<open>
  \<^verbatim>\<open>DataStream\<close>, \<^verbatim>\<open>src/src/zfgw_datastream.{h,cpp}\<close>, and the two operations of \<^verbatim>\<open>ChannelManager\<close> that
  call it (\<^verbatim>\<open>dispatchChannelBytes\<close>, \<^verbatim>\<open>onHeartbeatTick\<close>). An operation acts on a \<open>world\<close>: the manager,
  the stream's members, the state of the application that owns the session handlers, and
  \<open>w_trace\<close>, the calls made to handlers so far, which is not in the source. A handler is named by
  a number; the \<^verbatim>\<open>ISessionHandler\<close> virtuals and \<^verbatim>\<open>unknown_cb_\<close> are a record \<open>session_ops\<close> of functions
  on the world, so that a handler may call back into the stream. \<^verbatim>\<open>scratch_\<close> is kept beside the
  world in a \<open>host\<close>: only \<^verbatim>\<open>onChannelBytes\<close> touches it, and no handler calls that.

  \<^verbatim>\<open>it\<close> in \<^verbatim>\<open>onChannelBytes\<close> survives the call of \<^verbatim>\<open>onSessionOpen\<close>; the model looks the session up
  again, which is the same thing because no handler of the repository does anything there.
  Lengths are those of byte lists; a single buffer is shorter than 2 GiB.
\<close>

section \<open>Data\<close>

type_synonym handler_ref = nat
type_synonym session_key = "u32 \<times> u32"

record SessionState =
  st_session_id :: u32
  st_wire_ingress_id :: u32
  st_next_send_seq :: u32
  st_expected_rx_seq :: u32
  st_rx_buffer :: "(u32, bytes) std_map"
  st_handler :: "handler_ref option"
  st_opened :: bool
  st_closed :: bool

definition SessionState_init :: SessionState where
  "SessionState_init =
     \<lparr>st_session_id = 0, st_wire_ingress_id = 0, st_next_send_seq = 0, st_expected_rx_seq = 0,
      st_rx_buffer = [], st_handler = None, st_opened = False, st_closed = False\<rparr>"

datatype DedupKey = DedupKey (dk_ingress: u32) (dk_session: u32) (dk_seq: u32) (dk_kind: u8)

definition DedupKey_less :: "DedupKey \<Rightarrow> DedupKey \<Rightarrow> bool" where
  "DedupKey_less a b =
     (if dk_ingress a \<noteq> dk_ingress b then dk_ingress a < dk_ingress b
      else if dk_session a \<noteq> dk_session b then dk_session a < dk_session b
      else if dk_seq a \<noteq> dk_seq b then dk_seq a < dk_seq b
      else dk_kind a < dk_kind b)"

instantiation DedupKey :: linorder
begin

definition less_DedupKey where "less_DedupKey a b = DedupKey_less a b"
definition less_eq_DedupKey where "less_eq_DedupKey a b = (DedupKey_less a b \<or> a = b)"

instance
proof
  fix a b c :: DedupKey
  show "(a < b) = (a \<le> b \<and> \<not> b \<le> a)"
    by (auto simp: less_DedupKey_def less_eq_DedupKey_def DedupKey_less_def split: if_splits)
  show "a \<le> a" by (simp add: less_eq_DedupKey_def)
  show "a \<le> b \<Longrightarrow> b \<le> c \<Longrightarrow> a \<le> c"
    by (auto simp: less_eq_DedupKey_def DedupKey_less_def split: if_splits)
  show "a \<le> b \<Longrightarrow> b \<le> a \<Longrightarrow> a = b"
    by (auto simp: less_eq_DedupKey_def DedupKey_less_def split: if_splits)
  show "a \<le> b \<or> b \<le> a"
    by (cases a; cases b) (auto simp: less_eq_DedupKey_def DedupKey_less_def)
qed

end

definition kDedupRing :: nat where "kDedupRing = 4096"

record datastream =
  ds_self :: nat
  ds_local_ingress_id :: u32
  ds_segment_size :: u16
  ds_recv_window :: u16
  ds_verify_crc :: bool
  ds_route_outport_id :: u32
  ds_sessions :: "(session_key, SessionState) std_map"
  ds_dedup_queue :: "DedupKey list"
  ds_dedup_map :: "(DedupKey, bool) std_map"
  ds_peer_win_count :: "(u32, u32) std_map"
  ds_peer_part_count :: "(u32, u32) std_map"
  ds_feedback_epoch :: u32
  ds_applied_epoch :: u32
  ds_peer_generation :: u32

datatype session_event =
  EvOpen handler_ref u32
| EvData handler_ref u32 bytes
| EvClose handler_ref u32

record 'a world =
  w_mgr :: manager
  w_ds :: datastream
  w_app :: 'a
  w_trace :: "session_event list"

record 'a session_ops =
  so_open :: "handler_ref \<Rightarrow> u32 \<Rightarrow> 'a world \<Rightarrow> 'a world"
  so_data :: "handler_ref \<Rightarrow> u32 \<Rightarrow> bytes \<Rightarrow> 'a world \<Rightarrow> 'a world"
  so_close :: "handler_ref \<Rightarrow> u32 \<Rightarrow> 'a world \<Rightarrow> 'a world"
  so_unknown :: "(u32 \<Rightarrow> u32 \<Rightarrow> 'a world \<Rightarrow> handler_ref option \<times> 'a world) option"

record 'a host =
  host_scratch :: "(chan_ref, bytes) std_map"
  host_world :: "'a world"

definition upd_ds :: "(datastream \<Rightarrow> datastream) \<Rightarrow> 'a world \<Rightarrow> 'a world" where
  "upd_ds f w = w\<lparr>w_ds := f (w_ds w)\<rparr>"

definition upd_mgr :: "(manager \<Rightarrow> manager) \<Rightarrow> 'a world \<Rightarrow> 'a world" where
  "upd_mgr f w = w\<lparr>w_mgr := f (w_mgr w)\<rparr>"

definition find_session :: "session_key \<Rightarrow> 'a world \<Rightarrow> SessionState option" where
  "find_session k w = smap_find (ds_sessions (w_ds w)) k"

definition put_session :: "session_key \<Rightarrow> SessionState \<Rightarrow> 'a world \<Rightarrow> 'a world" where
  "put_session k st w = upd_ds (\<lambda>ds. ds\<lparr>ds_sessions := smap_set k st (ds_sessions ds)\<rparr>) w"

definition erase_session :: "session_key \<Rightarrow> 'a world \<Rightarrow> 'a world" where
  "erase_session k w = upd_ds (\<lambda>ds. ds\<lparr>ds_sessions := smap_erase k (ds_sessions ds)\<rparr>) w"

section \<open>Construction and the sending side\<close>

definition new_DataStream ::
  "nat \<Rightarrow> u32 \<Rightarrow> u16 \<Rightarrow> u16 \<Rightarrow> bool \<Rightarrow> u32 \<Rightarrow> manager \<Rightarrow> datastream \<times> manager" where
  "new_DataStream self local_ingress_id segment_size recv_window verify_crc route_outport_id m =
     (\<lparr>ds_self = self, ds_local_ingress_id = local_ingress_id,
       ds_segment_size = (if segment_size = 0 \<or> unat segment_size > MAX_PAYLOAD then 1200 else segment_size),
       ds_recv_window = (if recv_window = 0 then 1024 else recv_window),
       ds_verify_crc = verify_crc, ds_route_outport_id = route_outport_id, ds_sessions = [],
       ds_dedup_queue = [], ds_dedup_map = [], ds_peer_win_count = [], ds_peer_part_count = [],
       ds_feedback_epoch = 0, ds_applied_epoch = 0, ds_peer_generation = 0\<rparr>,
      addBytesSubscriber self m)"

definition resolveIngressKey :: "datastream \<Rightarrow> u32 \<Rightarrow> u32" where
  "resolveIngressKey ds key_arg =
     (if key_arg = kFgwWireIngressUseLocal then ds_local_ingress_id ds else key_arg)"

definition segment_header :: "datastream \<Rightarrow> u32 \<Rightarrow> u32 \<Rightarrow> u32 \<Rightarrow> u8 \<Rightarrow> nat \<Rightarrow> FgwSegmentHeader" where
  "segment_header ds wire_ingress session_id seq flags payload_len =
     (let hdr = FgwSegmentHeader_init\<lparr>hdr_flags := flags, hdr_payload_len := of_nat payload_len,
                  hdr_session_id := session_id, hdr_seq_num := seq, hdr_ingress_id := wire_ingress\<rparr>
      in if ds_route_outport_id ds \<noteq> 0
         then hdr\<lparr>hdr_flags := hdr_flags hdr OR FLAG_HDR_ROUTE, hdr_outport_id := ds_route_outport_id ds\<rparr>
         else hdr)"

text \<open>The loop over the selected ids; \<open>i\<close> counts from 0.\<close>

fun send_copies ::
  "fgw_env \<Rightarrow> u32 \<Rightarrow> bytes \<Rightarrow> chan_ref list \<Rightarrow> nat \<Rightarrow> u32 list \<Rightarrow> int \<Rightarrow> manager \<Rightarrow> int \<times> manager" where
  "send_copies env now frame live i [] best m = (best, m)"
| "send_copies env now frame live i (cid # ids) best m =
     (case find (\<lambda>r. ch_channel_id (m_heap m r) = cid) live of
        None \<Rightarrow> send_copies env now frame live (Suc i) ids best m
      | Some r \<Rightarrow>
          (case chan_sendBytes env now frame r m of (ret, m') \<Rightarrow>
             send_copies env now frame live (Suc i) ids (if ret > 0 \<and> i = 0 then ret else best) m'))"

definition sendSegment ::
  "fgw_env \<Rightarrow> u32 \<Rightarrow> datastream \<Rightarrow> u32 \<Rightarrow> u32 \<Rightarrow> u32 \<Rightarrow> u8 \<Rightarrow> bytes option \<Rightarrow> manager \<Rightarrow> int \<times> manager" where
  "sendSegment env now ds wire_ingress session_id seq flags payload m =
     (let payload_len = (case payload of None \<Rightarrow> 0 | Some p \<Rightarrow> length p);
          hdr = segment_header ds wire_ingress session_id seq flags payload_len;
          hdr_sz = (if ds_route_outport_id ds \<noteq> 0 then ROUTED_HEADER_SIZE else HEADER_SIZE);
          total = hdr_sz + payload_len;
          space = e_mb_space env now total
      in if space < total then (errcode ERR_MEMORY, m)
         else
           case encode_block space hdr payload (int payload_len) of
             Inl e \<Rightarrow> (e, m)
           | Inr frame \<Rightarrow>
               let live = liveChannels m;
                   (ids, sel) = select env (map (m_heap m) live) (m_selector m);
                   m = m\<lparr>m_selector := sel\<rparr>
               in if ids = [] then (errcode ERR_NOCHANNEL, m)
                  else
                    case send_copies env now frame live 0 ids 0 m of
                      (best, m) \<Rightarrow> (if best > 0 then best else int payload_len, m))"

definition openSession :: "fgw_env \<Rightarrow> u32 \<Rightarrow> u32 \<Rightarrow> handler_ref option \<Rightarrow> 'a world \<Rightarrow> int \<times> 'a world" where
  "openSession env now session_id handler w =
     (let ds = w_ds w; key = (ds_local_ingress_id ds, session_id)
      in if smap_count (ds_sessions ds) key then (errcode ERR_BUSY, w)
         else
           let st = SessionState_init\<lparr>st_session_id := session_id,
                      st_wire_ingress_id := ds_local_ingress_id ds, st_handler := handler, st_opened := True\<rparr>;
               w = put_session key st w
           in (0, upd_mgr (\<lambda>m. snd (sendSegment env now (w_ds w) (ds_local_ingress_id ds) session_id 0
                                    FLAG_SYN None m)) w))"

definition closeSession :: "fgw_env \<Rightarrow> u32 \<Rightarrow> u32 \<Rightarrow> u32 \<Rightarrow> 'a world \<Rightarrow> 'a world" where
  "closeSession env now session_id ingress_key w =
     (let key = (resolveIngressKey (w_ds w) ingress_key, session_id)
      in case find_session key w of
           None \<Rightarrow> w
         | Some st \<Rightarrow>
             let w = (if st_closed st then w
                      else upd_mgr (\<lambda>m. snd (sendSegment env now (w_ds w) (st_wire_ingress_id st) session_id
                             (st_next_send_seq st) FLAG_FIN None m)) w)
             in erase_session key w)"

text \<open>The loop of \<^verbatim>\<open>sendSessionData\<close>: \<open>rest\<close> is what is left of the buffer. Every turn uses up a
  sequence number, also one whose segment could not be sent. The size limit is never 0, see
  \<open>new_DataStream\<close>; the model stops there, where the code would not.\<close>

function send_loop ::
  "fgw_env \<Rightarrow> u32 \<Rightarrow> datastream \<Rightarrow> u32 \<Rightarrow> u32 \<Rightarrow> bytes \<Rightarrow> nat \<Rightarrow> u32 \<Rightarrow> manager \<Rightarrow> int \<times> u32 \<times> manager" where
  "send_loop env now ds wire_ingress session_id rest written seq m =
     (if rest = [] \<or> ds_segment_size ds = 0 then (int written, seq, m)
      else
        let chunk = min (length rest) (unat (ds_segment_size ds))
        in case sendSegment env now ds wire_ingress session_id seq FLAG_DATA (Some (take chunk rest)) m of
             (ret, m') \<Rightarrow>
               if ret < 0 then (ret, seq + 1, m')
               else send_loop env now ds wire_ingress session_id (drop chunk rest) (written + chunk) (seq + 1) m')"
  by pat_completeness auto
termination
  by (relation "measure (\<lambda>(_, _, ds, _, _, rest, _). length rest)") (auto simp: unat_gt_0)

declare send_loop.simps [simp del]

definition sendSessionData :: "fgw_env \<Rightarrow> u32 \<Rightarrow> u32 \<Rightarrow> bytes \<Rightarrow> u32 \<Rightarrow> 'a world \<Rightarrow> int \<times> 'a world" where
  "sendSessionData env now session_id buf ingress_key w =
     (let key = (resolveIngressKey (w_ds w) ingress_key, session_id)
      in case find_session key w of
           None \<Rightarrow> (errcode ERR_NOCHANNEL, w)
         | Some st \<Rightarrow>
             if st_closed st then (errcode ERR_NOCHANNEL, w)
             else
               case send_loop env now (w_ds w) (st_wire_ingress_id st) session_id buf 0 (st_next_send_seq st) (w_mgr w) of
                 (ret, seq, m) \<Rightarrow>
                   (ret, upd_mgr (\<lambda>_. m) (put_session key (st\<lparr>st_next_send_seq := seq\<rparr>) w)))"

section \<open>The receiving side\<close>

definition bump :: "u32 \<Rightarrow> (u32, u32) std_map \<Rightarrow> (u32, u32) std_map" where
  "bump k m = smap_set k ((case smap_find m k of None \<Rightarrow> 0 | Some n \<Rightarrow> n) + 1) m"

definition peer_channel :: "chan_ref \<Rightarrow> 'a world \<Rightarrow> u32" where
  "peer_channel r w = ch_peer_channel_id (m_heap (w_mgr w) r)"

definition process_hello :: "fgw_env \<Rightarrow> chan_ref \<Rightarrow> bytes \<Rightarrow> 'a world \<Rightarrow> 'a world" where
  "process_hello env r payload w =
     (case zds_unpack_FgwHello (e_zds env) FgwHello_init payload True of (ret, hello) \<Rightarrow>
        if ret < 0 then w
        else if hello_proto_version hello \<noteq> kFgwProtoVersion then w
        else
          let w = upd_mgr (upd_chan r (setPeerIdentity (hello_channel_id hello) (hello_ingress_id hello)
                                         (hello_outport_id hello))) w
          in if hello_generation hello \<noteq> 0 \<and> hello_generation hello \<noteq> ds_peer_generation (w_ds w)
             then upd_ds (\<lambda>ds. ds\<lparr>ds_peer_generation := hello_generation hello, ds_applied_epoch := 0,
                                  ds_peer_win_count := [], ds_peer_part_count := []\<rparr>) w
             else w)"

definition process_ack :: "fgw_env \<Rightarrow> bytes \<Rightarrow> 'a world \<Rightarrow> 'a world" where
  "process_ack env payload w =
     (case zds_unpack_FgwLinkFeedback (e_zds env) FgwLinkFeedback_init payload True of (ret, fb) \<Rightarrow>
        if ret \<ge> 0 \<and> fb_decision_epoch fb > ds_applied_epoch (w_ds w) then
          let w = upd_ds (\<lambda>ds. ds\<lparr>ds_applied_epoch := fb_decision_epoch fb\<rparr>) w
          in if fb_recommended_primary fb \<noteq> 0
             then upd_mgr (\<lambda>m. m\<lparr>m_selector := setPrimaryChannel (fb_recommended_primary fb) (m_selector m)\<rparr>) w
             else w
        else w)"

fun collect_ready :: "(u32, bytes) std_map \<Rightarrow> u32 \<Rightarrow> bytes list \<times> (u32, bytes) std_map \<times> u32" where
  "collect_ready [] expected = ([], [], expected)"
| "collect_ready ((seq, p) # m) expected =
     (if seq \<noteq> expected then ([], (seq, p) # m, expected)
      else case collect_ready m (expected + 1) of (ready, m', e) \<Rightarrow> (p # ready, m', e))"

definition call_data :: "'a session_ops \<Rightarrow> handler_ref \<Rightarrow> u32 \<Rightarrow> 'a world \<Rightarrow> bytes \<Rightarrow> 'a world" where
  "call_data H h sid w blk =
     (if length blk > 0 then so_data H h sid blk (w\<lparr>w_trace := w_trace w @ [EvData h sid blk]\<rparr>) else w)"

definition deliverInOrder :: "'a session_ops \<Rightarrow> session_key \<Rightarrow> 'a world \<Rightarrow> 'a world" where
  "deliverInOrder H skey w =
     (case find_session skey w of
        None \<Rightarrow> w
      | Some st \<Rightarrow>
          (case st_handler st of
             None \<Rightarrow> w
           | Some h \<Rightarrow>
               (case collect_ready (st_rx_buffer st) (st_expected_rx_seq st) of (ready, buf, e) \<Rightarrow>
                  foldl (call_data H h (st_session_id st))
                    (put_session skey (st\<lparr>st_rx_buffer := buf, st_expected_rx_seq := e\<rparr>) w) ready)))"

text \<open>A session the peer starts: \<^verbatim>\<open>unknown_cb_\<close> may supply a handler.\<close>

definition create_session :: "'a session_ops \<Rightarrow> session_key \<Rightarrow> 'a world \<Rightarrow> 'a world" where
  "create_session H skey w =
     (case (case so_unknown H of None \<Rightarrow> (None, w) | Some cb \<Rightarrow> cb (fst skey) (snd skey) w) of
        (handler, w) \<Rightarrow>
          put_session skey (SessionState_init\<lparr>st_session_id := snd skey, st_wire_ingress_id := fst skey,
                                              st_handler := handler\<rparr>) w)"

definition ensure_session :: "'a session_ops \<Rightarrow> session_key \<Rightarrow> 'a world \<Rightarrow> 'a world" where
  "ensure_session H skey w = (if find_session skey w = None then create_session H skey w else w)"

definition session_handler_of :: "session_key \<Rightarrow> 'a world \<Rightarrow> handler_ref option" where
  "session_handler_of skey w = (case find_session skey w of None \<Rightarrow> None | Some st \<Rightarrow> st_handler st)"

definition process_syn :: "'a session_ops \<Rightarrow> session_key \<Rightarrow> 'a world \<Rightarrow> 'a world" where
  "process_syn H skey w =
     (let w = ensure_session H skey w
      in case session_handler_of skey w of
           None \<Rightarrow> w
         | Some h \<Rightarrow> so_open H h (snd skey) (w\<lparr>w_trace := w_trace w @ [EvOpen h (snd skey)]\<rparr>))"

definition process_fin :: "'a session_ops \<Rightarrow> session_key \<Rightarrow> 'a world \<Rightarrow> 'a world" where
  "process_fin H skey w =
     (if find_session skey w = None then w
      else
        let w = (case session_handler_of skey w of
                   None \<Rightarrow> w
                 | Some h \<Rightarrow> so_close H h (snd skey) (w\<lparr>w_trace := w_trace w @ [EvClose h (snd skey)]\<rparr>))
        in if find_session skey w = None then w else erase_session skey w)"

definition process_data ::
  "fgw_env \<Rightarrow> u32 \<Rightarrow> 'a session_ops \<Rightarrow> session_key \<Rightarrow> u32 \<Rightarrow> bytes \<Rightarrow> 'a world \<Rightarrow> 'a world" where
  "process_data env now H skey seq payload w =
     (let w = ensure_session H skey w;
          w = (case find_session skey w of
                 None \<Rightarrow> w
               | Some st \<Rightarrow>
                   if e_mb_space env now (length payload) \<ge> length payload
                   then put_session skey (st\<lparr>st_rx_buffer := smap_emplace seq payload (st_rx_buffer st)\<rparr>) w
                   else w)
      in deliverInOrder H skey w)"

definition segment_dedup_key :: "FgwSegmentHeader \<Rightarrow> u32 \<Rightarrow> DedupKey" where
  "segment_dedup_key hdr rx_ingress =
     DedupKey rx_ingress (hdr_session_id hdr) (hdr_seq_num hdr)
       (if isSyn hdr then 1 else if isFin hdr then 2 else 0)"

definition record_dedup :: "DedupKey \<Rightarrow> datastream \<Rightarrow> datastream" where
  "record_dedup dk ds =
     (let ds = ds\<lparr>ds_dedup_map := smap_set dk True (ds_dedup_map ds)\<rparr>;
          ds = ds\<lparr>ds_dedup_queue := ds_dedup_queue ds @ [dk]\<rparr>
      in if length (ds_dedup_queue ds) > kDedupRing
         then ds\<lparr>ds_dedup_map := smap_erase (hd (ds_dedup_queue ds)) (ds_dedup_map ds),
                ds_dedup_queue := tl (ds_dedup_queue ds)\<rparr>
         else ds)"

definition has_data :: "FgwSegmentHeader \<Rightarrow> bool" where
  "has_data hdr = (isData hdr \<and> hdr_payload_len hdr > 0)"

definition rx_ingress_of :: "FgwSegmentHeader \<Rightarrow> u32" where
  "rx_ingress_of hdr = (if isHdrExt hdr then hdr_ingress_id hdr else 0)"

definition outside_window :: "session_key \<Rightarrow> u32 \<Rightarrow> 'a world \<Rightarrow> bool" where
  "outside_window skey seq w =
     (let expected = (case find_session skey w of None \<Rightarrow> 0 | Some st \<Rightarrow> st_expected_rx_seq st)
      in seq - expected \<ge> ucast (ds_recv_window (w_ds w)))"

definition process_session_segment ::
  "fgw_env \<Rightarrow> u32 \<Rightarrow> 'a session_ops \<Rightarrow> chan_ref \<Rightarrow> FgwSegmentHeader \<Rightarrow> bytes \<Rightarrow> 'a world \<Rightarrow> 'a world" where
  "process_session_segment env now H r hdr payload w =
     (let rx_ingress = rx_ingress_of hdr;
          skey = (rx_ingress, hdr_session_id hdr);
          dk = segment_dedup_key hdr rx_ingress;
          pc = peer_channel r w
      in if smap_count (ds_dedup_map (w_ds w)) dk
         then (if pc \<noteq> 0 then upd_ds (\<lambda>ds. ds\<lparr>ds_peer_part_count := bump pc (ds_peer_part_count ds)\<rparr>) w else w)
         else if has_data hdr \<and> outside_window skey (hdr_seq_num hdr) w then w
         else
           let w = upd_ds (record_dedup dk) w;
               w = (if pc \<noteq> 0
                    then upd_ds (\<lambda>ds. ds\<lparr>ds_peer_win_count := bump pc (ds_peer_win_count ds),
                                         ds_peer_part_count := bump pc (ds_peer_part_count ds)\<rparr>) w
                    else w);
               w = (if isSyn hdr then process_syn H skey w else w)
           in if isFin hdr then process_fin H skey w
              else if has_data hdr then process_data env now H skey (hdr_seq_num hdr) payload w
              else w)"

text \<open>One turn of the loop, once a whole frame is there.\<close>

definition process_segment ::
  "fgw_env \<Rightarrow> u32 \<Rightarrow> 'a session_ops \<Rightarrow> chan_ref \<Rightarrow> FgwSegmentHeader \<Rightarrow> nat \<Rightarrow> bytes \<Rightarrow> 'a world \<Rightarrow> 'a world" where
  "process_segment env now H r hdr hr frame w =
     (if ds_verify_crc (w_ds w) \<and> \<not> fgwSegmentVerifyCrc frame hdr (int hr) then w
      else
        let w = upd_mgr (upd_chan r noteSegmentRecv) w;
            payload = bslice hr (unat (hdr_payload_len hdr)) frame
        in if isHello hdr then process_hello env r payload w
           else if isHeartbeat hdr then w
           else if isAck hdr then process_ack env payload w
           else process_session_segment env now H r hdr payload w)"

definition scratch_of :: "chan_ref \<Rightarrow> 'a host \<Rightarrow> bytes" where
  "scratch_of r hst = (case smap_find (host_scratch hst) r of None \<Rightarrow> [] | Some b \<Rightarrow> b)"

definition onChannelBytes ::
  "fgw_env \<Rightarrow> u32 \<Rightarrow> 'a session_ops \<Rightarrow> chan_ref \<Rightarrow> bytes \<Rightarrow> 'a host \<Rightarrow> 'a host" where
  "onChannelBytes env now H r buf hst =
     (case frame_loop (process_segment env now H r) (scratch_of r hst @ buf) (host_world hst) of
        (rest, w) \<Rightarrow> \<lparr>host_scratch = smap_set r rest (host_scratch hst), host_world = w\<rparr>)"

section \<open>The racing arbiter\<close>

definition pick_step ::
  "fgw_env \<Rightarrow> (u32, u32) std_map \<Rightarrow> u32 \<times> u32 \<times> rat \<Rightarrow> u32 \<times> u32 \<Rightarrow> u32 \<times> u32 \<times> rat" where
  "pick_step env wins best kv =
     (case (best, kv) of ((best_id, best_part, best_rate), (cid, part)) \<Rightarrow>
        if part = 0 then best
        else
          let won = (case smap_find wins cid of None \<Rightarrow> 0 | Some n \<Rightarrow> n);
              rate = e_fl env (of_nat (unat won) / of_nat (unat part))
          in if rate > best_rate \<or> rate = best_rate \<and> part > best_part then (cid, part, rate) else best)"

definition pickPrimaryLocked :: "fgw_env \<Rightarrow> datastream \<Rightarrow> u32" where
  "pickPrimaryLocked env ds = fst (foldl (pick_step env (ds_peer_win_count ds)) (0, 0, - 1) (ds_peer_part_count ds))"

definition recommendedPrimary :: "fgw_env \<Rightarrow> datastream \<Rightarrow> u32" where
  "recommendedPrimary env ds = pickPrimaryLocked env ds"

definition halve_counts :: "(u32, u32) std_map \<Rightarrow> (u32, u32) std_map" where
  "halve_counts m = map (\<lambda>(k, n). (k, drop_bit 1 n)) m"

definition feedback_header :: "datastream \<Rightarrow> int \<Rightarrow> FgwSegmentHeader" where
  "feedback_header ds plen =
     FgwSegmentHeader_init\<lparr>hdr_flags := FLAG_ACK, hdr_payload_len := word_of_int plen, hdr_session_id := 0,
       hdr_seq_num := 0, hdr_ingress_id := ds_local_ingress_id ds\<rparr>"

definition emitFeedback :: "fgw_env \<Rightarrow> u32 \<Rightarrow> 'a world \<Rightarrow> 'a world" where
  "emitFeedback env now w =
     (if ds_peer_part_count (w_ds w) = [] then w
      else
        let best_id = pickPrimaryLocked env (w_ds w);
            w = upd_ds (\<lambda>ds. ds\<lparr>ds_peer_win_count := halve_counts (ds_peer_win_count ds),
                                ds_peer_part_count := halve_counts (ds_peer_part_count ds)\<rparr>) w
        in if best_id = 0 then w
           else
             let w = upd_ds (\<lambda>ds. ds\<lparr>ds_feedback_epoch := ds_feedback_epoch ds + 1\<rparr>) w;
                 fb = \<lparr>fb_decision_epoch = ds_feedback_epoch (w_ds w), fb_recommended_primary = best_id,
                       fb_alive_bitmap = 0, fb_highest_seq = 0\<rparr>;
                 (plen, payload) = zds_pack_FgwLinkFeedback (e_zds env) (Some 64) fb True
             in if plen < 0 then w
                else
                  case encode_block 128 (feedback_header (w_ds w) plen) (Some payload) plen of
                    Inl e \<Rightarrow> w
                  | Inr frame \<Rightarrow>
                      upd_mgr (\<lambda>m. foldl (\<lambda>m r. snd (chan_sendBytes env now frame r m)) m (liveChannels m)) w)"

section \<open>The manager's calls into the stream\<close>

text \<open>A subscriber other than this stream is another object, and its calls change nothing here.\<close>

definition onHeartbeatTick :: "fgw_env \<Rightarrow> u32 \<Rightarrow> 'a world \<Rightarrow> 'a world" where
  "onHeartbeatTick env now w =
     (let subs = m_bytes_subscribers (w_mgr w);
          w = upd_mgr (heartbeat_channels env now) w
      in foldl (\<lambda>w s. if s = ds_self (w_ds w) then emitFeedback env now w else w) w subs)"

definition dispatchChannelBytes ::
  "fgw_env \<Rightarrow> u32 \<Rightarrow> 'a session_ops \<Rightarrow> chan_ref \<Rightarrow> bytes \<Rightarrow> 'a host \<Rightarrow> 'a host" where
  "dispatchChannelBytes env now H r buf hst =
     foldl (\<lambda>hst s. if s = ds_self (w_ds (host_world hst)) then onChannelBytes env now H r buf hst else hst)
       hst (m_bytes_subscribers (w_mgr (host_world hst)))"

text \<open>\<^verbatim>\<open>TcpHandler::on_read_data\<close>\<close>

definition tcp_on_read_data ::
  "fgw_env \<Rightarrow> u32 \<Rightarrow> 'a session_ops \<Rightarrow> chan_ref \<Rightarrow> nat \<Rightarrow> bytes \<Rightarrow> 'a host \<Rightarrow> 'a host" where
  "tcp_on_read_data env now H r h buf hst =
     (if ch_tcp_ptr (m_heap (w_mgr (host_world hst)) r) = Some h then
        dispatchChannelBytes env now H r buf
          (hst\<lparr>host_world := upd_mgr (upd_chan r (addRecvBytes now (of_nat (length buf)))) (host_world hst)\<rparr>)
      else hst)"

end
