(* ===== verification/Fgw_Contract.thy ===== *)
theory Fgw_Contract
  imports Fgw_DataStream
begin

text \<open>
  The interface between \<^verbatim>\<open>DataStream\<close> and the handlers of its sessions. The locale \<open>session_handler\<close>
  states what the stream needs from them (a handler touches no session but its own), and the
  lemmas in it show what each part of the receive path may change. The handlers of the repository
  interpret the locale in the theories that model them.
\<close>

text \<open>Session keys are pairs; the simplifier shall not take them apart.\<close>

declare split_paired_All [simp del] split_paired_Ex [simp del]

section \<open>Frames\<close>

lemma find_put_session [simp]:
  "find_session k' (put_session k st w) = (if k' = k then Some st else find_session k' w)"
  by (simp add: find_session_def put_session_def upd_ds_def smap_find_set)

lemma find_erase_session [simp]:
  "find_session k' (erase_session k w) = (if k' = k then None else find_session k' w)"
  by (simp add: find_session_def erase_session_def upd_ds_def smap_find_erase)

lemma find_session_frame [simp]:
  "find_session k (w\<lparr>w_trace := tr\<rparr>) = find_session k w"
  "find_session k (upd_mgr g w) = find_session k w"
  by (simp_all add: find_session_def upd_mgr_def)

lemma find_session_upd_ds: "(\<And>ds. ds_sessions (f ds) = ds_sessions ds) \<Longrightarrow> find_session k (upd_ds f w) = find_session k w"
  by (simp add: find_session_def upd_ds_def)

text \<open>The members of a stream that only the receive path and the arbiter change.\<close>

definition ds_rest :: "datastream \<Rightarrow> datastream" where
  "ds_rest ds = ds\<lparr>ds_sessions := []\<rparr>"

text \<open>The part of a session that only the receive path changes.\<close>

definition rx_part :: "SessionState \<Rightarrow> SessionState" where
  "rx_part st = st\<lparr>st_next_send_seq := 0, st_closed := False\<rparr>"

lemma rx_part_fields:
  assumes "rx_part a = rx_part b"
  shows "st_handler a = st_handler b" "st_rx_buffer a = st_rx_buffer b"
    "st_expected_rx_seq a = st_expected_rx_seq b" "st_session_id a = st_session_id b"
    "st_wire_ingress_id a = st_wire_ingress_id b"
  using assms unfolding rx_part_def by (cases a; cases b; simp)+

text \<open>What a handler of session \<open>k\<close> may do to the world: send on or close its own session.\<close>

definition handler_frame :: "session_key \<Rightarrow> 'a world \<Rightarrow> 'a world \<Rightarrow> bool" where
  "handler_frame k w w' \<longleftrightarrow> w_trace w' = w_trace w \<and> ds_rest (w_ds w') = ds_rest (w_ds w) \<and>
     (\<forall>k'. k' \<noteq> k \<longrightarrow> find_session k' w' = find_session k' w) \<and>
     (\<forall>st'. find_session k w' = Some st' \<longrightarrow> (\<exists>st. find_session k w = Some st \<and> rx_part st' = rx_part st))"

lemma handler_frame_refl [simp]: "handler_frame k w w"
  by (auto simp: handler_frame_def)

lemma handler_frame_trans: "handler_frame k w w' \<Longrightarrow> handler_frame k w' w'' \<Longrightarrow> handler_frame k w w''"
  by (fastforce simp: handler_frame_def)

lemma handler_frame_mgr [simp]: "handler_frame k w (upd_mgr f w)"
  by (auto simp: handler_frame_def upd_mgr_def find_session_def)

lemma ds_rest_put [simp]: "ds_rest (w_ds (put_session k st w)) = ds_rest (w_ds w)"
  "ds_rest (w_ds (erase_session k w)) = ds_rest (w_ds w)"
  by (simp_all add: ds_rest_def put_session_def erase_session_def upd_ds_def)

lemma trace_put [simp]: "w_trace (put_session k st w) = w_trace w" "w_trace (erase_session k w) = w_trace w"
  "w_trace (upd_ds f w) = w_trace w" "w_trace (upd_mgr g w) = w_trace w"
  by (simp_all add: put_session_def erase_session_def upd_ds_def upd_mgr_def)

lemma app_put [simp]: "w_app (put_session k st w) = w_app w" "w_app (erase_session k w) = w_app w"
  "w_app (upd_ds f w) = w_app w" "w_app (upd_mgr g w) = w_app w"
  by (simp_all add: put_session_def erase_session_def upd_ds_def upd_mgr_def)

lemma mgr_put [simp]: "w_mgr (put_session k st w) = w_mgr w" "w_mgr (erase_session k w) = w_mgr w"
  "w_mgr (upd_ds f w) = w_mgr w" "w_mgr (upd_mgr g w) = g (w_mgr w)" "w_ds (upd_mgr g w) = w_ds w"
  "w_ds (upd_ds f w) = f (w_ds w)"
  by (simp_all add: put_session_def erase_session_def upd_ds_def upd_mgr_def)

lemma ds_rest_fields:
  assumes "ds_rest d = ds_rest e"
  shows "ds_local_ingress_id d = ds_local_ingress_id e" "ds_recv_window d = ds_recv_window e"
    "ds_dedup_map d = ds_dedup_map e" "ds_dedup_queue d = ds_dedup_queue e" "ds_verify_crc d = ds_verify_crc e"
    "ds_segment_size d = ds_segment_size e" "ds_route_outport_id d = ds_route_outport_id e"
  using assms unfolding ds_rest_def by (cases d; cases e; simp)+

lemma sendSessionData_frame:
  "handler_frame (resolveIngressKey (w_ds w) key, sid) w (snd (sendSessionData env now sid buf key w))"
  by (auto simp: sendSessionData_def Let_def handler_frame_def rx_part_def split: option.splits prod.splits)

lemma closeSession_frame:
  "handler_frame (resolveIngressKey (w_ds w) key, sid) w (closeSession env now sid key w)"
  by (auto simp: closeSession_def Let_def handler_frame_def split: option.splits)

section \<open>Events and in-order runs\<close>

definition event_bytes :: "handler_ref \<Rightarrow> session_event \<Rightarrow> bytes" where
  "event_bytes h e = (case e of EvData h' sid b \<Rightarrow> if h' = h then b else [] | _ \<Rightarrow> [])"

definition delivered :: "handler_ref \<Rightarrow> session_event list \<Rightarrow> bytes" where
  "delivered h tr = concat (map (event_bytes h) tr)"

lemma delivered_simps [simp]:
  "delivered h [] = []" "delivered h (tr @ tr') = delivered h tr @ delivered h tr'"
  "delivered h [EvOpen a s] = []" "delivered h [EvClose a s] = []"
  "delivered h [EvData a s b] = (if a = h then b else [])"
  by (simp_all add: delivered_def event_bytes_def)

section \<open>The contract of session handlers\<close>

definition wired_to :: "('a world \<Rightarrow> handler_ref \<Rightarrow> session_key \<Rightarrow> bool) \<Rightarrow> 'a world \<Rightarrow> bool" where
  "wired_to owns w \<longleftrightarrow> (\<forall>k st. find_session k w = Some st \<longrightarrow> st_session_id st = snd k \<and>
     (\<forall>h. st_handler st = Some h \<longrightarrow> owns w h k))"

text \<open>\<open>owns w h k\<close>: handler \<open>h\<close> was made for session \<open>k\<close>. It depends on the application and on the
  stream's own ingress id only, and lasts.\<close>

locale session_handler =
  fixes H :: "'a session_ops"
    and owns :: "'a world \<Rightarrow> handler_ref \<Rightarrow> session_key \<Rightarrow> bool"
  assumes owns_unique: "owns w h k \<Longrightarrow> owns w h k' \<Longrightarrow> k = k'"
    and owns_cong: "w_app w = w_app w' \<Longrightarrow> ds_local_ingress_id (w_ds w) = ds_local_ingress_id (w_ds w') \<Longrightarrow>
      owns w h k \<Longrightarrow> owns w' h k"
    and data_frame: "owns w h k \<Longrightarrow> handler_frame k w (so_data H h (snd k) buf w)"
    and data_owns: "owns w h k \<Longrightarrow> owns w h' k' \<Longrightarrow> owns (so_data H h (snd k) buf w) h' k'"
    and open_frame: "owns w h k \<Longrightarrow> handler_frame k w (so_open H h (snd k) w)"
    and open_keeps: "owns w h k \<Longrightarrow> find_session k w = Some st \<Longrightarrow>
      \<exists>st'. find_session k (so_open H h (snd k) w) = Some st' \<and> rx_part st' = rx_part st"
    and open_owns: "owns w h k \<Longrightarrow> owns w h' k' \<Longrightarrow> owns (so_open H h (snd k) w) h' k'"
    and close_frame: "owns w h k \<Longrightarrow> handler_frame k w (so_close H h (snd k) w)"
    and close_owns: "owns w h k \<Longrightarrow> owns w h' k' \<Longrightarrow> owns (so_close H h (snd k) w) h' k'"
    and unknown_frame: "so_unknown H = Some cb \<Longrightarrow> cb i s w = (ho, w') \<Longrightarrow>
      w_ds w' = w_ds w \<and> w_trace w' = w_trace w"
    and unknown_owns: "so_unknown H = Some cb \<Longrightarrow> cb i s w = (ho, w') \<Longrightarrow>
      (\<forall>h. ho = Some h \<longrightarrow> owns w' h (i, s)) \<and> (\<forall>h' k'. owns w h' k' \<longrightarrow> owns w' h' k')"
begin

abbreviation "wired \<equiv> wired_to owns"

lemma owns_same: "w_app w = w_app w' \<Longrightarrow> ds_local_ingress_id (w_ds w) = ds_local_ingress_id (w_ds w') \<Longrightarrow>
    owns w h k = owns w' h k"
  using owns_cong [of w w' h k] owns_cong [of w' w h k] by auto

text \<open>What a step does to the sessions other than \<open>k\<close>: nothing; what it keeps for all.\<close>

definition calm :: "session_key \<Rightarrow> 'a world \<Rightarrow> 'a world \<Rightarrow> bool" where
  "calm k w w' \<longleftrightarrow>
     (\<forall>k'. k' \<noteq> k \<longrightarrow> find_session k' w' = find_session k' w) \<and>
     (\<forall>h k'. owns w h k' \<longrightarrow> owns w' h k') \<and>
     (\<forall>h k'. owns w h k' \<longrightarrow> k' \<noteq> k \<longrightarrow> delivered h (w_trace w') = delivered h (w_trace w)) \<and>
     ds_rest (w_ds w') = ds_rest (w_ds w) \<and> (wired w \<longrightarrow> wired w')"

lemma calm_refl [simp]: "calm k w w"
  by (simp add: calm_def)

lemma calm_trans: "calm k w w' \<Longrightarrow> calm k w' w'' \<Longrightarrow> calm k w w''"
  unfolding calm_def by metis

lemma calm_owns: "calm k w w' \<Longrightarrow> owns w h k' \<Longrightarrow> owns w' h k'"
  unfolding calm_def by blast

lemma calm_put:
  assumes "st_session_id st = snd k" "\<And>h. st_handler st = Some h \<Longrightarrow> owns w h k"
  shows "calm k w (put_session k st w)"
proof -
  have "owns (put_session k st w) h k' = owns w h k'" for h k'
    by (rule owns_same) (simp_all add: put_session_def upd_ds_def)
  then show ?thesis
    using assms by (auto simp: calm_def wired_to_def split: if_splits)
qed

lemma calm_erase: "calm k w (erase_session k w)"
proof -
  have "owns (erase_session k w) h k' = owns w h k'" for h k'
    by (rule owns_same) (simp_all add: erase_session_def upd_ds_def)
  then show ?thesis
    by (auto simp: calm_def wired_to_def split: if_splits)
qed

text \<open>A callback of \<open>h\<close> with its trace entry.\<close>

lemma calm_call:
  assumes own: "owns w h k" and frame: "handler_frame k (w\<lparr>w_trace := w_trace w @ [ev]\<rparr>) w'"
    and keep: "\<And>h' k'. owns w h' k' \<Longrightarrow> owns w' h' k'"
    and ev: "\<And>h'. h' \<noteq> h \<Longrightarrow> event_bytes h' ev = []"
  shows "calm k w w'"
proof -
  have "delivered h' (w_trace w') = delivered h' (w_trace w)" if "owns w h' k'" "k' \<noteq> k" for h' k'
  proof -
    have "h' \<noteq> h" using owns_unique [OF own, of k'] that by metis
    then show ?thesis
      using frame ev by (simp add: handler_frame_def) (simp add: delivered_def)
  qed
  moreover have "wired w'" if "wired w"
    unfolding wired_to_def
  proof (intro allI impI)
    fix k' st' assume f: "find_session k' w' = Some st'"
    then obtain st where st: "find_session k' w = Some st" "rx_part st' = rx_part st"
      using frame by (cases "k' = k") (auto simp: handler_frame_def)
    show "st_session_id st' = snd k' \<and> (\<forall>h. st_handler st' = Some h \<longrightarrow> owns w' h k')"
      using that st(1) keep unfolding rx_part_fields [OF st(2)] wired_to_def by blast
  qed
  moreover have "\<forall>k'. k' \<noteq> k \<longrightarrow> find_session k' w' = find_session k' w" "ds_rest (w_ds w') = ds_rest (w_ds w)"
    using frame by (simp_all add: handler_frame_def)
  ultimately show ?thesis
    unfolding calm_def using keep by blast
qed

lemma owns_trace: "owns w h k \<Longrightarrow> owns (w\<lparr>w_trace := tr\<rparr>) h k"
  by (erule owns_cong [rotated 2]) simp_all

lemma calm_call_data: "owns w h k \<Longrightarrow> calm k w (call_data H h (snd k) w blk)"
  by (auto simp: call_data_def event_bytes_def intro!: calm_call data_frame data_owns owns_trace)

lemma calm_call_datas: "owns w h k \<Longrightarrow> calm k w (foldl (call_data H h (snd k)) w blks)"
proof (induction blks arbitrary: w)
  case (Cons b blks)
  then have "calm k w (call_data H h (snd k) w b)" by (rule_tac calm_call_data)
  with Cons show ?case
    by (auto intro: calm_trans calm_owns)
qed simp

lemma wiredD:
  "wired w \<Longrightarrow> find_session k w = Some st \<Longrightarrow> st_session_id st = snd k"
  "wired w \<Longrightarrow> find_session k w = Some st \<Longrightarrow> st_handler st = Some h \<Longrightarrow> owns w h k"
  by (simp_all add: wired_to_def)

lemma calm_deliver: "wired w \<Longrightarrow> calm k w (deliverInOrder H k w)"
proof (cases "find_session k w")
  case (Some st)
  assume wired: "wired w"
  show ?thesis
  proof (cases "st_handler st")
    case h: (Some h)
    obtain ready buf e where c: "collect_ready (st_rx_buffer st) (st_expected_rx_seq st) = (ready, buf, e)"
      by (metis prod_cases3)
    let ?w = "put_session k (st\<lparr>st_rx_buffer := buf, st_expected_rx_seq := e\<rparr>) w"
    have sid: "st_session_id st = snd k" and own: "owns w h k"
      using wiredD [OF wired Some] h by auto
    have put: "calm k w ?w" using sid own h by (intro calm_put) auto
    then have "calm k ?w (foldl (call_data H h (snd k)) ?w ready)"
      using own calm_owns [OF put] by (intro calm_call_datas)
    with put Some h c sid show ?thesis
      by (auto simp: deliverInOrder_def intro: calm_trans)
  qed (simp add: deliverInOrder_def Some)
qed (simp add: deliverInOrder_def)

lemma calm_ensure: "calm k w (ensure_session H k w)"
proof (cases "find_session k w = None")
  case True
  have cr: "calm k w (create_session H k w)"
  proof (cases "so_unknown H")
    case None
    then show ?thesis
      by (auto simp: create_session_def SessionState_init_def intro!: calm_put)
  next
    case (Some cb)
    obtain ho w' where cb: "cb (fst k) (snd k) w = (ho, w')" by fastforce
    note fr = unknown_frame [OF Some cb] and own = unknown_owns [OF Some cb]
    have "find_session k' w' = find_session k' w" for k'
      using fr by (simp add: find_session_def)
    then have "calm k w w'"
      using fr own by (simp add: calm_def wired_to_def)
    moreover have "calm k w' (put_session k (SessionState_init\<lparr>st_session_id := snd k,
        st_wire_ingress_id := fst k, st_handler := ho\<rparr>) w')"
      using own by (intro calm_put) auto
    ultimately show ?thesis
      using Some cb by (auto simp: create_session_def intro: calm_trans)
  qed
  with True show ?thesis by (simp add: ensure_session_def)
next
  case False
  then have "ensure_session H k w = w" by (simp only: ensure_session_def if_False)
  then show ?thesis by simp
qed

lemma calm_wired: "calm k w w' \<Longrightarrow> wired w \<Longrightarrow> wired w'"
  by (simp add: calm_def)

lemma session_handler_owned: "wired w \<Longrightarrow> session_handler_of k w = Some h \<Longrightarrow> owns w h k"
  by (auto simp: session_handler_of_def wired_to_def split: option.splits)

lemma calm_syn: "wired w \<Longrightarrow> calm k w (process_syn H k w)"
proof -
  assume wired: "wired w"
  let ?w = "ensure_session H k w"
  have w: "calm k w ?w" "wired ?w"
    using calm_ensure calm_wired wired by blast+
  show ?thesis
  proof (cases "session_handler_of k ?w")
    case (Some h)
    have own: "owns ?w h k" using session_handler_owned w Some by blast
    have "calm k ?w (so_open H h (snd k) (?w\<lparr>w_trace := w_trace ?w @ [EvOpen h (snd k)]\<rparr>))"
      by (rule calm_call [OF own]) (auto simp: event_bytes_def intro!: open_frame open_owns owns_trace own)
    with w Some show ?thesis
      by (auto simp: process_syn_def Let_def intro: calm_trans)
  qed (simp add: process_syn_def w)
qed

lemma calm_fin: "wired w \<Longrightarrow> calm k w (process_fin H k w)"
proof -
  assume wired: "wired w"
  define w1 where "w1 = (case session_handler_of k w of None \<Rightarrow> w
      | Some h \<Rightarrow> so_close H h (snd k) (w\<lparr>w_trace := w_trace w @ [EvClose h (snd k)]\<rparr>))"
  have w1: "calm k w w1"
  proof (cases "session_handler_of k w")
    case (Some h)
    have own: "owns w h k" using session_handler_owned wired Some by blast
    have "calm k w (so_close H h (snd k) (w\<lparr>w_trace := w_trace w @ [EvClose h (snd k)]\<rparr>))"
      by (rule calm_call [OF own]) (auto simp: event_bytes_def intro!: close_frame close_owns owns_trace own)
    with Some show ?thesis by (simp add: w1_def)
  qed (simp add: w1_def)
  then show ?thesis
    unfolding process_fin_def Let_def w1_def [symmetric]
    by (auto intro: calm_trans calm_erase)
qed

lemma calm_data: "wired w \<Longrightarrow> calm k w (process_data env now H k seq payload w)"
proof -
  assume wired: "wired w"
  define w1 where "w1 = ensure_session H k w"
  define w2 where "w2 = (case find_session k w1 of None \<Rightarrow> w1
      | Some st \<Rightarrow> if e_mb_space env now (length payload) \<ge> length payload
          then put_session k (st\<lparr>st_rx_buffer := smap_emplace seq payload (st_rx_buffer st)\<rparr>) w1 else w1)"
  have w1: "calm k w w1" "wired w1"
    unfolding w1_def using calm_ensure calm_wired wired by blast+
  have w2: "calm k w1 w2"
    unfolding w2_def using wiredD [OF w1(2), of k] by (cases "find_session k w1") (auto intro!: calm_put)
  have "process_data env now H k seq payload w = deliverInOrder H k w2"
    unfolding process_data_def w1_def w2_def Let_def by simp
  with calm_deliver [OF calm_wired [OF w2 w1(2)], of k] w1 w2 show ?thesis
    by (metis calm_trans)
qed

end

section \<open>Steps that touch no session\<close>

text \<open>What a stream is made with and never changes.\<close>

definition ds_setup :: "datastream \<Rightarrow> nat \<times> u16 \<times> bool \<times> u32" where
  "ds_setup ds = (ds_self ds, ds_segment_size ds, ds_verify_crc ds, ds_route_outport_id ds)"

definition neutral :: "'a world \<Rightarrow> 'a world \<Rightarrow> bool" where
  "neutral w w' \<longleftrightarrow> w_app w' = w_app w \<and> w_trace w' = w_trace w \<and>
     ds_sessions (w_ds w') = ds_sessions (w_ds w) \<and>
     ds_local_ingress_id (w_ds w') = ds_local_ingress_id (w_ds w) \<and>
     ds_recv_window (w_ds w') = ds_recv_window (w_ds w) \<and> ds_setup (w_ds w') = ds_setup (w_ds w)"

lemma neutral_refl [simp]: "neutral w w"
  by (simp add: neutral_def)

lemma neutral_mgr [simp]: "neutral w (upd_mgr f w)"
  by (simp add: neutral_def)

lemma neutral_find: "neutral w w' \<Longrightarrow> find_session k w' = find_session k w"
  by (simp add: neutral_def find_session_def)

lemma neutral_counts [simp]:
  "neutral w (upd_ds (\<lambda>ds. ds\<lparr>ds_peer_part_count := a ds\<rparr>) w)"
  "neutral w (upd_ds (\<lambda>ds. ds\<lparr>ds_peer_win_count := b ds, ds_peer_part_count := a ds\<rparr>) w)"
  by (simp_all add: neutral_def ds_setup_def)

lemma record_dedup_fields [simp]:
  "ds_sessions (record_dedup dk ds) = ds_sessions ds"
  "ds_local_ingress_id (record_dedup dk ds) = ds_local_ingress_id ds"
  "ds_recv_window (record_dedup dk ds) = ds_recv_window ds"
  "ds_peer_win_count (record_dedup dk ds) = ds_peer_win_count ds"
  "ds_peer_part_count (record_dedup dk ds) = ds_peer_part_count ds"
  "ds_setup (record_dedup dk ds) = ds_setup ds"
  by (simp_all add: record_dedup_def ds_setup_def Let_def)

lemma record_dedup_count:
  "smap_count (ds_dedup_map (record_dedup dk ds)) x \<Longrightarrow> x = dk \<or> smap_count (ds_dedup_map ds) x"
  by (auto simp: record_dedup_def Let_def smap_count_def smap_find_set smap_find_erase split: if_splits)

lemma neutral_record [simp]: "neutral w (upd_ds (record_dedup dk) w)"
  by (simp add: neutral_def)

lemma neutral_trans: "neutral w w' \<Longrightarrow> neutral w' w'' \<Longrightarrow> neutral w w''"
  by (simp add: neutral_def)

lemma neutral_hello: "neutral w (process_hello env r payload w)"
  by (auto simp: process_hello_def Let_def neutral_def ds_setup_def split: prod.splits)

lemma neutral_ack: "neutral w (process_ack env payload w)"
  by (auto simp: process_ack_def Let_def neutral_def ds_setup_def split: prod.splits)

lemma dedup_map_hello [simp]: "ds_dedup_map (w_ds (process_hello env r payload w)) = ds_dedup_map (w_ds w)"
  "ds_dedup_map (w_ds (process_ack env payload w)) = ds_dedup_map (w_ds w)"
  by (auto simp: process_hello_def process_ack_def Let_def split: prod.splits)

text \<open>The bookkeeping of a fresh segment before its session is looked up.\<close>

definition note_fresh :: "DedupKey \<Rightarrow> u32 \<Rightarrow> 'a world \<Rightarrow> 'a world" where
  "note_fresh dk pc w =
     (let w = upd_ds (record_dedup dk) w
      in if pc \<noteq> 0
         then upd_ds (\<lambda>ds. ds\<lparr>ds_peer_win_count := bump pc (ds_peer_win_count ds),
                              ds_peer_part_count := bump pc (ds_peer_part_count ds)\<rparr>) w
         else w)"

definition note_duplicate :: "u32 \<Rightarrow> 'a world \<Rightarrow> 'a world" where
  "note_duplicate pc w =
     (if pc \<noteq> 0 then upd_ds (\<lambda>ds. ds\<lparr>ds_peer_part_count := bump pc (ds_peer_part_count ds)\<rparr>) w else w)"

lemma process_session_segment_alt:
  "process_session_segment env now H r hdr payload w =
     (let skey = (rx_ingress_of hdr, hdr_session_id hdr);
          dk = segment_dedup_key hdr (rx_ingress_of hdr);
          w1 = note_fresh dk (peer_channel r w) w;
          w2 = (if isSyn hdr then process_syn H skey w1 else w1)
      in if smap_count (ds_dedup_map (w_ds w)) dk then note_duplicate (peer_channel r w) w
         else if has_data hdr \<and> outside_window skey (hdr_seq_num hdr) w then w
         else if isFin hdr then process_fin H skey w2
         else if has_data hdr then process_data env now H skey (hdr_seq_num hdr) payload w2
         else w2)"
  by (simp add: process_session_segment_def note_fresh_def note_duplicate_def Let_def)

lemma neutral_note [simp]: "neutral w (note_fresh dk pc w)" "neutral w (note_duplicate pc w)"
proof -
  show "neutral w (note_fresh dk pc w)"
    unfolding note_fresh_def Let_def
    by (auto intro: neutral_trans [OF neutral_record neutral_counts(2)])
qed (simp add: note_duplicate_def)

lemma note_fresh_count:
  "smap_count (ds_dedup_map (w_ds (note_fresh dk pc w))) x \<Longrightarrow> x = dk \<or> smap_count (ds_dedup_map (w_ds w)) x"
  by (auto simp: note_fresh_def Let_def dest: record_dedup_count split: if_splits)

lemma dedup_map_duplicate [simp]: "ds_dedup_map (w_ds (note_duplicate pc w)) = ds_dedup_map (w_ds w)"
  by (simp add: note_duplicate_def)

context session_handler
begin

lemma neutral_owns: "neutral w w' \<Longrightarrow> owns w' h k = owns w h k"
  by (rule owns_same) (simp_all add: neutral_def)

lemma neutral_wired: "neutral w w' \<Longrightarrow> wired w' = wired w"
  by (simp add: wired_to_def neutral_find neutral_owns)

text \<open>A segment of another session, or of none, as seen by session \<open>k\<close>.\<close>

definition undisturbed :: "session_key \<Rightarrow> 'a world \<Rightarrow> 'a world \<Rightarrow> bool" where
  "undisturbed k w w' \<longleftrightarrow> (wired w \<longrightarrow> wired w') \<and> find_session k w' = find_session k w \<and>
     (\<forall>h. owns w h k \<longrightarrow> delivered h (w_trace w') = delivered h (w_trace w)) \<and>
     ds_recv_window (w_ds w') = ds_recv_window (w_ds w) \<and>
     (\<forall>s. smap_count (ds_dedup_map (w_ds w')) (DedupKey (fst k) (snd k) s 0) \<longrightarrow>
          smap_count (ds_dedup_map (w_ds w)) (DedupKey (fst k) (snd k) s 0))"

lemma undisturbed_refl [simp]: "undisturbed k w w"
  by (simp add: undisturbed_def)

lemma undisturbed_neutral:
  assumes "neutral w w'"
    and "\<And>s. smap_count (ds_dedup_map (w_ds w')) (DedupKey (fst k) (snd k) s 0) \<Longrightarrow>
          smap_count (ds_dedup_map (w_ds w)) (DedupKey (fst k) (snd k) s 0)"
  shows "undisturbed k w w'"
  using assms by (simp add: undisturbed_def neutral_wired neutral_find) (simp add: neutral_def)

lemma undisturbed_calm:
  assumes "undisturbed k w w'" "neutral w w'" and "calm k2 w' w''" "k \<noteq> k2"
  shows "undisturbed k w w''"
proof -
  have "ds_dedup_map (w_ds w'') = ds_dedup_map (w_ds w')" "ds_recv_window (w_ds w'') = ds_recv_window (w_ds w')"
    using assms(3) ds_rest_fields [of "w_ds w''" "w_ds w'"] by (simp_all add: calm_def)
  moreover have "\<forall>h. owns w h k \<longrightarrow> delivered h (w_trace w'') = delivered h (w_trace w')"
    using assms(3,4) neutral_owns [OF assms(2)] by (simp add: calm_def)
  moreover have "find_session k w'' = find_session k w'" "wired w' \<longrightarrow> wired w''"
    using assms(3,4) by (simp_all add: calm_def)
  ultimately show ?thesis
    using assms(1) unfolding undisturbed_def by simp
qed

lemma calm_session_steps:
  assumes "wired w1" and "w2 = (if isSyn hdr then process_syn H skey w1 else w1)"
  shows "calm skey w1 (if isFin hdr then process_fin H skey w2
         else if has_data hdr then process_data env now H skey seq payload w2 else w2)"
proof -
  have w2: "calm skey w1 w2" "wired w2"
    using assms calm_syn [OF assms(1), of skey] calm_wired [of skey w1 w2] by auto
  then show ?thesis
    using calm_fin [of w2 skey] calm_data [of w2 skey env now seq payload] by (auto intro: calm_trans)
qed

lemma session_segment_other:
  assumes "wired w" and k: "(rx_ingress_of hdr, hdr_session_id hdr) \<noteq> k"
  shows "undisturbed k w (process_session_segment env now H r hdr payload w)"
proof -
  let ?k = "(rx_ingress_of hdr, hdr_session_id hdr)"
  let ?w1 = "note_fresh (segment_dedup_key hdr (rx_ingress_of hdr)) (peer_channel r w) w"
  have n1: "neutral w ?w1" by simp
  have u1: "undisturbed k w ?w1"
    using k by (intro undisturbed_neutral n1) (auto simp: segment_dedup_key_def prod_eq_iff dest!: note_fresh_count)
  have "wired ?w1" using assms(1) neutral_wired [OF n1] by simp
  from undisturbed_calm [OF u1 n1 calm_session_steps [OF this refl, where skey = ?k and seq = "hdr_seq_num hdr"]] k
  show ?thesis
    unfolding process_session_segment_alt Let_def by (auto intro: undisturbed_neutral)
qed

end

end
