(* ===== verification/Fgw_Wires.thy ===== *)
theory Fgw_Wires
  imports Fgw_Contract
begin

text \<open>
  What every channel of a manager keeps: on its wire are whole segment frames and nothing else, and the round-trip
  time, the loss rate, the segments sent and sent again of its link quality are what they were when it was made.
  Every operation of the manager and every operation of the stream that sends keeps it: all of them send what the
  encoder wrote, and none of them measures.
\<close>

declare split_paired_All [simp del] split_paired_Ex [simp del]

definition unmeasured :: "LinkQuality \<Rightarrow> bool" where
  "unmeasured q \<longleftrightarrow> lq_rtt_ms q = 0 \<and> lq_loss_rate q = 0 \<and> lq_send_segments q = 0 \<and> lq_rexmit_segments q = 0"

definition chan_ok :: "channel \<Rightarrow> bool" where
  "chan_ok c \<longleftrightarrow> (\<forall>b \<in> set (ch_wire c). is_frame b) \<and> unmeasured (ch_quality c)"

definition wires_ok :: "manager \<Rightarrow> bool" where
  "wires_ok m \<longleftrightarrow> (\<forall>r. chan_ok (m_heap m r))"

lemma wires_ok_heap: "m_heap m' = m_heap m \<Longrightarrow> wires_ok m' = wires_ok m"
  by (simp add: wires_ok_def)

lemma wires_ok_fields [simp]:
  "wires_ok (m\<lparr>m_config := a\<rparr>) = wires_ok m" "wires_ok (m\<lparr>m_selector := b\<rparr>) = wires_ok m"
  "wires_ok (m\<lparr>m_channels := c\<rparr>) = wires_ok m" "wires_ok (m\<lparr>m_timers := d\<rparr>) = wires_ok m"
  "wires_ok (m\<lparr>m_bytes_subscribers := e\<rparr>) = wires_ok m" "wires_ok (m\<lparr>m_link_acceptor := g\<rparr>) = wires_ok m"
  "wires_ok (m\<lparr>m_heartbeat_timer := h\<rparr>) = wires_ok m" "wires_ok (m\<lparr>m_shared_utp := i\<rparr>) = wires_ok m"
  "wires_ok (m\<lparr>m_accepted_id_seq := j\<rparr>) = wires_ok m"
  by (rule wires_ok_heap, simp)+

lemma wires_ok_upd: "wires_ok m \<Longrightarrow> (chan_ok (m_heap m r) \<Longrightarrow> chan_ok (f (m_heap m r))) \<Longrightarrow> wires_ok (upd_chan r f m)"
  by (simp add: wires_ok_def)

lemma wires_ok_at: "wires_ok m \<Longrightarrow> chan_ok (m_heap m r)"
  by (simp add: wires_ok_def)

lemma chan_ok_ops [simp]:
  "chan_ok (evaluateStall now timeout c) = chan_ok c" "chan_ok (markAccepted c) = chan_ok c"
  "chan_ok (setPeerIdentity i j k c) = chan_ok c" "chan_ok (markClosed c) = chan_ok c"
  "chan_ok (addRecvBytes now n c) = chan_ok c" "chan_ok (noteSegmentRecv c) = chan_ok c"
  "chan_ok (chan_close c) = chan_ok c" "chan_ok (snd (chan_connect env now remote c)) = chan_ok c"
  "chan_ok (createAcceptedHandler c) = chan_ok c" "chan_ok (snd (markConnected now v c)) = chan_ok c"
  "chan_ok (new_channel cid kind priority)"
  by (simp_all add: chan_defs chan_ok_def unmeasured_def LinkQuality_init_def split: ZFGW_CHANNEL_KIND.split)

lemma chan_ok_send: "chan_ok c \<Longrightarrow> is_frame buf \<Longrightarrow> chan_ok (snd (sendBytes env now buf c))"
  using sendBytes_cases [of env now buf c] by (auto simp: chan_ok_def unmeasured_def addSentBytes_def)

lemma wires_ok_send: "wires_ok m \<Longrightarrow> is_frame buf \<Longrightarrow> wires_ok (snd (chan_sendBytes env now buf r m))"
  unfolding chan_sendBytes_snd by (intro wires_ok_upd) (simp_all add: chan_ok_send)

lemma wires_ok_alloc: "wires_ok m \<Longrightarrow> chan_ok c \<Longrightarrow> wires_ok (snd (alloc_chan c m))"
  by (simp add: wires_ok_def alloc_chan_def)

lemma wires_ok_removeChannel: "wires_ok m \<Longrightarrow> wires_ok (snd (removeChannel cid m))"
  by (auto simp: removeChannel_def Let_def wires_ok_upd split: option.split)

lemma wires_ok_addChannel:
  assumes ok: "wires_ok m"
  shows "wires_ok (snd (addChannel env now cfg m))"
proof -
  have utp: "wires_ok (sharedUtpContext env a b m)" for a b
    using ok by (auto simp: sharedUtpContext_def split: option.split prod.split)
  have dial: "wires_ok (upd_chan r (\<lambda>_. snd (chan_connect env now e (m_heap m1 r))) (m1\<lparr>m_channels := cs\<rparr>))"
    if "wires_ok m1" for r m1 e cs
    using that by (intro wires_ok_upd) auto
  show ?thesis
    unfolding addChannel_def Let_def case_prod_beta using ok utp by (simp add: dial wires_ok_alloc)
qed

lemma wires_ok_accept: "wires_ok m \<Longrightarrow> wires_ok (snd (accept_link m))"
proof -
  assume "wires_ok m"
  then have "wires_ok (snd (alloc_chan (markAccepted (new_channel i CHANNEL_TCP 100)) (m\<lparr>m_accepted_id_seq := j\<rparr>)))" for i j
    by (intro wires_ok_alloc) simp_all
  then show ?thesis
    unfolding accept_link_def makeAcceptedChannel_def Let_def case_prod_beta snd_conv by (intro wires_ok_upd) simp_all
qed

lemma wires_ok_sendHello: "wires_ok m \<Longrightarrow> wires_ok (sendHello env now r m)"
  by (auto simp: sendHello_def Let_def intro: wires_ok_send dest: encode_block_frame split: prod.split sum.split)

lemma wires_ok_sendHeartbeat: "wires_ok m \<Longrightarrow> wires_ok (sendHeartbeat env now r m)"
  by (auto simp: sendHeartbeat_def Let_def intro: wires_ok_send dest: encode_block_frame split: sum.split)

lemma wires_ok_heartbeats: "wires_ok m \<Longrightarrow> wires_ok (heartbeat_channels env now m)"
  unfolding heartbeat_channels_def Let_def
  by (rule foldl_inv [where P = wires_ok]) (auto simp: heartbeat_channel_def intro!: wires_ok_upd wires_ok_sendHeartbeat)

lemma wires_ok_on_open: "wires_ok m \<Longrightarrow> wires_ok (tcp_on_open env now r h m)"
  by (simp add: tcp_on_open_def onChannelConnected_def case_prod_beta wires_ok_sendHello wires_ok_upd)

lemma wires_ok_on_close: "wires_ok m \<Longrightarrow> wires_ok (tcp_on_close r h m)"
  by (simp add: tcp_on_close_def onChannelClosed_def scheduleReconnect_def Let_def case_prod_beta wires_ok_upd)

lemma wires_ok_start: "wires_ok m \<Longrightarrow> wires_ok (snd (mgr_start env now cfg m))"
  using foldl_inv [where P = wires_ok and f = "\<lambda>m c. snd (addChannel env now c m)"] wires_ok_addChannel
  by (simp add: mgr_start_def startHeartbeat_def Let_def)

lemma wires_ok_stop: "wires_ok m \<Longrightarrow> wires_ok (mgr_stop m)"
proof -
  assume "wires_ok m"
  then have "wires_ok (foldl (\<lambda>m r. upd_chan r chan_close m) (m\<lparr>m_link_acceptor := a, m_heartbeat_timer := b, m_bytes_subscribers := c\<rparr>) rs)" for a b c rs
    by (intro foldl_inv [where P = wires_ok]) (simp_all add: wires_ok_upd)
  then show ?thesis by (simp add: mgr_stop_def stopLinkListener_def Let_def)
qed

lemma wires_ok_timer: "wires_ok m \<Longrightarrow> wires_ok (fire_timer env now i m)"
  by (auto simp: fire_timer_def run_timer_def wires_ok_addChannel wires_ok_removeChannel split: mgr_timer.split)

lemma wires_ok_copies: "wires_ok m \<Longrightarrow> is_frame frame \<Longrightarrow> wires_ok (snd (send_copies env now frame live i ids best m))"
proof (induction env now frame live i ids best m rule: send_copies.induct)
  case (2 env now frame live i cid ids best m)
  show ?case
  proof (cases "find (\<lambda>r. ch_channel_id (m_heap m r) = cid) live")
    case (Some r)
    obtain ret m' where s: "chan_sendBytes env now frame r m = (ret, m')" by fastforce
    then have "wires_ok m'" using wires_ok_send [OF "2.prems", of env now r] by simp
    with 2 Some s show ?thesis by simp
  qed (use 2 in simp)
qed simp

lemma wires_ok_sendSegment: "wires_ok m \<Longrightarrow> wires_ok (snd (sendSegment env now ds wi sid seq flags payload m))"
  by (auto simp: sendSegment_def Let_def case_prod_beta dest: encode_block_frame intro!: wires_ok_copies split: sum.split)

lemma wires_ok_send_loop: "wires_ok m \<Longrightarrow> wires_ok (snd (snd (send_loop env now ds wi sid rest written seq m)))"
proof (induction env now ds wi sid rest written seq m rule: send_loop.induct)
  case (1 env now ds wi sid rest written seq m)
  let ?c = "min (length rest) (unat (ds_segment_size ds))"
  obtain r1 m1 where s: "sendSegment env now ds wi sid seq FLAG_DATA (Some (take ?c rest)) m = (r1, m1)" by fastforce
  have "wires_ok m1" using wires_ok_sendSegment [OF "1.prems", of env now ds wi sid seq FLAG_DATA "Some (take ?c rest)"] s by simp
  then show ?case
    using "1.IH" [OF _ refl s [symmetric]] "1.prems" s by (simp add: send_loop.simps [of env now ds wi sid rest] Let_def)
qed

lemma mgr_step_wires: "mgr_step env m m' \<Longrightarrow> wires_ok m \<Longrightarrow> wires_ok m'"
proof (induction rule: mgr_step.induct)
  case (listen m ip port)
  then show ?case by (simp add: startLinkListener_def)
qed (simp_all add: wires_ok_start wires_ok_stop wires_ok_addChannel wires_ok_removeChannel wires_ok_accept
    wires_ok_on_open wires_ok_on_close wires_ok_timer wires_ok_heartbeats wires_ok_send wires_ok_upd
    addBytesSubscriber_def removeBytesSubscriber_def)

lemma mgr_reachable_wires: "mgr_reachable env m \<Longrightarrow> wires_ok m"
proof (induction rule: mgr_reachable.induct)
  case init
  then show ?case by (simp add: wires_ok_def manager_init_def)
qed (rule mgr_step_wires)

section \<open>The stream\<close>

lemma wires_ok_sessions:
  assumes "wires_ok (w_mgr w)"
  shows "wires_ok (w_mgr (snd (openSession env now sid ho w)))" "wires_ok (w_mgr (closeSession env now sid key w))"
    "wires_ok (w_mgr (snd (sendSessionData env now sid buf key w)))"
proof -
  show "wires_ok (w_mgr (snd (openSession env now sid ho w)))" "wires_ok (w_mgr (closeSession env now sid key w))"
    using assms by (simp_all add: openSession_def closeSession_def Let_def wires_ok_sendSegment split: option.split)
  show "wires_ok (w_mgr (snd (sendSessionData env now sid buf key w)))"
    using assms wires_ok_send_loop [OF assms, of env now]
    by (simp add: sendSessionData_def Let_def case_prod_beta split: option.split)
qed

lemma wires_ok_feedback: "wires_ok (w_mgr w) \<Longrightarrow> wires_ok (w_mgr (emitFeedback env now w))"
proof -
  assume ok: "wires_ok (w_mgr w)"
  have "wires_ok (foldl (\<lambda>m r. snd (chan_sendBytes env now frame r m)) (w_mgr w) rs)" if "is_frame frame" for frame rs
    by (rule foldl_inv [where P = wires_ok, OF ok]) (rule wires_ok_send [OF _ that])
  then show ?thesis
    using ok by (auto simp: emitFeedback_def Let_def case_prod_beta dest: encode_block_frame split: sum.split)
qed

end
