(* ===== verification/Fgw_Safety.thy ===== *)
theory Fgw_Safety
  imports Fgw_Wires
begin

text \<open>
  Predicates of a gateway that its receive path keeps, as two locales. \<open>segment_invariant\<close>: a predicate
  that every segment keeps is kept by reads, dispatch and heartbeat ticks. \<open>handler_safety\<close>: a
  predicate that the calls of the handlers and the stream's own bookkeeping keep is kept by every
  segment; it asks nothing else of the handlers.
\<close>

declare split_paired_All [simp del] split_paired_Ex [simp del]

section \<open>Quiet steps\<close>

text \<open>A step that touches neither sessions nor handlers, and does no harm to the manager.\<close>

definition quiet :: "'a world \<Rightarrow> 'a world \<Rightarrow> bool" where
  "quiet w w' \<longleftrightarrow> neutral w w' \<and> (mgr_inv (w_mgr w) \<longrightarrow> mgr_inv (w_mgr w')) \<and>
     (wires_ok (w_mgr w) \<longrightarrow> wires_ok (w_mgr w'))"

lemma quiet_refl [simp]: "quiet w w"
  by (simp add: quiet_def)

lemma quiet_upd_mgr: "(mgr_inv (w_mgr w) \<Longrightarrow> mgr_inv (f (w_mgr w))) \<Longrightarrow>
    (wires_ok (w_mgr w) \<Longrightarrow> wires_ok (f (w_mgr w))) \<Longrightarrow> quiet w (upd_mgr f w)"
  by (simp add: quiet_def)

lemma quiet_trans: "quiet w w' \<Longrightarrow> quiet w' w'' \<Longrightarrow> quiet w w''"
  using neutral_trans by (auto simp: quiet_def)

lemma quiet_note: "quiet w (note_fresh dk pc w)" "quiet w (note_duplicate pc w)"
  by (simp_all add: quiet_def) (simp_all add: note_fresh_def note_duplicate_def Let_def)

lemma mgr_inv_segment_recv: "mgr_inv m \<Longrightarrow> mgr_inv (upd_chan r noteSegmentRecv m)"
  by (rule mgr_inv_upd) (simp_all add: mgr_inv_def chan_inv_ops(6), simp add: noteSegmentRecv_def)

lemma quiet_segment_recv: "quiet w (upd_mgr (upd_chan r noteSegmentRecv) w)"
  by (intro quiet_upd_mgr mgr_inv_segment_recv wires_ok_upd) simp_all

lemma mgr_inv_peer: "mgr_inv m \<Longrightarrow> mgr_inv (upd_chan r (setPeerIdentity a b c) m)"
  by (rule mgr_inv_upd) (simp_all add: mgr_inv_def chan_inv_ops(3), simp add: setPeerIdentity_def)

lemma mgr_inv_selector: "mgr_inv m \<Longrightarrow> mgr_inv (m\<lparr>m_selector := sel\<rparr>)"
  by (rule mgr_inv_frame) simp_all

lemma quiet_hello: "quiet w (process_hello env r payload w)"
  using neutral_hello [of w env r payload] mgr_inv_peer wires_ok_upd
  by (auto simp: quiet_def process_hello_def Let_def split: prod.splits)

lemma quiet_ack: "quiet w (process_ack env payload w)"
  using neutral_ack [of w env payload] mgr_inv_selector
  by (auto simp: quiet_def process_ack_def Let_def split: prod.splits)

section \<open>What every segment keeps\<close>

locale segment_invariant =
  fixes H :: "'a session_ops" and I :: "'a world \<Rightarrow> bool"
  assumes I_segment: "I w \<Longrightarrow> I (process_segment env now H r hdr hr frame w)"
    and I_quiet: "quiet w w' \<Longrightarrow> ds_dedup_map (w_ds w') = ds_dedup_map (w_ds w) \<Longrightarrow>
      ds_dedup_queue (w_ds w') = ds_dedup_queue (w_ds w) \<Longrightarrow> I w \<Longrightarrow> I w'"
begin

lemma I_bytes: "I (host_world hst) \<Longrightarrow> I (host_world (onChannelBytes env now H r buf hst))"
  unfolding onChannelBytes_def
  using frame_loop_inv [of I "host_world hst" "process_segment env now H r" "scratch_of r hst @ buf"]
    I_segment by (auto split: prod.split)

lemma I_dispatch:
  assumes "I (host_world hst)"
  shows "I (host_world (dispatchChannelBytes env now H r buf hst))"
proof -
  have "I (host_world (foldl (\<lambda>hst s. if s = ds_self (w_ds (host_world hst))
      then onChannelBytes env now H r buf hst else hst) hst subs))" for subs
    using assms by (induction subs arbitrary: hst) (simp_all add: I_bytes)
  then show ?thesis by (simp add: dispatchChannelBytes_def)
qed

lemma I_read:
  assumes "I (host_world hst)"
  shows "I (host_world (tcp_on_read_data env now H r h buf hst))"
proof -
  have "mgr_inv m \<Longrightarrow> mgr_inv (upd_chan r (addRecvBytes now n) m)" for m n
    by (rule mgr_inv_upd) (simp_all add: mgr_inv_def chan_inv_ops(5), simp add: addRecvBytes_def)
  then have "I (upd_mgr (upd_chan r (addRecvBytes now n)) (host_world hst))" for n
    using assms by (intro I_quiet [OF quiet_upd_mgr]) (simp_all add: wires_ok_upd)
  then show ?thesis
    using assms by (simp add: tcp_on_read_data_def I_dispatch)
qed

lemma I_tick:
  assumes "I w"
  shows "I (onHeartbeatTick env now w)"
proof -
  have emit: "I (emitFeedback env now w)" if "I w" for w :: "'a world"
  proof -
    have sends: "mgr_inv m \<Longrightarrow> mgr_inv (foldl (\<lambda>m r. snd (chan_sendBytes env now frame r m)) m rs)" for frame m rs
      by (rule foldl_inv [where P = mgr_inv]) (auto intro: mgr_inv_send)
    have "neutral w (emitFeedback env now w) \<and> (mgr_inv (w_mgr w) \<longrightarrow> mgr_inv (w_mgr (emitFeedback env now w)))"
      by (auto simp: emitFeedback_def Let_def neutral_def ds_setup_def sends split: prod.split sum.split)
    then have "quiet w (emitFeedback env now w)" using wires_ok_feedback [of w env now] by (simp add: quiet_def)
    then show ?thesis
      by (rule I_quiet [OF _ _ _ that]) (auto simp: emitFeedback_def Let_def split: prod.split sum.split)
  qed
  have "I (upd_mgr (heartbeat_channels env now) w)"
    using assms mgr_inv_heartbeats wires_ok_heartbeats by (intro I_quiet [OF quiet_upd_mgr]) simp_all
  then show ?thesis
    unfolding onHeartbeatTick_def Let_def
    by (rule foldl_inv [where P = I]) (simp add: emit)
qed

end

section \<open>What the handlers keep\<close>

text \<open>\<open>valid w h sid\<close>: the stream may call \<open>h\<close> for session number \<open>sid\<close>. It lasts.\<close>

locale handler_safety =
  fixes H :: "'a session_ops" and P :: "'a world \<Rightarrow> bool" and valid :: "'a world \<Rightarrow> handler_ref \<Rightarrow> u32 \<Rightarrow> bool"
  assumes P_quiet: "quiet w w' \<Longrightarrow> P w \<Longrightarrow> P w'"
    and P_put: "P w \<Longrightarrow> find_session k w = Some st0 \<Longrightarrow> st_handler st = st_handler st0 \<Longrightarrow>
      st_session_id st = st_session_id st0 \<Longrightarrow> P (put_session k st w)"
    and valid_put: "valid w h sid \<Longrightarrow> valid (put_session k st w) h sid"
    and P_create: "P w \<Longrightarrow> find_session k w = None \<Longrightarrow> so_unknown H = None \<Longrightarrow>
      P (put_session k (SessionState_init\<lparr>st_session_id := snd k, st_wire_ingress_id := fst k, st_handler := None\<rparr>) w)"
    and P_unknown: "P w \<Longrightarrow> find_session k w = None \<Longrightarrow> so_unknown H = Some cb \<Longrightarrow>
      cb (fst k) (snd k) w = (ho, w') \<Longrightarrow>
      P (put_session k (SessionState_init\<lparr>st_session_id := snd k, st_wire_ingress_id := fst k, st_handler := ho\<rparr>) w')"
    and P_erase: "P w \<Longrightarrow> P (erase_session k w)"
    and P_valid: "P w \<Longrightarrow> find_session k w = Some st \<Longrightarrow> st_handler st = Some h \<Longrightarrow>
      valid w h (snd k) \<and> valid w h (st_session_id st)"
    and P_data: "P w \<Longrightarrow> valid w h sid \<Longrightarrow> b \<noteq> [] \<Longrightarrow>
      P (so_data H h sid b (w\<lparr>w_trace := w_trace w @ [EvData h sid b]\<rparr>)) \<and>
      valid (so_data H h sid b (w\<lparr>w_trace := w_trace w @ [EvData h sid b]\<rparr>)) h sid"
    and P_open: "P w \<Longrightarrow> valid w h sid \<Longrightarrow> P (so_open H h sid (w\<lparr>w_trace := w_trace w @ [EvOpen h sid]\<rparr>))"
    and P_close: "P w \<Longrightarrow> valid w h sid \<Longrightarrow> P (so_close H h sid (w\<lparr>w_trace := w_trace w @ [EvClose h sid]\<rparr>))"
begin

lemma P_call_datas: "P w \<Longrightarrow> valid w h sid \<Longrightarrow> P (foldl (call_data H h sid) w bs)"
proof (induction bs arbitrary: w)
  case (Cons b bs)
  have "P (call_data H h sid w b)" "valid (call_data H h sid w b) h sid"
    using Cons.prems P_data by (auto simp: call_data_def)
  with Cons show ?case by auto
qed simp

lemma P_deliver: "P w \<Longrightarrow> P (deliverInOrder H k w)"
proof (cases "session_handler_of k w")
  case None
  then show "P w \<Longrightarrow> ?thesis"
    by (auto simp: deliverInOrder_def session_handler_of_def split: option.splits)
next
  case (Some h)
  assume P: "P w"
  obtain st where st: "find_session k w = Some st" "st_handler st = Some h"
    using Some by (auto simp: session_handler_of_def split: option.splits)
  obtain ready buf e where c: "collect_ready (st_rx_buffer st) (st_expected_rx_seq st) = (ready, buf, e)"
    by (metis prod_cases3)
  let ?w = "put_session k (st\<lparr>st_rx_buffer := buf, st_expected_rx_seq := e\<rparr>) w"
  have "P ?w" using P st(1) by (intro P_put) auto
  moreover have "valid ?w h (st_session_id st)" using P_valid [OF P st] valid_put by blast
  ultimately have "P (foldl (call_data H h (st_session_id st)) ?w ready)" by (rule P_call_datas)
  then show ?thesis using st c by (simp add: deliverInOrder_def)
qed

lemma P_ensure: "P w \<Longrightarrow> P (ensure_session H k w)"
  using P_create [of w k] P_unknown [of w k]
  by (auto simp: ensure_session_def create_session_def split: option.split prod.split)

lemma P_handler_of: "P w \<Longrightarrow> session_handler_of k w = Some h \<Longrightarrow> valid w h (snd k)"
  using P_valid by (auto simp: session_handler_of_def split: option.splits)

lemma P_syn: "P w \<Longrightarrow> P (process_syn H k w)"
  using P_open P_ensure P_handler_of by (auto simp: process_syn_def Let_def split: option.split)

lemma P_fin: "P w \<Longrightarrow> P (process_fin H k w)"
  using P_close P_handler_of P_erase by (auto simp: process_fin_def Let_def split: option.split)

lemma P_process_data: "P w \<Longrightarrow> P (process_data env now H k s p w)"
proof -
  assume P: "P w"
  define w1 where "w1 = ensure_session H k w"
  have "P w1" unfolding w1_def by (rule P_ensure [OF P])
  then have "P (case find_session k w1 of None \<Rightarrow> w1
      | Some st \<Rightarrow> if e_mb_space env now (length p) \<ge> length p
          then put_session k (st\<lparr>st_rx_buffer := smap_emplace s p (st_rx_buffer st)\<rparr>) w1 else w1)"
    using P_put [of w1 k] by (auto split: option.split)
  from P_deliver [OF this] show ?thesis
    unfolding process_data_def w1_def Let_def .
qed

lemma P_session_segment: "P w \<Longrightarrow> P (process_session_segment env now H r hdr p w)"
proof -
  assume P: "P w"
  define w2 where "w2 = (let w1 = note_fresh (segment_dedup_key hdr (rx_ingress_of hdr)) (peer_channel r w) w
    in if isSyn hdr then process_syn H (rx_ingress_of hdr, hdr_session_id hdr) w1 else w1)"
  have "P w2" unfolding w2_def Let_def using P_quiet [OF quiet_note(1) P] P_syn by simp
  then show ?thesis
    using P P_fin P_process_data P_quiet [OF quiet_note(2) P]
    unfolding process_session_segment_alt w2_def Let_def by simp
qed

lemma P_segment: "P w \<Longrightarrow> P (process_segment env now H r hdr hr frame w)"
proof -
  assume P: "P w"
  let ?w1 = "upd_mgr (upd_chan r noteSegmentRecv) w"
  have w1: "P ?w1" by (rule P_quiet [OF quiet_segment_recv P])
  show ?thesis
    using P w1 P_session_segment [OF w1] P_quiet [OF quiet_hello w1] P_quiet [OF quiet_ack w1]
    by (simp add: process_segment_def Let_def)
qed

end

sublocale handler_safety \<subseteq> segment_invariant H P
  by unfold_locales (auto intro: P_segment P_quiet)

end
