(* ===== verification/Fgw_Receive.thy ===== *)
theory Fgw_Receive
  imports Fgw_Safety
begin

text \<open>
  What the receiving side of \<^verbatim>\<open>DataStream\<close> promises a session handler: it gets the byte stream of its
  session in order, each byte once, whatever the links reorder, duplicate or cut. The locale
  \<open>steady_handler\<close> extends the contract by what this needs: a safe predicate and a clause on the bytes
  under which the handler keeps its session.
\<close>

lemma collect_ready_run:
  assumes "smap_inv m" and "\<forall>(s, p) \<in> set m. n \<le> unat s \<and> unat s < N \<and> p = f (unat s)"
    and "unat e = n" "N < 2 ^ 32" "n \<le> N"
  shows "\<exists>n' m' e'. collect_ready m e = (map f [n..<n'], m', e') \<and> n \<le> n' \<and> n' \<le> N \<and> unat e' = n' \<and>
    smap_inv m' \<and> set m' \<subseteq> set m \<and> (\<forall>(s, p) \<in> set m'. n' < unat s) \<and>
    (\<forall>(s, p) \<in> set m. unat s < n' \<or> (s, p) \<in> set m')"
  using assms
proof (induction m e arbitrary: n rule: collect_ready.induct)
  case (1 e)
  then show ?case by (intro exI [of _ n] exI [of _ "[]"] exI [of _ e]) auto
next
  case (2 s p m e)
  show ?case
  proof (cases "s = e")
    case False
    then have "n \<noteq> unat s" using 2 by (auto simp: word_unat_eq_iff)
    then have "n < unat s" using 2 by auto
    moreover have "\<forall>(s', p') \<in> set m. s < s'"
      using 2 by (auto simp: smap_inv_Cons)
    ultimately show ?thesis
      using 2 False by (intro exI [of _ n] exI [of _ "(s, p) # m"] exI [of _ e])
        (fastforce simp: word_less_nat_alt)
  next
    case True
    have n: "n < N" "p = f n" using 2 True by auto
    have e1: "unat (e + 1) = Suc n"
      using 2 n by (simp add: unat_word_ariths)
    have gt: "\<forall>(s', p') \<in> set m. Suc n \<le> unat s'"
      using 2 True by (auto simp: smap_inv_Cons word_less_nat_alt)
    have pre: "smap_inv m" "\<forall>(s, p) \<in> set m. Suc n \<le> unat s \<and> unat s < N \<and> p = f (unat s)"
      using 2 gt by (auto simp: smap_inv_Cons)
    from "2.IH" [OF _ pre e1] 2 n True obtain n' m' e' where
      r: "collect_ready m (e + 1) = (map f [Suc n..<n'], m', e')" "Suc n \<le> n'" "n' \<le> N" "unat e' = n'"
        "smap_inv m'" "set m' \<subseteq> set m" "\<forall>(s, p) \<in> set m'. n' < unat s"
        "\<forall>(s, p) \<in> set m. unat s < n' \<or> (s, p) \<in> set m'"
      by fastforce
    then have "collect_ready ((s, p) # m) e = (map f [n..<n'], m', e')"
      using True n by (simp add: upt_conv_Cons)
    then show ?thesis
      using r True 2 by (intro exI [of _ n'] exI [of _ m'] exI [of _ e']) auto
  qed
qed

section \<open>In-order delivery\<close>

text \<open>A handler that keeps its session while the bytes it gets are \<open>good\<close>, in worlds with \<open>P\<close>.\<close>

locale steady_handler = session_handler + handler_safety +
  fixes good :: "bytes \<Rightarrow> bool"
  assumes data_keeps: "owns w h k \<Longrightarrow> P w \<Longrightarrow> find_session k w = Some st \<Longrightarrow> b \<noteq> [] \<Longrightarrow>
      good (delivered h (w_trace w) @ b) \<Longrightarrow>
      find_session k (so_data H h (snd k) b (w\<lparr>w_trace := w_trace w @ [EvData h (snd k) b]\<rparr>)) \<noteq> None"
begin

lemma call_data_own:
  assumes "owns w h k" and "P w" and "find_session k w = Some st" and "good (delivered h (w_trace w) @ b)"
  shows "\<exists>st'. find_session k (call_data H h (snd k) w b) = Some st' \<and> rx_part st' = rx_part st \<and>
    delivered h (w_trace (call_data H h (snd k) w b)) = delivered h (w_trace w) @ b"
proof (cases "b = []")
  case False
  let ?w = "w\<lparr>w_trace := w_trace w @ [EvData h (snd k) b]\<rparr>"
  have own: "owns ?w h k" using assms(1) by (rule owns_trace)
  have st: "find_session k ?w = Some st" using assms(3) by simp
  from data_keeps [OF assms(1-3) False assms(4)] data_frame [OF own, of b] st False show ?thesis
    by (auto simp: call_data_def handler_frame_def)
qed (use assms in \<open>simp add: call_data_def\<close>)

lemma call_datas_own:
  assumes "owns w h k" and "P w" and "valid w h (snd k)" and "find_session k w = Some st"
    and "\<And>j. j \<le> length bs \<Longrightarrow> good (delivered h (w_trace w) @ concat (take j bs))"
  shows "\<exists>st'. find_session k (foldl (call_data H h (snd k)) w bs) = Some st' \<and> rx_part st' = rx_part st \<and>
    delivered h (w_trace (foldl (call_data H h (snd k)) w bs)) = delivered h (w_trace w) @ concat bs"
  using assms
proof (induction bs arbitrary: w st)
  case (Cons b bs)
  have "good (delivered h (w_trace w) @ b)" using Cons.prems(5) [of 1] by simp
  from call_data_own [OF Cons.prems(1,2,4) this] obtain st1 where
    st1: "find_session k (call_data H h (snd k) w b) = Some st1" "rx_part st1 = rx_part st"
      "delivered h (w_trace (call_data H h (snd k) w b)) = delivered h (w_trace w) @ b"
    by blast
  have own: "owns (call_data H h (snd k) w b) h k"
    using calm_owns [OF calm_call_data] Cons.prems(1) by blast
  have safe: "P (call_data H h (snd k) w b)" "valid (call_data H h (snd k) w b) h (snd k)"
    using Cons.prems(2,3) P_data by (auto simp: call_data_def)
  have "good (delivered h (w_trace (call_data H h (snd k) w b)) @ concat (take j bs))" if "j \<le> length bs" for j
    using Cons.prems(5) [of "Suc j"] that st1(3) by simp
  from Cons.IH [OF own safe st1(1) this] st1 show ?case by fastforce
qed simp

text \<open>Session \<open>k\<close> with handler \<open>h\<close> receives the stream whose segment \<open>i\<close> carries \<open>f i\<close>; segments
  \<open>0..<n\<close> have been delivered, nothing else, and later ones wait in the buffer.\<close>

definition recv_inv :: "session_key \<Rightarrow> handler_ref \<Rightarrow> (nat \<Rightarrow> bytes) \<Rightarrow> nat \<Rightarrow> nat \<Rightarrow> 'a world \<Rightarrow> bool" where
  "recv_inv k h f N n w \<longleftrightarrow> wired w \<and> P w \<and> (\<forall>m \<le> N. good (concat (map f [0..<m]))) \<and> n \<le> N \<and> N + unat (ds_recv_window (w_ds w)) \<le> 2 ^ 32 \<and>
     0 < ds_recv_window (w_ds w) \<and>
     delivered h (w_trace w) = concat (map f [0..<n]) \<and>
     (\<exists>st. find_session k w = Some st \<and> st_handler st = Some h \<and> unat (st_expected_rx_seq st) = n \<and>
        smap_inv (st_rx_buffer st) \<and>
        (\<forall>(s, p) \<in> set (st_rx_buffer st). n < unat s \<and> unat s < N \<and> p = f (unat s)))"

definition buffered :: "session_key \<Rightarrow> 'a world \<Rightarrow> u32 \<Rightarrow> bool" where
  "buffered k w s \<longleftrightarrow> (\<exists>st. find_session k w = Some st \<and> s \<in> fst ` set (st_rx_buffer st))"

lemma deliver_own:
  assumes wired: "wired w" "P w" and goods: "\<forall>m \<le> N. good (concat (map f [0..<m]))" and win: "N < 2 ^ 32" "n \<le> N"
    and st: "find_session k w = Some st" "st_handler st = Some h" "unat (st_expected_rx_seq st) = n"
    and buf: "smap_inv (st_rx_buffer st)"
      "\<forall>(s, p) \<in> set (st_rx_buffer st). n \<le> unat s \<and> unat s < N \<and> p = f (unat s)"
    and del: "delivered h (w_trace w) = concat (map f [0..<n])"
  shows "\<exists>n' st'. n \<le> n' \<and> n' \<le> N \<and> find_session k (deliverInOrder H k w) = Some st' \<and>
    st_handler st' = Some h \<and> unat (st_expected_rx_seq st') = n' \<and> smap_inv (st_rx_buffer st') \<and>
    (\<forall>(s, p) \<in> set (st_rx_buffer st'). n' < unat s \<and> unat s < N \<and> p = f (unat s)) \<and>
    delivered h (w_trace (deliverInOrder H k w)) = concat (map f [0..<n']) \<and>
    (\<forall>s \<in> fst ` set (st_rx_buffer st). unat s < n' \<or> s \<in> fst ` set (st_rx_buffer st'))"
proof -
  from collect_ready_run [OF buf st(3) win] obtain n' m' e' where
    c: "collect_ready (st_rx_buffer st) (st_expected_rx_seq st) = (map f [n..<n'], m', e')"
    and n': "n \<le> n'" "n' \<le> N" "unat e' = n'" "smap_inv m'" "set m' \<subseteq> set (st_rx_buffer st)"
      "\<forall>(s, p) \<in> set m'. n' < unat s" "\<forall>(s, p) \<in> set (st_rx_buffer st). unat s < n' \<or> (s, p) \<in> set m'"
    by blast
  let ?st = "st\<lparr>st_rx_buffer := m', st_expected_rx_seq := e'\<rparr>"
  let ?w = "put_session k ?st w"
  have sid: "st_session_id st = snd k" and own: "owns w h k"
    using wiredD [OF wired(1) st(1)] st(2) by auto
  have cat: "concat (map f [0..<n]) @ concat (map f [n..<m]) = concat (map f [0..<m])" if "n \<le> m" for m
    using that by (metis le_add_diff_inverse map_append upt_add_eq_append zero_le concat_append)
  have ownw: "owns ?w h k"
    using calm_owns [OF calm_put own, of ?st k] sid own st(2) by auto
  have safe: "P ?w" "valid ?w h (snd k)"
    using P_put [OF wired(2) st(1), of ?st] P_valid [OF wired(2) st(1,2)] valid_put by auto
  have fnd: "find_session k ?w = Some ?st" by simp
  have "good (delivered h (w_trace ?w) @ concat (take j (map f [n..<n'])))" if "j \<le> length (map f [n..<n'])" for j
  proof -
    have "take j (map f [n..<n']) = map f [n..<n + j]" using that n'(1) by (simp add: take_map)
    then show ?thesis using goods that n'(1,2) del cat [of "n + j"] by simp
  qed
  from call_datas_own [OF ownw safe fnd this] obtain st' where
    st': "find_session k (foldl (call_data H h (snd k)) ?w (map f [n..<n'])) = Some st'" "rx_part st' = rx_part ?st"
      "delivered h (w_trace (foldl (call_data H h (snd k)) ?w (map f [n..<n']))) =
       delivered h (w_trace ?w) @ concat (map f [n..<n'])"
    by blast
  have "deliverInOrder H k w = foldl (call_data H h (snd k)) ?w (map f [n..<n'])"
    using st c sid by (simp add: deliverInOrder_def)
  then show ?thesis
    using st' n' cat [OF n'(1)] del buf st(2) rx_part_fields [OF st'(2)]
    by (intro exI [of _ n'] exI [of _ st']) (fastforce simp: image_iff)
qed

lemma data_own:
  assumes inv: "recv_inv k h f N n w" and s: "n \<le> unat s" "unat s < N"
  shows "\<exists>n' \<ge> n. recv_inv k h f N n' (process_data env now H k s (f (unat s)) w) \<and>
    (\<forall>x. buffered k w x \<or> x = s \<and> length (f (unat s)) \<le> e_mb_space env now (length (f (unat s))) \<longrightarrow>
       unat x < n' \<or> buffered k (process_data env now H k s (f (unat s)) w) x) \<and>
    ds_dedup_map (w_ds (process_data env now H k s (f (unat s)) w)) = ds_dedup_map (w_ds w)"
proof -
  let ?w' = "process_data env now H k s (f (unat s)) w"
  let ?ok = "length (f (unat s)) \<le> e_mb_space env now (length (f (unat s)))"
  from inv obtain st where wired: "wired w" and safe: "P w" and goods: "\<forall>m \<le> N. good (concat (map f [0..<m]))"
    and st: "find_session k w = Some st" "st_handler st = Some h"
      "unat (st_expected_rx_seq st) = n" "smap_inv (st_rx_buffer st)"
      "\<forall>(s, p) \<in> set (st_rx_buffer st). n < unat s \<and> unat s < N \<and> p = f (unat s)"
    and n: "n \<le> N" "N + unat (ds_recv_window (w_ds w)) \<le> 2 ^ 32" "0 < ds_recv_window (w_ds w)"
    and del: "delivered h (w_trace w) = concat (map f [0..<n])"
    by (auto simp: recv_inv_def)
  define st1 where "st1 = (if ?ok then st\<lparr>st_rx_buffer := smap_emplace s (f (unat s)) (st_rx_buffer st)\<rparr> else st)"
  define w1 where "w1 = (if ?ok then put_session k st1 w else w)"
  have w': "?w' = deliverInOrder H k w1"
    using st(1) by (simp add: process_data_def ensure_session_def w1_def st1_def Let_def)
  have c1: "calm k w w1"
    unfolding w1_def using wiredD [OF wired st(1)] by (auto simp: st1_def intro!: calm_put)
  have st1: "find_session k w1 = Some st1" "st_handler st1 = Some h" "unat (st_expected_rx_seq st1) = n"
    using st by (simp_all add: w1_def st1_def)
  have entries: "\<forall>(a, p) \<in> set (st_rx_buffer st1). n \<le> unat a \<and> unat a < N \<and> p = f (unat a)"
    using st(4,5) s by (auto simp: st1_def dest!: smap_emplace_entries [OF st(4)])
  have keys: "fst ` set (st_rx_buffer st1) = fst ` set (st_rx_buffer st) \<union> (if ?ok then {s} else {})"
    by (simp add: st1_def smap_emplace_keys)
  have N: "N < 2 ^ 32"
    using n by (simp add: word_less_nat_alt)
  have wired1: "wired w1" using calm_wired [OF c1 wired] .
  have safe1: "P w1" unfolding w1_def using safe by (auto simp: st1_def intro: P_put [OF safe st(1)])
  have "smap_inv (st_rx_buffer st1)"
    using st(4) by (simp add: st1_def smap_emplace_inv)
  moreover have "delivered h (w_trace w1) = concat (map f [0..<n])"
    using del by (simp add: w1_def)
  ultimately obtain n' st' where r: "n \<le> n'" "n' \<le> N" "find_session k ?w' = Some st'"
    "st_handler st' = Some h" "unat (st_expected_rx_seq st') = n'" "smap_inv (st_rx_buffer st')"
    "\<forall>(s, p) \<in> set (st_rx_buffer st'). n' < unat s \<and> unat s < N \<and> p = f (unat s)"
    "delivered h (w_trace ?w') = concat (map f [0..<n'])"
    "\<forall>s \<in> fst ` set (st_rx_buffer st1). unat s < n' \<or> s \<in> fst ` set (st_rx_buffer st')"
    using deliver_own [OF wired1 safe1 goods N n(1) st1 _ entries] unfolding w' by blast
  have c: "calm k w ?w'"
    unfolding w' using c1 calm_deliver [OF wired1] by (rule calm_trans)
  have ds: "ds_dedup_map (w_ds ?w') = ds_dedup_map (w_ds w)" "ds_recv_window (w_ds ?w') = ds_recv_window (w_ds w)"
    using c ds_rest_fields [of "w_ds ?w'" "w_ds w"] by (simp_all add: calm_def)
  have "recv_inv k h f N n' ?w'"
    unfolding recv_inv_def using r n(2,3) ds calm_wired [OF c wired] goods P_process_data [OF safe] by auto
  moreover have "\<forall>x. buffered k w x \<or> x = s \<and> ?ok \<longrightarrow> unat x < n' \<or> buffered k ?w' x"
    using r(3,9) st(1) keys by (auto simp: buffered_def)
  ultimately show ?thesis using r(1) ds by blast
qed

definition got :: "session_key \<Rightarrow> nat \<Rightarrow> 'a world \<Rightarrow> u32 \<Rightarrow> bool" where
  "got k n w s \<longleftrightarrow> unat s < n \<or> buffered k w s"

text \<open>Every DATA key in the dedup table stands for a segment that was kept.\<close>

definition covered :: "session_key \<Rightarrow> nat \<Rightarrow> 'a world \<Rightarrow> bool" where
  "covered k n w \<longleftrightarrow>
     (\<forall>s. smap_count (ds_dedup_map (w_ds w)) (DedupKey (fst k) (snd k) s 0) \<longrightarrow> got k n w s)"

lemma recv_inv_cong:
  assumes "recv_inv k h f N n w" and "wired w'" "P w'" "ds_recv_window (w_ds w') = ds_recv_window (w_ds w)"
    and "delivered h (w_trace w') = delivered h (w_trace w)"
    and "\<And>st. find_session k w = Some st \<Longrightarrow> \<exists>st'. find_session k w' = Some st' \<and> rx_part st' = rx_part st"
  shows "recv_inv k h f N n w'" and "buffered k w' x = buffered k w x"
proof -
  from assms(1) obtain st where st: "find_session k w = Some st"
    by (auto simp: recv_inv_def)
  from assms(6) [OF st] obtain st' where st': "find_session k w' = Some st'" "rx_part st' = rx_part st"
    by blast
  show "recv_inv k h f N n w'"
    using assms(1-5) st st'(1) rx_part_fields [OF st'(2)] unfolding recv_inv_def by simp
  show "buffered k w' x = buffered k w x"
    using st st'(1) rx_part_fields [OF st'(2)] by (simp add: buffered_def)
qed

lemma recv_inv_undisturbed:
  assumes inv: "recv_inv k h f N n w" and u: "undisturbed k w w'" and safe: "P w'"
  shows "recv_inv k h f N n w'" "got k n w' x = got k n w x" "covered k n w \<Longrightarrow> covered k n w'"
proof -
  from inv have "owns w h k" by (auto simp: recv_inv_def wired_to_def)
  then have c: "recv_inv k h f N n w'" "\<And>x. buffered k w' x = buffered k w x"
    using recv_inv_cong [OF inv, of w'] u inv safe unfolding undisturbed_def recv_inv_def by auto
  then show "recv_inv k h f N n w'" "got k n w' x = got k n w x" "covered k n w \<Longrightarrow> covered k n w'"
    using u by (auto simp: got_def covered_def undisturbed_def)
qed

text \<open>One step of the receiver towards the stream \<open>f\<close>.\<close>

definition advances :: "session_key \<Rightarrow> handler_ref \<Rightarrow> (nat \<Rightarrow> bytes) \<Rightarrow> nat \<Rightarrow> nat \<Rightarrow> 'a world \<Rightarrow> nat \<Rightarrow> 'a world \<Rightarrow> bool" where
  "advances k h f N n w n' w' \<longleftrightarrow> n \<le> n' \<and> recv_inv k h f N n' w' \<and> (\<forall>x. got k n w x \<longrightarrow> got k n' w' x)"

lemma advances_trans: "advances k h f N n w n1 w1 \<Longrightarrow> advances k h f N n1 w1 n2 w2 \<Longrightarrow> advances k h f N n w n2 w2"
  unfolding advances_def by (meson order_trans)

lemma advances_undisturbed: "recv_inv k h f N n w \<Longrightarrow> undisturbed k w w' \<Longrightarrow> P w' \<Longrightarrow> advances k h f N n w n w'"
  unfolding advances_def using recv_inv_undisturbed by blast

lemma syn_own:
  assumes inv: "recv_inv k h f N n w"
  shows "recv_inv k h f N n (process_syn H k w)" "buffered k (process_syn H k w) x = buffered k w x"
    "ds_dedup_map (w_ds (process_syn H k w)) = ds_dedup_map (w_ds w)"
proof -
  from inv obtain st where wired: "wired w" and safe: "P w"
    and st: "find_session k w = Some st" "st_handler st = Some h"
    by (auto simp: recv_inv_def)
  let ?w = "w\<lparr>w_trace := w_trace w @ [EvOpen h (snd k)]\<rparr>"
  have syn: "process_syn H k w = so_open H h (snd k) ?w"
    using st by (simp add: process_syn_def ensure_session_def session_handler_of_def Let_def)
  have own: "owns ?w h k" using wiredD(2) [OF wired st] by (rule owns_trace)
  have c: "calm k w (process_syn H k w)" using calm_syn [OF wired] .
  have ds: "ds_dedup_map (w_ds (process_syn H k w)) = ds_dedup_map (w_ds w)"
    "ds_recv_window (w_ds (process_syn H k w)) = ds_recv_window (w_ds w)"
    using c ds_rest_fields [of "w_ds (process_syn H k w)" "w_ds w"] by (simp_all add: calm_def)
  have del: "delivered h (w_trace (process_syn H k w)) = delivered h (w_trace w)"
    using open_frame [OF own] unfolding syn by (simp add: handler_frame_def)
  note cong = recv_inv_cong [OF inv calm_wired [OF c wired] P_syn [OF safe] ds(2) del]
  have "\<exists>st'. find_session k (process_syn H k w) = Some st' \<and> rx_part st' = rx_part st1"
    if "find_session k w = Some st1" for st1
    using open_keeps [OF own] that unfolding syn by simp
  from cong [OF this] ds(1) show "recv_inv k h f N n (process_syn H k w)"
    "buffered k (process_syn H k w) x = buffered k w x"
    "ds_dedup_map (w_ds (process_syn H k w)) = ds_dedup_map (w_ds w)" by blast+
qed

lemma session_segment_own:
  assumes inv: "recv_inv k h f N n w" and k: "(rx_ingress_of hdr, hdr_session_id hdr) = k"
    and fin: "\<not> isFin hdr"
    and data: "isSyn hdr \<and> \<not> has_data hdr \<or>
      \<not> isSyn hdr \<and> has_data hdr \<and> unat (hdr_seq_num hdr) < N \<and> payload = f (unat (hdr_seq_num hdr))"
  shows "\<exists>n'. advances k h f N n w n' (process_session_segment env now H r hdr payload w) \<and>
    (covered k n w \<longrightarrow> (\<forall>m. m \<le> e_mb_space env now m) \<longrightarrow>
       covered k n' (process_session_segment env now H r hdr payload w) \<and>
       (\<not> isSyn hdr \<longrightarrow> N \<le> n + unat (ds_recv_window (w_ds w)) \<longrightarrow>
        got k n' (process_session_segment env now H r hdr payload w) (hdr_seq_num hdr)))"
proof -
  let ?w' = "process_session_segment env now H r hdr payload w"
  let ?s = "hdr_seq_num hdr"
  let ?dk = "segment_dedup_key hdr (rx_ingress_of hdr)"
  let ?pc = "peer_channel r w"
  let ?w1 = "note_fresh ?dk ?pc w"
  from inv obtain st where wired: "wired w" and safe: "P w" and n: "n \<le> N" "N + unat (ds_recv_window (w_ds w)) \<le> 2 ^ 32"
      "0 < ds_recv_window (w_ds w)"
    and st: "find_session k w = Some st" "unat (st_expected_rx_seq st) = n"
    by (auto simp: recv_inv_def)
  have n1: "neutral w ?w1" by simp
  have safe1: "P ?w1" by (rule P_quiet [OF quiet_note(1) safe])
  have safe': "P ?w'" by (rule P_session_segment [OF safe])
  have dk: "?dk = DedupKey (fst k) (snd k) ?s (if isSyn hdr then 1 else 0)"
    using k fin by (auto simp: segment_dedup_key_def)
  consider (dup) "smap_count (ds_dedup_map (w_ds w)) ?dk"
    | (out) "\<not> smap_count (ds_dedup_map (w_ds w)) ?dk" "has_data hdr" "outside_window k ?s w"
    | (syn) "\<not> smap_count (ds_dedup_map (w_ds w)) ?dk" "isSyn hdr" "\<not> has_data hdr"
    | (acc) "\<not> smap_count (ds_dedup_map (w_ds w)) ?dk" "\<not> isSyn hdr" "has_data hdr" "\<not> outside_window k ?s w"
    using data by blast
  then show ?thesis
  proof cases
    case dup
    then have w': "?w' = note_duplicate ?pc w"
      by (simp add: process_session_segment_alt Let_def)
    have u: "undisturbed k w ?w'"
      unfolding w' by (intro undisturbed_neutral) simp_all
    have "got k n ?w' ?s" if "covered k n w" "\<not> isSyn hdr"
      using that dup dk recv_inv_undisturbed(2) [OF inv u safe'] by (auto simp: covered_def)
    then show ?thesis
      using advances_undisturbed [OF inv u safe'] recv_inv_undisturbed(3) [OF inv u safe'] by blast
  next
    case out
    then have w': "?w' = w"
      using k by (simp add: process_session_segment_alt Let_def)
    have "got k n w ?s" if "N \<le> n + unat (ds_recv_window (w_ds w))" "\<not> isSyn hdr"
    proof (rule ccontr)
      assume "\<not> got k n w ?s"
      then have ge: "n \<le> unat ?s" by (simp add: got_def)
      then have "unat (?s - st_expected_rx_seq st) = unat ?s - n"
        using st(2) by (simp add: unat_sub_if_size word_size)
      moreover have "unat ?s < N" using data that(2) by blast
      ultimately show False
        using out(3) st(1) that(1) ge by (simp add: outside_window_def word_le_nat_alt Let_def unat_ucast_u16)
    qed
    then show ?thesis
      unfolding w' using advances_undisturbed [OF inv undisturbed_refl safe] by blast
  next
    case syn
    then have w': "?w' = process_syn H k ?w1"
      using k fin by (simp add: process_session_segment_alt Let_def)
    have u: "undisturbed k w ?w1"
      by (intro undisturbed_neutral n1) (auto simp: dk syn dest!: note_fresh_count)
    note i1 = recv_inv_undisturbed [OF inv u safe1]
    have "got k n ?w' x = got k n w x" for x
      using syn_own(2) [OF i1(1), of x] i1(2) [of x] by (simp add: w' got_def)
    moreover from this have "covered k n ?w'" if "covered k n w"
      using i1(3) [OF that] syn_own(2,3) [OF i1(1)] by (simp add: w' covered_def got_def)
    ultimately show ?thesis
      using syn_own(1) [OF i1(1)] syn(2) unfolding advances_def w' by blast
  next
    case acc
    then have s: "unat ?s < N" "payload = f (unat ?s)" using data by blast+
    have w': "?w' = process_data env now H k ?s (f (unat ?s)) ?w1"
      using acc k fin s by (simp add: process_session_segment_alt Let_def)
    have ge: "n \<le> unat ?s"
    proof (rule ccontr)
      assume "\<not> n \<le> unat ?s"
      then have "unat (?s - st_expected_rx_seq st) = 2 ^ 32 + unat ?s - n"
        using st(2) by (simp add: unat_sub_if_size word_size)
      with acc(4) st(1) n \<open>\<not> n \<le> unat ?s\<close> show False
        by (simp add: outside_window_def word_le_nat_alt Let_def unat_ucast_u16)
    qed
    have inv1: "recv_inv k h f N n ?w1" "\<And>x. buffered k ?w1 x = buffered k w x"
      using recv_inv_cong [OF inv, of ?w1] neutral_wired [OF n1] neutral_find [OF n1] n1 wired safe1
      by (auto simp: neutral_def)
    from data_own [OF inv1(1) ge s(1), of env now] obtain n' where n': "n \<le> n'" "recv_inv k h f N n' ?w'"
      "\<And>x. buffered k ?w1 x \<or> x = ?s \<and> length (f (unat ?s)) \<le> e_mb_space env now (length (f (unat ?s))) \<Longrightarrow>
         unat x < n' \<or> buffered k ?w' x"
      "ds_dedup_map (w_ds ?w') = ds_dedup_map (w_ds ?w1)"
      unfolding w' by blast
    have mono: "got k n w x \<longrightarrow> got k n' ?w' x" for x
      using n'(1,3) inv1(2) by (auto simp: got_def)
    have here: "got k n' ?w' ?s" if "\<forall>m. m \<le> e_mb_space env now m"
      using n'(3) that by (simp add: got_def)
    have "covered k n' ?w'" if "covered k n w" "\<forall>m. m \<le> e_mb_space env now m"
      unfolding covered_def n'(4)
    proof (intro allI impI)
      fix x assume "smap_count (ds_dedup_map (w_ds ?w1)) (DedupKey (fst k) (snd k) x 0)"
      then have "x = ?s \<or> smap_count (ds_dedup_map (w_ds w)) (DedupKey (fst k) (snd k) x 0)"
        using note_fresh_count [of ?dk ?pc w] dk by fastforce
      then show "got k n' ?w' x"
        using that mono here by (auto simp: covered_def)
    qed
    then show ?thesis
      using n'(1,2) mono here unfolding advances_def by blast
  qed
qed

end

section \<open>Arriving segments\<close>

text \<open>The arrival, on link \<open>r\<close>, of the frame a sender encoded from a header and a payload.\<close>

definition receive ::
  "fgw_env \<Rightarrow> u32 \<Rightarrow> 'a session_ops \<Rightarrow> 'a world \<Rightarrow> chan_ref \<times> FgwSegmentHeader \<times> bytes \<Rightarrow> 'a world" where
  "receive env now H w ev = step_segment (process_segment env now H (fst ev)) w (snd ev)"

definition link_control :: "FgwSegmentHeader \<Rightarrow> bool" where
  "link_control hdr = (isHello hdr \<or> isHeartbeat hdr \<or> isAck hdr)"

text \<open>\<open>brings k s seg\<close>: a DATA segment of session \<open>k\<close> with number \<open>s\<close>.\<close>

definition brings :: "session_key \<Rightarrow> u32 \<Rightarrow> FgwSegmentHeader \<times> bytes \<Rightarrow> bool" where
  "brings k s seg = (case seg of (hdr, p) \<Rightarrow>
     \<not> link_control hdr \<and> (hdr_ingress_id hdr, hdr_session_id hdr) = k \<and> \<not> isSyn hdr \<and> \<not> isFin hdr \<and>
     isData hdr \<and> p \<noteq> [] \<and> hdr_seq_num hdr = s)"

text \<open>A segment that fits the stream \<open>f\<close> of session \<open>k\<close>: link control, a segment of another
  session, a bare SYN of this one, or the DATA segment \<open>i < N\<close> with payload \<open>f i\<close>.\<close>

definition carries :: "session_key \<Rightarrow> (nat \<Rightarrow> bytes) \<Rightarrow> nat \<Rightarrow> FgwSegmentHeader \<times> bytes \<Rightarrow> bool" where
  "carries k f N seg = (case seg of (hdr, p) \<Rightarrow> sendable seg \<and>
     (link_control hdr \<or> (hdr_ingress_id hdr, hdr_session_id hdr) \<noteq> k \<or>
      isSyn hdr \<and> \<not> isFin hdr \<and> (\<not> isData hdr \<or> p = []) \<or>
      brings k (hdr_seq_num hdr) seg \<and> unat (hdr_seq_num hdr) < N \<and> p = f (unat (hdr_seq_num hdr))))"

lemma flag_or_ext:
  "(x OR FLAG_HDR_EXT) AND FLAG_SYN = x AND FLAG_SYN" "(x OR FLAG_HDR_EXT) AND FLAG_FIN = x AND FLAG_FIN"
  "(x OR FLAG_HDR_EXT) AND FLAG_DATA = x AND FLAG_DATA" "(x OR FLAG_HDR_EXT) AND FLAG_ACK = x AND FLAG_ACK"
  "(x OR FLAG_HDR_EXT) AND FLAG_HEARTBEAT = x AND FLAG_HEARTBEAT"
  "(x OR FLAG_HDR_EXT) AND FLAG_HELLO = x AND FLAG_HELLO"
  by (simp_all add: seg_flags bit.conj_disj_distrib2)

lemma decoded_flags [simp]:
  "isSyn (decoded_header h p) = isSyn h" "isFin (decoded_header h p) = isFin h"
  "isData (decoded_header h p) = isData h" "isAck (decoded_header h p) = isAck h"
  "isHeartbeat (decoded_header h p) = isHeartbeat h" "isHello (decoded_header h p) = isHello h"
  "rx_ingress_of (decoded_header h p) = hdr_ingress_id h"
  "hdr_session_id (decoded_header h p) = hdr_session_id h" "hdr_seq_num (decoded_header h p) = hdr_seq_num h"
  using ext_nonzero
  by (simp_all add: decoded_header_def flag_tests flag_or_ext route_or_ext rx_ingress_of_def)

lemma decoded_has_data: "length p \<le> MAX_PAYLOAD \<Longrightarrow> has_data (decoded_header h p) \<longleftrightarrow> isData h \<and> p \<noteq> []"
  using unat_len16 [of "length p"]
  by (auto simp: has_data_def decoded_header_def word_less_nat_alt flag_tests flag_or_ext)

lemma image_payload:
  "length p \<le> MAX_PAYLOAD \<Longrightarrow>
   bslice (wire_hdr_size h) (unat (hdr_payload_len (decoded_header h p))) (segment_image h p) = p"
  using wire_hdr_size_ge [of h] by (simp add: segment_image_def bslice_def decoded_header_def unat_len16)

lemma receive_image:
  assumes "sendable (h, p)"
  shows "receive env now H w (r, h, p) =
     (let w = upd_mgr (upd_chan r noteSegmentRecv) w
      in if isHello h then process_hello env r p w
         else if isHeartbeat h then w
         else if isAck h then process_ack env p w
         else process_session_segment env now H r (decoded_header h p) p w)"
  using assms verify_image [of p h "[]"] image_payload [of p h]
  by (simp add: receive_def step_segment_def process_segment_def sendable_def Let_def)

context session_handler
begin

lemma undisturbed_trans: "wired w \<Longrightarrow> neutral w w' \<Longrightarrow> undisturbed k w w' \<Longrightarrow>
    undisturbed k w' w'' \<Longrightarrow> undisturbed k w w''"
  by (simp add: undisturbed_def neutral_owns)

lemma undisturbed_note: "undisturbed k w (upd_mgr f w)"
  by (intro undisturbed_neutral) simp_all

lemma process_segment_wired:
  assumes "wired w"
  shows "wired (process_segment env now H r hdr hr frame w)"
    "ds_recv_window (w_ds (process_segment env now H r hdr hr frame w)) = ds_recv_window (w_ds w)"
proof -
  let ?w1 = "upd_mgr (upd_chan r noteSegmentRecv) w"
  let ?p = "bslice hr (unat (hdr_payload_len hdr)) frame"
  have w1: "wired ?w1" using assms neutral_wired [of w ?w1] by simp
  define k where "k = (rx_ingress_of hdr + 1, hdr_session_id hdr)"
  have k: "(rx_ingress_of hdr, hdr_session_id hdr) \<noteq> k"
    by (simp add: k_def)
  have s: "wired (process_session_segment env now H r hdr ?p ?w1)"
    "ds_recv_window (w_ds (process_session_segment env now H r hdr ?p ?w1)) = ds_recv_window (w_ds w)"
    using session_segment_other [OF w1 k, of env now r ?p] w1 by (simp_all add: undisturbed_def)
  have n: "neutral ?w1 (process_hello env r ?p ?w1)" "neutral ?w1 (process_ack env ?p ?w1)"
    by (rule neutral_hello neutral_ack)+
  show "wired (process_segment env now H r hdr hr frame w)"
    "ds_recv_window (w_ds (process_segment env now H r hdr hr frame w)) = ds_recv_window (w_ds w)"
    using s w1 assms n neutral_wired [OF n(1)] neutral_wired [OF n(2)]
    by (simp_all add: process_segment_def Let_def neutral_def)
qed

lemma receive_other:
  assumes "wired w" and "sendable seg" and seg: "seg = (hdr, p)"
    and "link_control hdr \<or> (hdr_ingress_id hdr, hdr_session_id hdr) \<noteq> k"
  shows "undisturbed k w (receive env now H w (r, seg))"
proof -
  let ?w1 = "upd_mgr (upd_chan r noteSegmentRecv) w"
  have u: "undisturbed k w ?w1" by (rule undisturbed_note)
  have "wired ?w1" using assms(1) neutral_wired [of w ?w1] by simp
  then have "(hdr_ingress_id hdr, hdr_session_id hdr) \<noteq> k \<Longrightarrow>
      undisturbed k ?w1 (process_session_segment env now H r (decoded_header hdr p) p ?w1)"
    by (intro session_segment_other) simp_all
  moreover have "undisturbed k ?w1 (process_hello env r p ?w1)" "undisturbed k ?w1 (process_ack env p ?w1)"
    by (intro undisturbed_neutral neutral_hello neutral_ack; simp)+
  ultimately have "undisturbed k ?w1 (receive env now H w (r, seg))"
    using assms(2,4) unfolding seg by (simp add: receive_image Let_def link_control_def) blast
  then show ?thesis
    using undisturbed_trans [OF assms(1) _ u] by simp
qed

end

context steady_handler
begin

lemma receive_step:
  assumes inv: "recv_inv k h f N n w" and c: "carries k f N seg"
  shows "\<exists>n'. advances k h f N n w n' (receive env now H w (r, seg)) \<and>
    (covered k n w \<longrightarrow> (\<forall>m. m \<le> e_mb_space env now m) \<longrightarrow>
       covered k n' (receive env now H w (r, seg)) \<and>
       (\<forall>s. brings k s seg \<longrightarrow> N \<le> n + unat (ds_recv_window (w_ds w)) \<longrightarrow>
            got k n' (receive env now H w (r, seg)) s))"
proof -
  obtain hdr p where seg: "seg = (hdr, p)" by fastforce
  have snd: "sendable seg" using c by (simp add: carries_def seg)
  from inv have own: "wired w" and safe: "P w" by (simp_all add: recv_inv_def)
  have safe': "P (receive env now H w (r, seg))"
    unfolding receive_def step_segment_def by (auto intro: P_segment [OF safe])
  show ?thesis
  proof (cases "link_control hdr \<or> (hdr_ingress_id hdr, hdr_session_id hdr) \<noteq> k")
    case True
    then have u: "undisturbed k w (receive env now H w (r, seg))"
      using receive_other [OF own snd seg] by blast
    have "\<not> brings k s seg" for s using True by (auto simp: brings_def seg)
    then show ?thesis
      using advances_undisturbed [OF inv u safe'] recv_inv_undisturbed(3) [OF inv u safe'] by blast
  next
    case False
    let ?w1 = "upd_mgr (upd_chan r noteSegmentRecv) w"
    have u: "undisturbed k w ?w1" by (rule undisturbed_note)
    have "P ?w1" by (rule P_quiet [OF quiet_segment_recv safe])
    note i1 = recv_inv_undisturbed [OF inv u this]
    have rec: "receive env now H w (r, seg) = process_session_segment env now H r (decoded_header hdr p) p ?w1"
      using False snd by (simp add: seg receive_image link_control_def Let_def)
    have len: "length p \<le> MAX_PAYLOAD" using snd by (simp add: seg sendable_def)
    have d: "isSyn hdr \<and> \<not> (isData hdr \<and> p \<noteq> []) \<or>
        \<not> isSyn hdr \<and> (isData hdr \<and> p \<noteq> []) \<and> unat (hdr_seq_num hdr) < N \<and> p = f (unat (hdr_seq_num hdr))"
      and fin: "\<not> isFin hdr"
      using c False by (auto simp: carries_def seg brings_def)
    from session_segment_own [OF i1(1), of "decoded_header hdr p" p env now r] False d fin
    obtain n' where n': "advances k h f N n ?w1 n' (receive env now H w (r, seg))"
      "covered k n ?w1 \<longrightarrow> (\<forall>m. m \<le> e_mb_space env now m) \<longrightarrow> covered k n' (receive env now H w (r, seg)) \<and>
       (\<not> isSyn hdr \<longrightarrow> N \<le> n + unat (ds_recv_window (w_ds w)) \<longrightarrow>
        got k n' (receive env now H w (r, seg)) (hdr_seq_num hdr))"
      unfolding rec by (auto simp: decoded_has_data [OF len])
    have "advances k h f N n w n' (receive env now H w (r, seg))"
      using n'(1) i1(2) by (simp add: advances_def)
    moreover have "brings k s seg \<Longrightarrow> s = hdr_seq_num hdr \<and> \<not> isSyn hdr" for s
      by (auto simp: brings_def seg)
    ultimately show ?thesis
      using n'(2) i1(3) by blast
  qed
qed

lemma receive_all:
  assumes "recv_inv k h f N n w" and "\<forall>ev \<in> set evs. carries k f N (snd ev)"
  shows "\<exists>n'. advances k h f N n w n' (foldl (receive env now H) w evs) \<and>
    (covered k n w \<longrightarrow> (\<forall>m. m \<le> e_mb_space env now m) \<longrightarrow> N \<le> n + unat (ds_recv_window (w_ds w)) \<longrightarrow>
       covered k n' (foldl (receive env now H) w evs) \<and>
       (\<forall>s. (\<exists>ev \<in> set evs. brings k s (snd ev)) \<longrightarrow> got k n' (foldl (receive env now H) w evs) s))"
  using assms
proof (induction evs arbitrary: n w)
  case Nil
  then show ?case by (auto simp: advances_def)
next
  case (Cons ev evs)
  obtain r seg where ev: "ev = (r, seg)" by fastforce
  let ?w1 = "receive env now H w (r, seg)"
  from receive_step [OF Cons.prems(1), of seg env now r] Cons.prems(2) ev obtain n1 where
    n1: "advances k h f N n w n1 ?w1"
      "covered k n w \<longrightarrow> (\<forall>m. m \<le> e_mb_space env now m) \<longrightarrow> covered k n1 ?w1 \<and>
       (\<forall>s. brings k s seg \<longrightarrow> N \<le> n + unat (ds_recv_window (w_ds w)) \<longrightarrow> got k n1 ?w1 s)"
    by auto
  have inv1: "recv_inv k h f N n1 ?w1" using n1(1) by (simp add: advances_def)
  have inv0: "wired w" using Cons.prems(1) by (simp add: recv_inv_def)
  from Cons.IH [OF inv1] Cons.prems(2) obtain n2 where
    n2: "advances k h f N n1 ?w1 n2 (foldl (receive env now H) ?w1 evs)"
      "covered k n1 ?w1 \<longrightarrow> (\<forall>m. m \<le> e_mb_space env now m) \<longrightarrow> N \<le> n1 + unat (ds_recv_window (w_ds ?w1)) \<longrightarrow>
       covered k n2 (foldl (receive env now H) ?w1 evs) \<and>
       (\<forall>s. (\<exists>ev \<in> set evs. brings k s (snd ev)) \<longrightarrow> got k n2 (foldl (receive env now H) ?w1 evs) s)"
    by auto
  have win: "ds_recv_window (w_ds ?w1) = ds_recv_window (w_ds w)"
    using process_segment_wired(2) inv0 by (simp add: receive_def step_segment_def)
  let ?w2 = "foldl (receive env now H) ?w1 evs"
  have w2: "foldl (receive env now H) w (ev # evs) = ?w2" by (simp add: ev)
  have adv: "advances k h f N n w n2 ?w2" using advances_trans [OF n1(1) n2(1)] .
  have "covered k n2 ?w2 \<and> (\<forall>s. (\<exists>ev \<in> set (ev # evs). brings k s (snd ev)) \<longrightarrow> got k n2 ?w2 s)"
    if c: "covered k n w" "\<forall>m. m \<le> e_mb_space env now m" "N \<le> n + unat (ds_recv_window (w_ds w))"
  proof -
    have "n \<le> n1" using n1(1) by (simp add: advances_def)
    then have room: "N \<le> n1 + unat (ds_recv_window (w_ds w))" using c(3) by simp
    have c1: "covered k n1 ?w1" "\<And>s. brings k s seg \<Longrightarrow> got k n1 ?w1 s" using n1(2) c by blast+
    have c2: "covered k n2 ?w2" "\<And>s. (\<exists>ev \<in> set evs. brings k s (snd ev)) \<Longrightarrow> got k n2 ?w2 s"
      using n2(2) c1(1) c(2) room unfolding win by blast+
    have "got k n2 ?w2 s" if "brings k s seg" for s
      using c1(2) [OF that] n2(1) unfolding advances_def by blast
    with c2 show ?thesis by (auto simp: ev)
  qed
  with adv show ?case unfolding w2 by blast
qed

text \<open>In order and at most once, whatever arrives; completely, once every segment has arrived.\<close>

lemma delivered_prefix:
  assumes "recv_inv k h f N n w" and "\<forall>ev \<in> set evs. carries k f N (snd ev)"
  shows "\<exists>m. n \<le> m \<and> m \<le> N \<and> delivered h (w_trace (foldl (receive env now H) w evs)) = concat (map f [0..<m])"
    and "\<exists>st. find_session k (foldl (receive env now H) w evs) = Some st \<and> st_handler st = Some h"
proof -
  obtain m where m: "advances k h f N n w m (foldl (receive env now H) w evs)"
    using receive_all [OF assms, of env now] by blast
  then show "\<exists>m. n \<le> m \<and> m \<le> N \<and> delivered h (w_trace (foldl (receive env now H) w evs)) = concat (map f [0..<m])"
    by (auto simp: advances_def recv_inv_def)
  show "\<exists>st. find_session k (foldl (receive env now H) w evs) = Some st \<and> st_handler st = Some h"
    using m by (auto simp: advances_def recv_inv_def)
qed

lemma received_whole:
  assumes inv: "recv_inv k h f N n w" and all: "\<And>i. n \<le> i \<Longrightarrow> i < N \<Longrightarrow> got k n w (of_nat i)"
  shows "n = N"
proof (rule ccontr)
  assume "n \<noteq> N"
  then have "n < N" "N < 2 ^ 32" using inv by (auto simp: recv_inv_def word_less_nat_alt)
  then have n: "unat (of_nat n :: u32) = n" by (simp add: unat_of_nat)
  then have "buffered k w (of_nat n)" using all [OF order_refl \<open>n < N\<close>] by (simp add: got_def)
  then show False using inv n by (fastforce simp: buffered_def recv_inv_def)
qed

lemma received_all:
  assumes inv: "recv_inv k h f N n w" and c: "\<forall>ev \<in> set evs. carries k f N (snd ev)"
    and cov: "covered k n w" and mem: "\<forall>m. m \<le> e_mb_space env now m"
    and win: "N \<le> n + unat (ds_recv_window (w_ds w))"
    and every: "\<forall>i. n \<le> i \<and> i < N \<longrightarrow> (\<exists>ev \<in> set evs. brings k (of_nat i) (snd ev))"
  shows "recv_inv k h f N N (foldl (receive env now H) w evs)" and "covered k N (foldl (receive env now H) w evs)"
proof -
  let ?w = "foldl (receive env now H) w evs"
  from receive_all [OF inv c, of env now] cov mem win obtain m where
    m: "n \<le> m" "recv_inv k h f N m ?w" "covered k m ?w" "\<And>s. (\<exists>ev \<in> set evs. brings k s (snd ev)) \<Longrightarrow> got k m ?w s"
    unfolding advances_def by blast
  have "m = N" by (rule received_whole [OF m(2)]) (use m(1,4) every in auto)
  with m(2,3) show "recv_inv k h f N N ?w" "covered k N ?w" by simp_all
qed

end

section \<open>Links\<close>

text \<open>Chunks of bytes arriving on several links in any order. What the stream does is what it would
  do for some interleaving of the whole segments, each link in its own order.\<close>

definition arrive ::
  "fgw_env \<Rightarrow> u32 \<Rightarrow> 'a session_ops \<Rightarrow> 'a host \<Rightarrow> chan_ref \<times> bytes \<Rightarrow> 'a host" where
  "arrive env now H hst ev = onChannelBytes env now H (fst ev) (snd ev) hst"

definition on_link :: "chan_ref \<Rightarrow> (chan_ref \<times> 'b) list \<Rightarrow> 'b list" where
  "on_link r evs = map snd (filter (\<lambda>ev. fst ev = r) evs)"

lemma on_link_simps [simp]: "on_link r [] = []"
  "on_link r (ev # evs) = (if fst ev = r then snd ev # on_link r evs else on_link r evs)"
  "on_link r (xs @ ys) = on_link r xs @ on_link r ys"
  by (simp_all add: on_link_def)

lemma on_link_same: "on_link r (map (Pair r') xs) = (if r' = r then xs else [])"
  by (induction xs) auto

lemma foldl_receive_link:
  "foldl (receive env now H) w (map (Pair r) segs) = foldl (step_segment (process_segment env now H r)) w segs"
  by (induction segs arbitrary: w) (simp_all add: receive_def)

lemma scratch_of_set: "scratch_of r' \<lparr>host_scratch = smap_set r rest sc, host_world = w\<rparr> =
    (if r' = r then rest else scratch_of r' \<lparr>host_scratch = sc, host_world = w'\<rparr>)"
  by (simp add: scratch_of_def smap_find_set)

lemma links_merge_part:
  assumes "\<forall>r. \<forall>hp \<in> set (segs r). sendable hp"
    and "\<forall>r. scratch_of r hst @ concat (on_link r evs) @ ext r = wire_image (segs r)"
    and "\<forall>r. scan_frame (scratch_of r hst) = NeedMore"
  shows "\<exists>ms todo. (\<forall>r. segs r = on_link r ms @ todo r) \<and>
    host_world (foldl (arrive env now H) hst evs) = foldl (receive env now H) (host_world hst) ms \<and>
    (\<forall>r. scratch_of r (foldl (arrive env now H) hst evs) @ ext r = wire_image (todo r)) \<and>
    (\<forall>r. scan_frame (scratch_of r (foldl (arrive env now H) hst evs)) = NeedMore)"
  using assms
proof (induction evs arbitrary: hst segs)
  case Nil
  then show ?case by (intro exI [of _ "[]"] exI [of _ segs]) simp
next
  case (Cons ev evs)
  obtain r c where ev: "ev = (r, c)" by fastforce
  obtain rest w1 where loop: "frame_loop (process_segment env now H r) (scratch_of r hst @ c) (host_world hst) = (rest, w1)"
    by fastforce
  let ?h1 = "\<lparr>host_scratch = smap_set r rest (host_scratch hst), host_world = w1\<rparr>"
  have h1: "arrive env now H hst ev = ?h1"
    using loop by (simp add: arrive_def ev onChannelBytes_def)
  have buf: "(scratch_of r hst @ c) @ concat (on_link r evs) @ ext r = wire_image (segs r) @ []"
    using Cons.prems(2) [rule_format, of r] by (simp add: ev)
  from frame_loop_prefix [OF _ scan_frame_Nil buf, of "process_segment env now H r" "host_world hst"] Cons.prems(1) loop
  obtain ok todo where ok: "segs r = ok @ todo" "w1 = foldl (step_segment (process_segment env now H r)) (host_world hst) ok"
    "rest @ concat (on_link r evs) @ ext r = wire_image todo" "scan_frame rest = NeedMore"
    by auto
  define segs' where "segs' = segs(r := todo)"
  have sc: "scratch_of r' ?h1 = (if r' = r then rest else scratch_of r' hst)" for r'
    by (simp add: scratch_of_def smap_find_set)
  have "\<forall>r. set (segs' r) \<subseteq> set (segs r)"
    using ok(1) by (simp add: segs'_def)
  then have "\<forall>r. \<forall>hp \<in> set (segs' r). sendable hp"
    using Cons.prems(1) by blast
  moreover have "\<forall>r'. scratch_of r' ?h1 @ concat (on_link r' evs) @ ext r' = wire_image (segs' r')"
  proof
    fix r'
    show "scratch_of r' ?h1 @ concat (on_link r' evs) @ ext r' = wire_image (segs' r')"
      using Cons.prems(2) [rule_format, of r'] ok(3) unfolding sc segs'_def
      by (cases "r' = r") (simp_all add: ev)
  qed
  moreover have "\<forall>r'. scan_frame (scratch_of r' ?h1) = NeedMore"
    unfolding sc using Cons.prems(3) ok(4) by auto
  ultimately obtain ms rem where ms: "\<forall>r. segs' r = on_link r ms @ rem r"
      "host_world (foldl (arrive env now H) ?h1 evs) = foldl (receive env now H) w1 ms"
      "\<forall>r. scratch_of r (foldl (arrive env now H) ?h1 evs) @ ext r = wire_image (rem r)"
      "\<forall>r. scan_frame (scratch_of r (foldl (arrive env now H) ?h1 evs)) = NeedMore"
    using Cons.IH [of segs' ?h1] by auto
  have "segs r' = on_link r' (map (Pair r) ok @ ms) @ rem r'" for r'
    using ms(1) [rule_format, of r'] ok(1) by (simp add: on_link_same segs'_def split: if_splits)
  moreover have "host_world (foldl (arrive env now H) hst (ev # evs)) =
      foldl (receive env now H) (host_world hst) (map (Pair r) ok @ ms)"
    using ms(2) by (simp add: h1 ok(2) foldl_receive_link)
  ultimately show ?case
    using ms(3,4) by (intro exI [of _ "map (Pair r) ok @ ms"] exI [of _ rem]) (simp add: h1)
qed

lemma links_merge:
  assumes "\<forall>r. \<forall>hp \<in> set (segs r). sendable hp"
    and "\<forall>r. scratch_of r hst @ concat (on_link r evs) = wire_image (segs r)"
    and "\<forall>r. scan_frame (scratch_of r hst) = NeedMore"
  shows "\<exists>ms. (\<forall>r. on_link r ms = segs r) \<and>
    host_world (foldl (arrive env now H) hst evs) = foldl (receive env now H) (host_world hst) ms \<and>
    (\<forall>r. scratch_of r (foldl (arrive env now H) hst evs) = [])"
proof -
  let ?hst = "foldl (arrive env now H) hst evs"
  obtain ms todo where ms: "\<forall>r. segs r = on_link r ms @ todo r"
      "host_world ?hst = foldl (receive env now H) (host_world hst) ms"
      "\<forall>r. scratch_of r ?hst = wire_image (todo r)" "\<forall>r. scan_frame (scratch_of r ?hst) = NeedMore"
    using links_merge_part [of segs hst evs "\<lambda>_. []" env now H] assms unfolding append_Nil2 by blast
  have "todo r = []" for r
    by (rule wire_image_unfinished) (use ms(1,3,4) assms(1) [rule_format, of _ r] in simp_all)
  with ms show ?thesis by (auto simp: wire_image_def)
qed

lemma on_link_members: "(\<forall>ev \<in> set evs. P (snd ev)) \<longleftrightarrow> (\<forall>r. \<forall>x \<in> set (on_link r evs). P x)"
  "(\<exists>ev \<in> set evs. P (snd ev)) \<longleftrightarrow> (\<exists>r. \<exists>x \<in> set (on_link r evs). P x)"
  by (auto simp: on_link_def)

context steady_handler
begin

text \<open>The same for bytes: what every link has delivered so far is a beginning of the images of its segments, cut
  anywhere.\<close>

lemma arrivals_so_far:
  assumes inv: "recv_inv k h f N n (host_world hst)" and c: "\<forall>r. \<forall>seg \<in> set (segs r). carries k f N seg"
    and bytes: "\<forall>r. concat (on_link r evs) @ ext r = wire_image (segs r)" and fresh: "\<forall>r. scratch_of r hst = []"
  shows "\<exists>m. n \<le> m \<and> m \<le> N \<and> delivered h (w_trace (host_world (foldl (arrive env now H) hst evs))) = concat (map f [0..<m])"
    and "\<exists>st. find_session k (host_world (foldl (arrive env now H) hst evs)) = Some st \<and> st_handler st = Some h"
proof -
  have snd: "\<forall>r. \<forall>hp \<in> set (segs r). sendable hp"
    using c by (fastforce simp: carries_def)
  obtain ms todo where ms: "\<forall>r. segs r = on_link r ms @ todo r"
      "host_world (foldl (arrive env now H) hst evs) = foldl (receive env now H) (host_world hst) ms"
    using links_merge_part [of segs hst evs ext env now H] snd bytes fresh by auto
  have "carries k f N seg" if "seg \<in> set (on_link r ms)" for r seg
    using c [rule_format, of seg r] ms(1) [rule_format, of r] that by simp
  then have "\<forall>ev \<in> set ms. carries k f N (snd ev)" by (simp add: on_link_members(1) [of ms "carries k f N"])
  from delivered_prefix [OF inv this, of env now] show
    "\<exists>m. n \<le> m \<and> m \<le> N \<and> delivered h (w_trace (host_world (foldl (arrive env now H) hst evs))) = concat (map f [0..<m])"
    "\<exists>st. find_session k (host_world (foldl (arrive env now H) hst evs)) = Some st \<and> st_handler st = Some h"
    unfolding ms(2) .
qed

text \<open>Everything has arrived: every link delivered the images of its segments whole.\<close>

lemma arrivals:
  assumes inv: "recv_inv k h f N n (host_world hst)" and c: "\<forall>r. \<forall>seg \<in> set (segs r). carries k f N seg"
    and bytes: "\<forall>r. concat (on_link r evs) = wire_image (segs r)" and fresh: "\<forall>r. scratch_of r hst = []"
  shows "\<exists>m. n \<le> m \<and> m \<le> N \<and> delivered h (w_trace (host_world (foldl (arrive env now H) hst evs))) = concat (map f [0..<m])"
    and "covered k n (host_world hst) \<Longrightarrow> \<forall>m. m \<le> e_mb_space env now m \<Longrightarrow>
      N \<le> n + unat (ds_recv_window (w_ds (host_world hst))) \<Longrightarrow>
      \<forall>i. n \<le> i \<and> i < N \<longrightarrow> (\<exists>r. \<exists>seg \<in> set (segs r). brings k (of_nat i) seg) \<Longrightarrow>
      recv_inv k h f N N (host_world (foldl (arrive env now H) hst evs)) \<and>
      covered k N (host_world (foldl (arrive env now H) hst evs))"
    and "\<exists>st. find_session k (host_world (foldl (arrive env now H) hst evs)) = Some st \<and> st_handler st = Some h"
    and "\<forall>r. scratch_of r (foldl (arrive env now H) hst evs) = []"
proof -
  have "\<forall>r. \<forall>hp \<in> set (segs r). sendable hp"
    using c by (fastforce simp: carries_def)
  then obtain ms where ms: "\<forall>r. on_link r ms = segs r"
      "host_world (foldl (arrive env now H) hst evs) = foldl (receive env now H) (host_world hst) ms"
      "\<forall>r. scratch_of r (foldl (arrive env now H) hst evs) = []"
    using links_merge [of segs hst evs env now H] bytes fresh by auto
  have "\<forall>ev \<in> set ms. carries k f N (snd ev)"
    using c ms(1) by (simp add: on_link_members(1) [of ms "carries k f N"])
  note facts = received_all [OF inv this, of env now]
  show "\<forall>r. scratch_of r (foldl (arrive env now H) hst evs) = []" by (rule ms(3))
  have "\<forall>r. concat (on_link r evs) @ [] = wire_image (segs r)" using bytes by simp
  from arrivals_so_far [OF inv c this fresh, of env now] show
    "\<exists>m. n \<le> m \<and> m \<le> N \<and> delivered h (w_trace (host_world (foldl (arrive env now H) hst evs))) = concat (map f [0..<m])"
    "\<exists>st. find_session k (host_world (foldl (arrive env now H) hst evs)) = Some st \<and> st_handler st = Some h" .
  show "recv_inv k h f N N (host_world (foldl (arrive env now H) hst evs)) \<and>
      covered k N (host_world (foldl (arrive env now H) hst evs))"
    if "covered k n (host_world hst)" "\<forall>m. m \<le> e_mb_space env now m"
      "N \<le> n + unat (ds_recv_window (w_ds (host_world hst)))"
      "\<forall>i. n \<le> i \<and> i < N \<longrightarrow> (\<exists>r. \<exists>seg \<in> set (segs r). brings k (of_nat i) seg)"
    unfolding ms(2)
    by (intro conjI facts(1,2)) (use that ms(1) in \<open>simp_all add: on_link_members(2) [of ms "brings k _"]\<close>)
qed

end

end
