(* ===== verification/Fgw_Window.thy ===== *)
theory Fgw_Window
  imports Fgw_Receive
begin

text \<open>
  What holds of a stream whatever bytes arrive, from a faithful peer or not: no session buffers
  more than the receive window, and the dedup table stays the set of the keys in its ring.
\<close>

section \<open>The invariants\<close>

definition rx_ok :: "u32 \<Rightarrow> SessionState \<Rightarrow> bool" where
  "rx_ok win st \<longleftrightarrow> smap_inv (st_rx_buffer st) \<and>
     (\<forall>s \<in> fst ` set (st_rx_buffer st). s - st_expected_rx_seq st < win)"

definition all_rx_ok :: "'a world \<Rightarrow> bool" where
  "all_rx_ok w \<longleftrightarrow> (\<forall>k st. find_session k w = Some st \<longrightarrow> rx_ok (ucast (ds_recv_window (w_ds w))) st)"

definition dedup_inv :: "datastream \<Rightarrow> bool" where
  "dedup_inv ds \<longleftrightarrow> smap_inv (ds_dedup_map ds) \<and> distinct (ds_dedup_queue ds) \<and>
     set (ds_dedup_queue ds) = fst ` set (ds_dedup_map ds) \<and> length (ds_dedup_queue ds) \<le> kDedupRing"

lemma rx_ok_length: "rx_ok win st \<Longrightarrow> length (st_rx_buffer st) \<le> unat win"
proof -
  assume ok: "rx_ok win st"
  let ?K = "fst ` set (st_rx_buffer st)" and ?f = "\<lambda>s. unat (s - st_expected_rx_seq st)"
  have "card ?K \<le> card {..<unat win}"
  proof (rule card_inj_on_le)
    show "inj_on ?f ?K" by (rule inj_onI) (simp add: flip: word_unat_eq_iff)
    show "?f ` ?K \<subseteq> {..<unat win}" using ok by (auto simp: rx_ok_def word_less_nat_alt)
  qed simp
  moreover have "length (st_rx_buffer st) = card ?K"
    using ok smap_inv_distinct [of "st_rx_buffer st"] distinct_card [of "map fst (st_rx_buffer st)"]
    by (simp add: rx_ok_def)
  ultimately show ?thesis by simp
qed

lemma rx_ok_cong: "rx_part a = rx_part b \<Longrightarrow> rx_ok win a = rx_ok win b"
  using rx_part_fields [of a b] by (simp add: rx_ok_def)

lemma rx_ok_init [simp]: "st_rx_buffer st = [] \<Longrightarrow> rx_ok win st"
  by (simp add: rx_ok_def)

lemma word_pred_less: "(x :: u32) \<noteq> 0 \<Longrightarrow> x < w \<Longrightarrow> x - 1 < w"
  by (simp add: word_less_nat_alt unat_minus_one)

lemma collect_ready_ok:
  "collect_ready m e = (ready, m', e') \<Longrightarrow> smap_inv m \<Longrightarrow> \<forall>s \<in> fst ` set m. s - e < win \<Longrightarrow>
   smap_inv m' \<and> (\<forall>s \<in> fst ` set m'. s - e' < win)"
proof (induction m e arbitrary: ready m' e' rule: collect_ready.induct)
  case (2 s p m e)
  show ?case
  proof (cases "s = e")
    case True
    have "a - (e + 1) < win" if "a \<in> fst ` set m" for a
    proof -
      have "a \<noteq> e" using "2.prems"(2) that True by (auto simp: smap_inv_Cons)
      then have "a - e \<noteq> 0" by simp
      moreover have "a - e < win" using "2.prems"(3) that by auto
      ultimately have "a - e - 1 < win" by (rule word_pred_less)
      then show ?thesis by (simp add: algebra_simps)
    qed
    then show ?thesis
      using 2 True by (auto simp: smap_inv_Cons split: prod.splits)
  qed (use 2 in auto)
qed simp

section \<open>Every operation keeps them\<close>

lemma handler_frame_rx:
  assumes "handler_frame k w w'" and "all_rx_ok w"
  shows "all_rx_ok w'"
  unfolding all_rx_ok_def
proof (intro allI impI)
  fix k' st' assume st': "find_session k' w' = Some st'"
  have win: "ds_recv_window (w_ds w') = ds_recv_window (w_ds w)"
    using assms(1) ds_rest_fields(2) [of "w_ds w'" "w_ds w"] by (simp add: handler_frame_def)
  obtain st where "find_session k' w = Some st" "rx_part st' = rx_part st"
    using assms(1) st' by (cases "k' = k") (auto simp: handler_frame_def)
  then show "rx_ok (ucast (ds_recv_window (w_ds w'))) st'"
    using assms(2) rx_ok_cong unfolding win all_rx_ok_def by blast
qed

lemma handler_frame_dedup: "handler_frame k w w' \<Longrightarrow> dedup_inv (w_ds w) \<Longrightarrow> dedup_inv (w_ds w')"
  using ds_rest_fields(3,4) [of "w_ds w'" "w_ds w"] by (simp add: handler_frame_def dedup_inv_def)

lemma all_rx_ok_put:
  "all_rx_ok w \<Longrightarrow> rx_ok (ucast (ds_recv_window (w_ds w))) st \<Longrightarrow> all_rx_ok (put_session k st w)"
  by (auto simp: all_rx_ok_def) (simp_all add: put_session_def upd_ds_def)

lemma all_rx_ok_erase: "all_rx_ok w \<Longrightarrow> all_rx_ok (erase_session k w)"
  by (auto simp: all_rx_ok_def split: if_splits) (simp add: erase_session_def upd_ds_def)

lemma all_rx_ok_trace [simp]: "all_rx_ok (w\<lparr>w_trace := tr\<rparr>) = all_rx_ok w"
  by (simp add: all_rx_ok_def)

lemma neutral_rx: "neutral w w' \<Longrightarrow> all_rx_ok w' = all_rx_ok w"
  using neutral_find [of w w'] by (simp add: all_rx_ok_def) (simp add: neutral_def)

lemma dedup_inv_record:
  assumes inv: "dedup_inv ds" and new: "\<not> smap_count (ds_dedup_map ds) dk"
  shows "dedup_inv (record_dedup dk ds)"
proof -
  let ?q = "ds_dedup_queue ds @ [dk]" and ?m = "smap_set dk True (ds_dedup_map ds)"
  have m: "smap_inv ?m" "fst ` set ?m = set ?q" and q: "distinct ?q"
    using inv new by (auto simp: dedup_inv_def smap_inv_set keys_smap_set smap_count_def smap_find_None_iff)
  obtain x q' where q': "?q = x # q'" by (cases ?q) simp_all
  have "fst ` set (smap_erase x ?m) = fst ` set ?m - {x}"
    by (auto simp: smap_erase_def)
  then have "fst ` set (smap_erase x ?m) = set q'"
    using m(2) q q' by (simp only: list.set distinct.simps) blast
  moreover have "length q' = length (ds_dedup_queue ds)"
    using arg_cong [OF q', of length] by simp
  ultimately show ?thesis
    using m q q' inv unfolding record_dedup_def Let_def dedup_inv_def
    by (auto simp: smap_inv_erase)
qed

lemma dedup_inv_note:
  "dedup_inv (w_ds w) \<Longrightarrow> \<not> smap_count (ds_dedup_map (w_ds w)) dk \<Longrightarrow> dedup_inv (w_ds (note_fresh dk pc w))"
  using dedup_inv_record [of "w_ds w" dk] by (simp add: note_fresh_def Let_def dedup_inv_def)

lemma dedup_inv_rest: "ds_rest d = ds_rest e \<Longrightarrow> dedup_inv d = dedup_inv e"
  using ds_rest_fields(3,4) [of d e] by (simp add: dedup_inv_def)

definition expected_of :: "session_key \<Rightarrow> 'a world \<Rightarrow> u32" where
  "expected_of k w = (case find_session k w of None \<Rightarrow> 0 | Some st \<Rightarrow> st_expected_rx_seq st)"

context session_handler
begin

definition stream_inv :: "'a world \<Rightarrow> bool" where
  "stream_inv w \<longleftrightarrow> wired w \<and> all_rx_ok w \<and> dedup_inv (w_ds w)"

lemma call_datas_rx: "owns w h k \<Longrightarrow> all_rx_ok w \<Longrightarrow> all_rx_ok (foldl (call_data H h (snd k)) w bs)"
proof (induction bs arbitrary: w)
  case (Cons b bs)
  have "all_rx_ok (call_data H h (snd k) w b)"
    using Cons.prems handler_frame_rx [OF data_frame [OF owns_trace [OF Cons.prems(1)]]]
    by (simp add: call_data_def)
  with Cons calm_owns [OF calm_call_data] show ?case by auto
qed simp

lemma deliver_rx: "wired w \<Longrightarrow> all_rx_ok w \<Longrightarrow> all_rx_ok (deliverInOrder H k w)"
proof -
  assume wired: "wired w" and ok: "all_rx_ok w"
  show ?thesis
  proof (cases "session_handler_of k w")
    case None
    then show ?thesis
      using ok by (auto simp: deliverInOrder_def session_handler_of_def split: option.splits)
  next
    case (Some h)
    then obtain st where st: "find_session k w = Some st" "st_handler st = Some h"
      by (auto simp: session_handler_of_def split: option.splits)
    obtain ready buf e where c: "collect_ready (st_rx_buffer st) (st_expected_rx_seq st) = (ready, buf, e)"
      by (metis prod_cases3)
    let ?st = "st\<lparr>st_rx_buffer := buf, st_expected_rx_seq := e\<rparr>"
    have sid: "st_session_id st = snd k" and own: "owns w h k" using wiredD [OF wired st(1)] st(2) by auto
    have "rx_ok (ucast (ds_recv_window (w_ds w))) st" using ok st(1) by (auto simp: all_rx_ok_def)
    then have "rx_ok (ucast (ds_recv_window (w_ds w))) ?st"
      using collect_ready_ok [OF c, of "ucast (ds_recv_window (w_ds w))"] by (simp add: rx_ok_def)
    then have "all_rx_ok (put_session k ?st w)" using ok by (intro all_rx_ok_put)
    moreover have "owns (put_session k ?st w) h k"
      using calm_owns [OF calm_put own, of ?st k] sid own st(2) by auto
    ultimately show ?thesis
      using call_datas_rx c st sid by (simp add: deliverInOrder_def)
  qed
qed

lemma ensure_rx: "all_rx_ok w \<Longrightarrow> all_rx_ok (ensure_session H k w)"
proof (cases "find_session k w = None \<and> so_unknown H \<noteq> None")
  case True
  assume ok: "all_rx_ok w"
  from True obtain cb where cb: "so_unknown H = Some cb" by blast
  obtain ho w' where r: "cb (fst k) (snd k) w = (ho, w')" by fastforce
  have "all_rx_ok w'"
    using ok unknown_frame [OF cb r] by (simp add: all_rx_ok_def find_session_def)
  then show ?thesis
    using True cb r by (auto simp: ensure_session_def create_session_def SessionState_init_def intro!: all_rx_ok_put)
next
  case False
  assume "all_rx_ok w"
  with False show ?thesis
    by (auto simp: ensure_session_def create_session_def SessionState_init_def intro!: all_rx_ok_put)
qed

lemma ensure_expected: "expected_of k (ensure_session H k w) = expected_of k w"
  by (auto simp: ensure_session_def create_session_def expected_of_def SessionState_init_def
      split: option.splits prod.splits)

lemma syn_rx:
  assumes "wired w" "all_rx_ok w"
  shows "all_rx_ok (process_syn H k w)" and "expected_of k (process_syn H k w) = expected_of k w"
proof -
  let ?w = "ensure_session H k w"
  have w: "wired ?w" "all_rx_ok ?w"
    using assms calm_wired [OF calm_ensure] ensure_rx by blast+
  have "all_rx_ok (process_syn H k w) \<and> expected_of k (process_syn H k w) = expected_of k ?w"
  proof (cases "session_handler_of k ?w")
    case None
    then show ?thesis using w by (simp add: process_syn_def)
  next
    case (Some h)
    let ?w1 = "?w\<lparr>w_trace := w_trace ?w @ [EvOpen h (snd k)]\<rparr>"
    have own: "owns ?w1 h k" using session_handler_owned [OF w(1) Some] by (rule owns_trace)
    have eq: "process_syn H k w = so_open H h (snd k) ?w1"
      using Some by (simp add: process_syn_def Let_def)
    obtain st where st: "find_session k ?w1 = Some st"
      using Some by (auto simp: session_handler_of_def split: option.splits)
    from open_keeps [OF own st] obtain st' where
      st': "find_session k (so_open H h (snd k) ?w1) = Some st'" "rx_part st' = rx_part st" by blast
    have "expected_of k (process_syn H k w) = expected_of k ?w"
      using st st'(1) rx_part_fields(3) [OF st'(2)] by (simp add: eq expected_of_def)
    moreover have "all_rx_ok (process_syn H k w)"
      unfolding eq using handler_frame_rx [OF open_frame [OF own]] w by simp
    ultimately show ?thesis by blast
  qed
  then show "all_rx_ok (process_syn H k w)" "expected_of k (process_syn H k w) = expected_of k w"
    by (simp_all add: ensure_expected)
qed

lemma fin_rx:
  assumes "wired w" "all_rx_ok w"
  shows "all_rx_ok (process_fin H k w)"
proof -
  define w1 where "w1 = (case session_handler_of k w of None \<Rightarrow> w
      | Some h \<Rightarrow> so_close H h (snd k) (w\<lparr>w_trace := w_trace w @ [EvClose h (snd k)]\<rparr>))"
  have "all_rx_ok w1"
  proof (cases "session_handler_of k w")
    case (Some h)
    have "owns w h k" using session_handler_owned [OF assms(1) Some] .
    from handler_frame_rx [OF close_frame [OF owns_trace [OF this]]] assms(2) Some
    show ?thesis by (simp add: w1_def)
  qed (simp add: w1_def assms)
  then show ?thesis
    using assms(2) unfolding process_fin_def Let_def w1_def [symmetric] by (simp add: all_rx_ok_erase)
qed

lemma data_rx:
  assumes wired: "wired w" and ok: "all_rx_ok w" and s: "s - expected_of k w < ucast (ds_recv_window (w_ds w))"
  shows "all_rx_ok (process_data env now H k s p w)"
proof -
  define w1 where "w1 = ensure_session H k w"
  define w2 where "w2 = (case find_session k w1 of None \<Rightarrow> w1
      | Some st \<Rightarrow> if e_mb_space env now (length p) \<ge> length p
          then put_session k (st\<lparr>st_rx_buffer := smap_emplace s p (st_rx_buffer st)\<rparr>) w1 else w1)"
  have w1: "wired w1" "all_rx_ok w1"
    unfolding w1_def using calm_wired [OF calm_ensure wired] ensure_rx [OF ok] by blast+
  have win: "ds_recv_window (w_ds w1) = ds_recv_window (w_ds w)"
    using calm_ensure [of k w] ds_rest_fields(2) [of "w_ds w1" "w_ds w"] by (simp add: calm_def w1_def)
  have s1: "s - expected_of k w1 < ucast (ds_recv_window (w_ds w1))"
    using s win by (simp add: w1_def ensure_expected)
  have "all_rx_ok w2 \<and> wired w2"
  proof (cases "find_session k w1")
    case (Some st)
    let ?st = "st\<lparr>st_rx_buffer := smap_emplace s p (st_rx_buffer st)\<rparr>"
    have "rx_ok (ucast (ds_recv_window (w_ds w1))) st" using w1(2) Some by (auto simp: all_rx_ok_def)
    then have "rx_ok (ucast (ds_recv_window (w_ds w1))) ?st"
      using s1 Some by (simp add: rx_ok_def smap_emplace_inv smap_emplace_keys expected_of_def)
    moreover have "calm k w1 (put_session k ?st w1)"
      using wiredD [OF w1(1) Some] by (intro calm_put) auto
    ultimately show ?thesis
      using Some w1 calm_wired by (auto simp: w2_def intro!: all_rx_ok_put)
  qed (simp add: w2_def w1)
  then have "all_rx_ok (deliverInOrder H k w2)"
    using deliver_rx by blast
  then show ?thesis
    unfolding process_data_def w1_def w2_def Let_def by simp
qed

lemma session_segment_inv:
  assumes inv: "stream_inv w"
  shows "stream_inv (process_session_segment env now H r hdr p w)"
proof -
  let ?k = "(rx_ingress_of hdr, hdr_session_id hdr)"
  let ?dk = "segment_dedup_key hdr (rx_ingress_of hdr)"
  define w1 where "w1 = note_fresh ?dk (peer_channel r w) w"
  define w2 where "w2 = (if isSyn hdr then process_syn H ?k w1 else w1)"
  define w3 where "w3 = (if isFin hdr then process_fin H ?k w2
      else if has_data hdr then process_data env now H ?k (hdr_seq_num hdr) p w2 else w2)"
  have n1: "neutral w w1" by (simp add: w1_def)
  have w1: "wired w1" "all_rx_ok w1" "expected_of ?k w1 = expected_of ?k w"
    using inv neutral_wired [OF n1] neutral_rx [OF n1] neutral_find [OF n1]
    by (simp_all add: stream_inv_def expected_of_def)
  have w2: "wired w2" "all_rx_ok w2" "expected_of ?k w2 = expected_of ?k w"
    using w1 syn_rx [OF w1(1,2), of ?k] calm_wired [OF calm_syn [OF w1(1)] w1(1), of ?k] by (auto simp: w2_def)
  have c3: "calm ?k w1 w3"
    unfolding w3_def by (rule calm_session_steps [OF w1(1)]) (simp add: w2_def)
  have win: "ds_recv_window (w_ds w2) = ds_recv_window (w_ds w)"
    using calm_syn [OF w1(1), of ?k] ds_rest_fields(2) [of "w_ds w2" "w_ds w1"] n1
    by (auto simp: w2_def calm_def neutral_def)
  have rx3: "all_rx_ok w3" if "\<not> (has_data hdr \<and> outside_window ?k (hdr_seq_num hdr) w)"
  proof -
    have "has_data hdr \<Longrightarrow> hdr_seq_num hdr - expected_of ?k w2 < ucast (ds_recv_window (w_ds w2))"
      using that unfolding w2(3) win by (simp add: outside_window_def expected_of_def Let_def not_le)
    then show ?thesis
      unfolding w3_def using fin_rx [OF w2(1,2)] data_rx [OF w2(1,2)] w2(2) by simp
  qed
  have dd3: "dedup_inv (w_ds w3)" if "\<not> smap_count (ds_dedup_map (w_ds w)) ?dk"
    using dedup_inv_note [OF _ that, of "peer_channel r w"] inv c3 dedup_inv_rest [of "w_ds w3" "w_ds w1"]
    by (simp add: stream_inv_def calm_def w1_def)
  have dup: "stream_inv (note_duplicate (peer_channel r w) w)"
    using inv neutral_wired [OF neutral_note(2)] neutral_rx [OF neutral_note(2)]
    by (auto simp: stream_inv_def) (simp add: note_duplicate_def dedup_inv_def)
  have "process_session_segment env now H r hdr p w =
      (if smap_count (ds_dedup_map (w_ds w)) ?dk then note_duplicate (peer_channel r w) w
       else if has_data hdr \<and> outside_window ?k (hdr_seq_num hdr) w then w else w3)"
    by (simp add: process_session_segment_alt w1_def w2_def w3_def Let_def)
  then show ?thesis
    using dup inv rx3 dd3 calm_wired [OF c3 w1(1)] by (simp add: stream_inv_def)
qed

lemma neutral_inv: "neutral w w' \<Longrightarrow> ds_dedup_map (w_ds w') = ds_dedup_map (w_ds w) \<Longrightarrow>
    ds_dedup_queue (w_ds w') = ds_dedup_queue (w_ds w) \<Longrightarrow> stream_inv w \<Longrightarrow> stream_inv w'"
  by (simp add: stream_inv_def neutral_wired neutral_rx dedup_inv_def)

lemma process_segment_inv: "stream_inv w \<Longrightarrow> stream_inv (process_segment env now H r hdr hr frame w)"
proof -
  assume inv: "stream_inv w"
  let ?w1 = "upd_mgr (upd_chan r noteSegmentRecv) w"
  have w1: "stream_inv ?w1"
    by (rule neutral_inv [OF _ _ _ inv]) simp_all
  have "ds_dedup_queue (w_ds (process_hello env r p w)) = ds_dedup_queue (w_ds w)"
    "ds_dedup_queue (w_ds (process_ack env p w)) = ds_dedup_queue (w_ds w)" for p and w :: "'a world"
    by (auto simp: process_hello_def process_ack_def Let_def split: prod.splits)
  with inv w1 show ?thesis
    unfolding process_segment_def Let_def
    by (auto intro: session_segment_inv neutral_inv [OF neutral_hello] neutral_inv [OF neutral_ack])
qed

lemma onChannelBytes_inv: "stream_inv (host_world hst) \<Longrightarrow> stream_inv (host_world (onChannelBytes env now H r buf hst))"
  unfolding onChannelBytes_def
  using frame_loop_inv [of stream_inv "host_world hst" "process_segment env now H r" "scratch_of r hst @ buf"]
    process_segment_inv
  by (auto split: prod.split)

lemma stream_inv_buffer:
  "stream_inv w \<Longrightarrow> find_session k w = Some st \<Longrightarrow> length (st_rx_buffer st) \<le> unat (ds_recv_window (w_ds w))"
  using rx_ok_length [of "ucast (ds_recv_window (w_ds w))" st] by (simp add: stream_inv_def all_rx_ok_def unat_ucast_u16)

lemma stream_inv_dedup:
  "stream_inv w \<Longrightarrow> length (ds_dedup_map (w_ds w)) \<le> kDedupRing"
  unfolding stream_inv_def dedup_inv_def
  by (metis distinct_card length_map list.set_map smap_inv_distinct)

end

end
