(* ===== verification/Fgw_Inport.thy ===== *)
theory Fgw_Inport
  imports Fgw_Window
begin

text \<open>
  The ingress side, \<^verbatim>\<open>src/src/zfgw_inport.{h,cpp}\<close>: \<^verbatim>\<open>FgwSession\<close>, one per local client connection, and
  \<^verbatim>\<open>InportService\<close>, which accepts clients and keeps the sessions. The application state of the world
  is the record \<open>inport\<close>; sessions are objects on a heap, named by handler references, because the
  service, the client's socket and the stream all point at them. \<open>fs_client_out\<close>, the blocks written
  to the client, is not in the source. The client's socket is \<open>fs_client_tcp\<close> while
  \<^verbatim>\<open>client_tcp_\<close> is set, and \<open>fs_attached\<close> while the socket's \<^verbatim>\<open>session_\<close> is.
\<close>

section \<open>Data\<close>

record FgwSession =
  fs_session_id :: u32
  fs_client_tcp :: bool
  fs_attached :: bool
  fs_client_addr :: string
  fs_open_timestamp :: u32
  fs_bytes_sent :: u64
  fs_bytes_recv :: u64
  fs_closed :: bool
  fs_client_out :: "bytes list"

record inport =
  ip_acceptor :: bool
  ip_sessions :: "(u32, handler_ref) std_map"
  ip_heap :: "handler_ref \<Rightarrow> FgwSession"
  ip_next_ref :: handler_ref
  ip_next_session_id :: u32

definition new_FgwSession :: "u32 \<Rightarrow> u32 \<Rightarrow> FgwSession" where
  "new_FgwSession session_id timestamp =
     \<lparr>fs_session_id = session_id, fs_client_tcp = False, fs_attached = False, fs_client_addr = [],
      fs_open_timestamp = timestamp, fs_bytes_sent = 0, fs_bytes_recv = 0, fs_closed = False, fs_client_out = []\<rparr>"

definition inport_init :: inport where
  "inport_init = \<lparr>ip_acceptor = False, ip_sessions = [], ip_heap = (\<lambda>_. new_FgwSession 0 0), ip_next_ref = 0,
                  ip_next_session_id = 1\<rparr>"

definition upd_app :: "('a \<Rightarrow> 'a) \<Rightarrow> 'a world \<Rightarrow> 'a world" where
  "upd_app f w = w\<lparr>w_app := f (w_app w)\<rparr>"

definition upd_fs :: "handler_ref \<Rightarrow> (FgwSession \<Rightarrow> FgwSession) \<Rightarrow> inport world \<Rightarrow> inport world" where
  "upd_fs h f w = upd_app (\<lambda>ip. ip\<lparr>ip_heap := (ip_heap ip)(h := f (ip_heap ip h))\<rparr>) w"

section \<open>InportService\<close>

definition inport_allocateSessionId :: "inport \<Rightarrow> u32 \<times> inport" where
  "inport_allocateSessionId ip =
     (ip_next_session_id ip, ip\<lparr>ip_next_session_id := ip_next_session_id ip + 1\<rparr>)"

definition inport_removeSession :: "u32 \<Rightarrow> inport \<Rightarrow> inport" where
  "inport_removeSession session_id ip = ip\<lparr>ip_sessions := smap_erase session_id (ip_sessions ip)\<rparr>"

definition inport_registerSession :: "handler_ref \<Rightarrow> inport \<Rightarrow> inport" where
  "inport_registerSession h ip =
     ip\<lparr>ip_sessions := smap_set (fs_session_id (ip_heap ip h)) h (ip_sessions ip)\<rparr>"

definition inport_snapshotSessions :: "inport \<Rightarrow> FgwSession list" where
  "inport_snapshotSessions ip = map (\<lambda>(sid, h). ip_heap ip h) (ip_sessions ip)"

section \<open>FgwSession\<close>

definition bindClientTcp :: "string \<Rightarrow> FgwSession \<Rightarrow> FgwSession" where
  "bindClientTcp addr s = s\<lparr>fs_client_tcp := True, fs_client_addr := addr\<rparr>"

definition fs_onClientBytes :: "fgw_env \<Rightarrow> u32 \<Rightarrow> handler_ref \<Rightarrow> bytes \<Rightarrow> inport world \<Rightarrow> inport world" where
  "fs_onClientBytes env now h buf w =
     (let s = ip_heap (w_app w) h
      in if fs_closed s then w
         else
           let w = upd_fs h (\<lambda>s. s\<lparr>fs_bytes_recv := fs_bytes_recv s + of_nat (length buf)\<rparr>) w
           in snd (sendSessionData env now (fs_session_id s) buf kFgwWireIngressUseLocal w))"

definition fs_close :: "fgw_env \<Rightarrow> u32 \<Rightarrow> handler_ref \<Rightarrow> inport world \<Rightarrow> inport world" where
  "fs_close env now h w =
     (let s = ip_heap (w_app w) h
      in if fs_closed s then w
         else
           let w = upd_fs h (\<lambda>s. s\<lparr>fs_closed := True\<rparr>) w;
               w = closeSession env now (fs_session_id s) kFgwWireIngressUseLocal w;
               w = upd_fs h (\<lambda>s. s\<lparr>fs_client_tcp := False\<rparr>) w
           in upd_app (inport_removeSession (fs_session_id s)) w)"

definition fs_onSessionData :: "fgw_env \<Rightarrow> u32 \<Rightarrow> handler_ref \<Rightarrow> u32 \<Rightarrow> bytes \<Rightarrow> inport world \<Rightarrow> inport world" where
  "fs_onSessionData env now h sid buf w =
     (let s = ip_heap (w_app w) h
      in if \<not> fs_client_tcp s \<or> fs_closed s then w
         else if e_mb_space env now (length buf) < length buf then w
         else upd_fs h (\<lambda>s. s\<lparr>fs_client_out := fs_client_out s @ [buf],
                              fs_bytes_sent := fs_bytes_sent s + of_nat (length buf)\<rparr>) w)"

definition fs_onSessionClose :: "fgw_env \<Rightarrow> u32 \<Rightarrow> handler_ref \<Rightarrow> u32 \<Rightarrow> inport world \<Rightarrow> inport world" where
  "fs_onSessionClose env now h sid w = fs_close env now h w"

definition inport_ops :: "fgw_env \<Rightarrow> u32 \<Rightarrow> inport session_ops" where
  "inport_ops env now =
     \<lparr>so_open = (\<lambda>h sid w. w), so_data = fs_onSessionData env now, so_close = fs_onSessionClose env now,
      so_unknown = None\<rparr>"

section \<open>Clients\<close>

text \<open>The acceptor's factory: a client connects.\<close>

definition inport_accept :: "fgw_env \<Rightarrow> u32 \<Rightarrow> u32 \<Rightarrow> string \<Rightarrow> inport world \<Rightarrow> handler_ref \<times> inport world" where
  "inport_accept env now timestamp addr w =
     (case inport_allocateSessionId (w_app w) of (sid, ip) \<Rightarrow>
        let h = ip_next_ref ip;
            s = (bindClientTcp addr (new_FgwSession sid timestamp))\<lparr>fs_attached := True\<rparr>;
            ip = ip\<lparr>ip_heap := (ip_heap ip)(h := s), ip_next_ref := Suc h,
                    ip_sessions := smap_set sid h (ip_sessions ip)\<rparr>
        in (h, snd (openSession env now sid (Some h) (w\<lparr>w_app := ip\<rparr>))))"

text \<open>\<^verbatim>\<open>InportTcp::on_read_data\<close> and \<^verbatim>\<open>on_close\<close>\<close>

definition client_on_read :: "fgw_env \<Rightarrow> u32 \<Rightarrow> handler_ref \<Rightarrow> bytes \<Rightarrow> inport world \<Rightarrow> inport world" where
  "client_on_read env now h buf w =
     (if fs_attached (ip_heap (w_app w) h) then fs_onClientBytes env now h buf w else w)"

definition client_on_close :: "fgw_env \<Rightarrow> u32 \<Rightarrow> handler_ref \<Rightarrow> inport world \<Rightarrow> inport world" where
  "client_on_close env now h w =
     (if fs_attached (ip_heap (w_app w) h)
      then upd_fs h (\<lambda>s. s\<lparr>fs_attached := False\<rparr>) (fs_close env now h w) else w)"

definition inport_start :: "fgw_env \<Rightarrow> string \<Rightarrow> u16 \<Rightarrow> inport \<Rightarrow> int \<times> inport" where
  "inport_start env listen_ip listen_port ip =
     (if ip_acceptor ip then (errcode ERR_BUSY, ip)
      else if e_acceptor_listen env (if listen_ip = [] then ''0.0.0.0'' else listen_ip) listen_port < 0
      then (errcode ERR_LISTENFAIL, ip\<lparr>ip_acceptor := False\<rparr>)
      else (0, ip\<lparr>ip_acceptor := True\<rparr>))"

definition inport_stop :: "fgw_env \<Rightarrow> u32 \<Rightarrow> inport world \<Rightarrow> inport world" where
  "inport_stop env now w =
     (let copy = ip_sessions (w_app w);
          w = upd_app (\<lambda>ip. ip\<lparr>ip_acceptor := False, ip_sessions := []\<rparr>) w
      in foldl (\<lambda>w kv. fs_close env now (snd kv) w) w copy)"

section \<open>The sessions honour the contract\<close>

definition inport_owns :: "inport world \<Rightarrow> handler_ref \<Rightarrow> session_key \<Rightarrow> bool" where
  "inport_owns w h k \<longleftrightarrow> h < ip_next_ref (w_app w) \<and>
     k = (ds_local_ingress_id (w_ds w), fs_session_id (ip_heap (w_app w) h))"

lemma upd_fs_simps [simp]:
  "w_ds (upd_fs h f w) = w_ds w" "w_mgr (upd_fs h f w) = w_mgr w" "w_trace (upd_fs h f w) = w_trace w"
  "ip_heap (w_app (upd_fs h f w)) = (ip_heap (w_app w))(h := f (ip_heap (w_app w) h))"
  "ip_next_ref (w_app (upd_fs h f w)) = ip_next_ref (w_app w)"
  "ip_sessions (w_app (upd_fs h f w)) = ip_sessions (w_app w)"
  "w_ds (upd_app g v) = w_ds v" "w_mgr (upd_app g v) = w_mgr v" "w_trace (upd_app g v) = w_trace v"
  "w_app (upd_app g v) = g (w_app v)"
  by (simp_all add: upd_fs_def upd_app_def)

lemma find_session_upd_app [simp]: "find_session k (upd_app f w) = find_session k w"
  "find_session k (upd_fs h g v) = find_session k v"
  by (simp_all add: find_session_def upd_fs_def)

lemma handler_frame_app [simp]: "handler_frame k w (upd_app f w)" "handler_frame k v (upd_fs h g v)"
  by (auto simp: handler_frame_def)

lemma resolve_local [simp]: "resolveIngressKey ds kFgwWireIngressUseLocal = ds_local_ingress_id ds"
  by (simp add: resolveIngressKey_def)

lemma closeSession_app [simp]: "w_app (closeSession env now sid key w) = w_app w"
  by (simp add: closeSession_def Let_def split: option.split)

lemma sendSessionData_app [simp]: "w_app (snd (sendSessionData env now sid buf key w)) = w_app w"
  by (simp add: sendSessionData_def Let_def split: option.split prod.split)

lemma fs_data_frame: "handler_frame k w (fs_onSessionData env now h sid buf w)"
  by (simp add: fs_onSessionData_def Let_def)

lemma fs_close_frame:
  assumes "inport_owns w h k"
  shows "handler_frame k w (fs_close env now h w)"
proof -
  let ?w1 = "upd_fs h (\<lambda>s. s\<lparr>fs_closed := True\<rparr>) w"
  have k: "k = (resolveIngressKey (w_ds ?w1) kFgwWireIngressUseLocal, fs_session_id (ip_heap (w_app w) h))"
    using assms by (simp add: inport_owns_def)
  have "handler_frame k w (closeSession env now (fs_session_id (ip_heap (w_app w) h)) kFgwWireIngressUseLocal ?w1)"
    unfolding k by (rule handler_frame_trans [OF handler_frame_app(2) closeSession_frame])
  then show ?thesis
    unfolding fs_close_def Let_def
    by (auto intro: handler_frame_trans [OF handler_frame_trans [OF _ handler_frame_app(2)] handler_frame_app(1)])
qed

lemma closeSession_local [simp]: "ds_local_ingress_id (w_ds (closeSession env now sid key w)) = ds_local_ingress_id (w_ds w)"
  using closeSession_frame [of w key sid env now] ds_rest_fields(1) [of "w_ds (closeSession env now sid key w)" "w_ds w"]
  by (simp add: handler_frame_def)

lemma fs_owns:
  "inport_owns (fs_onSessionData env now h sid buf w) h' k = inport_owns w h' k"
  "inport_owns (fs_close env now h w) h' k = inport_owns w h' k"
  by (simp_all add: inport_owns_def fs_onSessionData_def fs_close_def inport_removeSession_def Let_def)

interpretation inport: steady_handler "inport_ops env now" inport_owns "\<lambda>_. True" "\<lambda>_ _ _. True" "\<lambda>_. True"
  for env now
  by unfold_locales
    (auto simp: inport_ops_def fs_data_frame fs_close_frame fs_owns fs_onSessionClose_def,
     auto simp: inport_owns_def fs_onSessionData_def Let_def)

end
