(* ===== verification/Fgw_Send.thy ===== *)
theory Fgw_Send
  imports Fgw_DataStream
begin

text \<open>
  What the sending side puts on the links: every segment of \<^verbatim>\<open>sendSessionData\<close> is the image of a DATA
  header with consecutive sequence numbers and the next piece of the buffer, the same bytes on
  every link that carries it, and at least one link carries it when the transport accepts writes.
\<close>

section \<open>Frames\<close>

text \<open>What a send may change of the manager: byte counters, the ghost wires, the probe rotation.\<close>

definition mgr_frame :: "manager \<Rightarrow> manager \<Rightarrow> bool" where
  "mgr_frame m m' \<longleftrightarrow> m_channels m' = m_channels m \<and> m_next_ref m' = m_next_ref m \<and>
     m_config m' = m_config m \<and> m_bytes_subscribers m' = m_bytes_subscribers m \<and> m_timers m' = m_timers m \<and>
     sel_mode (m_selector m') = sel_mode (m_selector m) \<and>
     sel_primary (m_selector m') = sel_primary (m_selector m) \<and>
     (\<forall>r. same_identity (m_heap m' r) (m_heap m r))"

lemma mgr_frame_refl [simp]: "mgr_frame m m"
  by (simp add: mgr_frame_def)

lemma mgr_frame_trans: "mgr_frame m m' \<Longrightarrow> mgr_frame m' m'' \<Longrightarrow> mgr_frame m m''"
  unfolding mgr_frame_def by (metis same_identity_trans)

lemma mgr_frame_chan:
  assumes "mgr_frame m m'"
  shows "ch_channel_id (m_heap m' r) = ch_channel_id (m_heap m r)" "isLive (m_heap m' r) = isLive (m_heap m r)"
    "ch_connected (m_heap m' r) = ch_connected (m_heap m r)"
    "chan_inv (m_heap m r) \<Longrightarrow> chan_inv (m_heap m' r)"
proof -
  have "same_identity (m_heap m' r) (m_heap m r)" using assms by (simp add: mgr_frame_def)
  note same_identity_fields(1,4) [OF this] same_identity_live [OF this] chan_inv_identity [OF this]
  then show "ch_channel_id (m_heap m' r) = ch_channel_id (m_heap m r)" "isLive (m_heap m' r) = isLive (m_heap m r)"
    "ch_connected (m_heap m' r) = ch_connected (m_heap m r)"
    "chan_inv (m_heap m r) \<Longrightarrow> chan_inv (m_heap m' r)" by simp_all
qed

lemma mgr_frame_inv:
  assumes "mgr_frame m m'" "mgr_inv m"
  shows "mgr_inv m'"
  using mgr_frame_chan(1,4) [OF assms(1)] assms unfolding mgr_inv_def mgr_frame_def by simp

lemma mgr_frame_live: "mgr_frame m m' \<Longrightarrow> liveChannels m' = liveChannels m"
  using mgr_frame_chan(2) [of m m'] by (simp add: liveChannels_def mgr_frame_def)

text \<open>\<open>copies m m' frame S\<close>: the frame went out on the links of \<open>S\<close>, once each.\<close>

definition copies :: "manager \<Rightarrow> manager \<Rightarrow> bytes \<Rightarrow> chan_ref set \<Rightarrow> bool" where
  "copies m m' frame S \<longleftrightarrow> mgr_frame m m' \<and>
     (\<forall>r. ch_wire (m_heap m' r) = ch_wire (m_heap m r) @ (if r \<in> S then [frame] else []))"

lemma copies_none: "copies m m frame {}"
  by (simp add: copies_def)

lemma copies_one:
  "copies m (snd (chan_sendBytes env now frame r m)) frame
     (if 0 < fst (chan_sendBytes env now frame r m) then {r} else {})"
  using sendBytes_identity [of env now frame "m_heap m r"] sendBytes_wire [of env now frame "m_heap m r"]
  by (auto simp: copies_def mgr_frame_def chan_sendBytes_snd chan_sendBytes_fst)

lemma copies_trans:
  "copies m m' frame S \<Longrightarrow> copies m' m'' frame T \<Longrightarrow> S \<inter> T = {} \<Longrightarrow> copies m m'' frame (S \<union> T)"
  unfolding copies_def by (auto intro: mgr_frame_trans)

section \<open>A transport that accepts writes\<close>

definition writes_ok :: "fgw_env \<Rightarrow> bool" where
  "writes_ok env \<longleftrightarrow> (\<forall>cid wire buf. 0 \<le> e_tcp_write env cid wire buf) \<and> (\<forall>now n. n \<le> e_mb_space env now n)"

lemma send_copies_spec:
  assumes "distinct ids" and "distinct (map (\<lambda>r. ch_channel_id (m_heap m r)) live)" and "frame \<noteq> []"
  shows "\<exists>S. copies m (snd (send_copies env now frame live i ids best m)) frame S \<and>
     S \<subseteq> {r \<in> set live. ch_channel_id (m_heap m r) \<in> set ids} \<and>
     (writes_ok env \<longrightarrow> (\<forall>r \<in> set live. chan_inv (m_heap m r) \<and> ch_connected (m_heap m r)) \<longrightarrow>
        S = {r \<in> set live. ch_channel_id (m_heap m r) \<in> set ids})"
  using assms
proof (induction env now frame live i ids best m rule: send_copies.induct)
  case (1 env now frame live i best m)
  then show ?case by (intro exI [of _ "{}"]) (simp add: copies_none)
next
  case (2 env now frame live i cid ids best m)
  show ?case
  proof (cases "find (\<lambda>r. ch_channel_id (m_heap m r) = cid) live")
    case None
    then have "{r \<in> set live. ch_channel_id (m_heap m r) \<in> set (cid # ids)} =
        {r \<in> set live. ch_channel_id (m_heap m r) \<in> set ids}"
      by (auto simp: find_None_iff)
    with 2 None show ?thesis by simp
  next
    case (Some r)
    then have r: "r \<in> set live" "ch_channel_id (m_heap m r) = cid"
      by (auto simp: find_Some_iff)
    obtain ret m1 where send: "chan_sendBytes env now frame r m = (ret, m1)" by fastforce
    let ?S1 = "if 0 < ret then {r} else {}"
    have c1: "copies m m1 frame ?S1"
      using copies_one [of m env now frame r] send by simp
    then have ids: "ch_channel_id (m_heap m1 r') = ch_channel_id (m_heap m r')" for r'
      using mgr_frame_chan(1) [of m m1] by (simp add: copies_def)
    have only: "r' = r" if "r' \<in> set live" "ch_channel_id (m_heap m r') = cid" for r'
      using that r "2.prems"(2) by (metis distinct_map inj_onD)
    from "2.IH"(2) [OF Some send [symmetric]] "2.prems" ids obtain S where
      S: "copies m1 (snd (send_copies env now frame live (Suc i) ids (if ret > 0 \<and> i = 0 then ret else best) m1)) frame S"
        "S \<subseteq> {r \<in> set live. ch_channel_id (m_heap m r) \<in> set ids}"
        "writes_ok env \<longrightarrow> (\<forall>r \<in> set live. chan_inv (m_heap m1 r) \<and> ch_connected (m_heap m1 r)) \<longrightarrow>
           S = {r \<in> set live. ch_channel_id (m_heap m r) \<in> set ids}"
      by auto
    have disj: "?S1 \<inter> S = {}"
      using S(2) r(2) "2.prems"(1) by auto
    have good: "?S1 \<union> S = {r \<in> set live. ch_channel_id (m_heap m r) \<in> set (cid # ids)}"
      if w: "writes_ok env" and l: "\<forall>r \<in> set live. chan_inv (m_heap m r) \<and> ch_connected (m_heap m r)"
    proof -
      have "0 < ret"
        using sendBytes_ok [of "m_heap m r" frame env now] w l r(1) "2.prems"(3) send chan_sendBytes_fst [of env now frame r m]
        by (auto simp: writes_ok_def)
      moreover have "\<forall>r \<in> set live. chan_inv (m_heap m1 r) \<and> ch_connected (m_heap m1 r)"
        using c1 l mgr_frame_chan(3,4) [of m m1] by (simp add: copies_def)
      moreover from this have "S = {r \<in> set live. ch_channel_id (m_heap m r) \<in> set ids}"
        using S(3) w by blast
      moreover have "{r \<in> set live. ch_channel_id (m_heap m r) = cid} = {r}"
        using r only by blast
      ultimately show ?thesis
        by (simp add: Collect_disj_eq conj_disj_distribL)
    qed
    have "copies m (snd (send_copies env now frame live i (cid # ids) best m)) frame (?S1 \<union> S)"
      using copies_trans [OF c1 S(1) disj] Some send by simp
    moreover have "?S1 \<union> S \<subseteq> {r \<in> set live. ch_channel_id (m_heap m r) \<in> set (cid # ids)}"
      using S(2) r by auto
    ultimately show ?thesis using good by blast
  qed
qed

lemma writes_ok_open_env: "writes_ok open_env"
  by (simp add: writes_ok_def open_env_def)

section \<open>One segment\<close>

lemma segment_header_size:
  "wire_hdr_size (segment_header ds wi sid seq flags n) =
     (if ds_route_outport_id ds \<noteq> 0 \<or> flags AND FLAG_HDR_ROUTE \<noteq> 0 then ROUTED_HEADER_SIZE else HEADER_SIZE)"
proof -
  have "(flags OR FLAG_HDR_ROUTE) AND FLAG_HDR_ROUTE \<noteq> 0"
    by (simp add: bit.conj_disj_distrib2 FLAG_HDR_ROUTE_def)
  then show ?thesis
    by (simp add: segment_header_def wire_hdr_size_def hdr_routed_def FgwSegmentHeader_init_def Let_def)
qed

text \<open>The flags the stream itself sends.\<close>

definition stream_flags :: "u8 set" where "stream_flags = {FLAG_SYN, FLAG_FIN, FLAG_DATA}"

lemma stream_flags_route: "flags \<in> stream_flags \<Longrightarrow> flags AND FLAG_HDR_ROUTE = 0"
  by (auto simp: stream_flags_def seg_flags)

lemma select_rotation: "sel_mode (snd (select env pool sel)) = sel_mode sel"
  "sel_primary (snd (select env pool sel)) = sel_primary sel"
  by (auto simp: select_def select_weighted_def Let_def split: ZFGW_MULTIPATH_MODE.splits)

lemma sendSegment_spec:
  assumes inv: "mgr_inv m" and sort: "sort_ok env" and flags: "flags \<in> stream_flags"
    and len: "length p \<le> MAX_PAYLOAD" and pl: "payload = Some p \<or> payload = None \<and> p = []"
    and send: "sendSegment env now ds wi sid seq flags payload m = (ret, m')"
  defines "frame \<equiv> segment_image (segment_header ds wi sid seq flags (length p)) p"
  shows "\<exists>S. copies m m' frame S \<and> S \<subseteq> set (liveChannels m) \<and>
    (writes_ok env \<longrightarrow> 0 \<le> ret \<longrightarrow> S \<noteq> {}) \<and> (writes_ok env \<longrightarrow> liveChannels m \<noteq> [] \<longrightarrow> 0 \<le> ret)"
proof -
  let ?hdr = "segment_header ds wi sid seq flags (length p)"
  let ?sz = "if ds_route_outport_id ds \<noteq> 0 then ROUTED_HEADER_SIZE else HEADER_SIZE"
  let ?space = "e_mb_space env now (?sz + length p)"
  have plen: "(case payload of None \<Rightarrow> 0 | Some p \<Rightarrow> length p) = length p"
    using pl by auto
  have sz: "wire_hdr_size ?hdr = ?sz"
    using stream_flags_route [OF flags] by (simp add: segment_header_size)
  show ?thesis
  proof (cases "?space < ?sz + length p")
    case True
    then have "ret = errcode ERR_MEMORY" "m' = m"
      using send plen by (auto simp: sendSegment_def Let_def)
    moreover have "\<not> writes_ok env" using True by (metis writes_ok_def not_le)
    ultimately show ?thesis
      by (intro exI [of _ "{}"]) (simp add: copies_none)
  next
    case False
    have enc: "encode_block ?space ?hdr payload (int (length p)) = Inr frame"
      using pl encode_block_ok [of ?hdr p ?space] encode_block_empty [of ?hdr ?space] False len sz
      by (auto simp: frame_def)
    define live where "live = liveChannels m"
    obtain ids sel where sel: "select env (map (m_heap m) live) (m_selector m) = (ids, sel)" by fastforce
    let ?m1 = "m\<lparr>m_selector := sel\<rparr>"
    have frame1: "mgr_frame m ?m1"
      using select_rotation [of env "map (m_heap m) live" "m_selector m"] sel by (simp add: mgr_frame_def)
    have ids_live: "live_ids (map (m_heap m) live) = map (\<lambda>r. ch_channel_id (m_heap m r)) live"
      and dist: "distinct (map (\<lambda>r. ch_channel_id (m_heap m r)) live)"
      using liveChannels_ids [OF inv] by (simp_all add: live_def comp_def)
    have ids: "distinct ids" "set ids \<subseteq> (\<lambda>r. ch_channel_id (m_heap m r)) ` set live" "ids = [] \<longleftrightarrow> live = []"
      using select_distinct [OF sort, of "map (m_heap m) live" "m_selector m"]
        select_subset [OF sort, of "map (m_heap m) live" "m_selector m"]
        select_empty_iff [OF sort, of "map (m_heap m) live" "m_selector m"] ids_live dist sel by simp_all
    show ?thesis
    proof (cases "ids = []")
      case True
      then have "ret = errcode ERR_NOCHANNEL" "m' = ?m1"
        using send plen False enc sel by (auto simp: sendSegment_def Let_def live_def)
      moreover have "copies m ?m1 frame {}"
        using frame1 by (simp add: copies_def)
      ultimately show ?thesis
        using ids(3) True by (intro exI [of _ "{}"]) (simp add: live_def)
    next
      case nonempty: False
      obtain best m2 where sc: "send_copies env now frame live 0 ids 0 ?m1 = (best, m2)" by fastforce
      have ret: "ret = (if best > 0 then best else int (length p))" "m' = m2"
        using send plen False enc sel nonempty sc by (auto simp: sendSegment_def Let_def live_def split: prod.splits)
      have fne: "frame \<noteq> []"
        using wire_hdr_size_ge(1) [of ?hdr] length_segment_image [of ?hdr p] unfolding frame_def
        by (metis add_is_0 list.size(3) not_numeral_le_zero)
      obtain S where S: "copies ?m1 m2 frame S" "S \<subseteq> {r \<in> set live. ch_channel_id (m_heap m r) \<in> set ids}"
        "writes_ok env \<longrightarrow> (\<forall>r \<in> set live. chan_inv (m_heap m r) \<and> ch_connected (m_heap m r)) \<longrightarrow>
           S = {r \<in> set live. ch_channel_id (m_heap m r) \<in> set ids}"
        using send_copies_spec [OF ids(1), of ?m1 live frame env now 0 0] dist fne sc by auto
      have "copies m m2 frame S"
        using S(1) frame1 by (auto simp: copies_def intro: mgr_frame_trans)
      moreover have "\<forall>r \<in> set live. chan_inv (m_heap m r) \<and> ch_connected (m_heap m r)"
        using inv by (auto simp: mgr_inv_def live_def liveChannels_def isLive_def)
      moreover have "{r \<in> set live. ch_channel_id (m_heap m r) \<in> set ids} \<noteq> {}"
        using ids(2) nonempty by (cases ids) auto
      ultimately show ?thesis
        using S(2,3) ret by (intro exI [of _ S]) (auto simp: live_def)
    qed
  qed
qed

section \<open>A buffer\<close>

function cut :: "nat \<Rightarrow> bytes \<Rightarrow> bytes list" where
  "cut n buf = (if buf = [] \<or> n = 0 then [] else take n buf # cut n (drop n buf))"
  by pat_completeness auto
termination
  by (relation "measure (\<lambda>(n, buf). length buf)") auto

declare cut.simps [simp del]

lemma concat_cut: "0 < n \<Longrightarrow> concat (cut n buf) = buf"
proof (induction n buf rule: cut.induct)
  case (1 n buf)
  then show ?case by (cases "buf = []") (simp_all add: cut.simps [of n buf] cut.simps [of n "[]"])
qed

lemma cut_pieces: "p \<in> set (cut n buf) \<Longrightarrow> p \<noteq> [] \<and> length p \<le> n"
proof (induction n buf rule: cut.induct)
  case (1 n buf)
  then show ?case by (cases "buf = [] \<or> n = 0") (auto simp: cut.simps [of n buf])
qed

text \<open>The segments \<^verbatim>\<open>sendSessionData\<close> makes of the pieces, from sequence number \<open>seq\<close> on.\<close>

fun data_segments :: "datastream \<Rightarrow> u32 \<Rightarrow> u32 \<Rightarrow> u32 \<Rightarrow> bytes list \<Rightarrow> (FgwSegmentHeader \<times> bytes) list" where
  "data_segments ds wi sid seq [] = []"
| "data_segments ds wi sid seq (p # ps) =
     (segment_header ds wi sid seq FLAG_DATA (length p), p) # data_segments ds wi sid (seq + 1) ps"

lemma length_data_segments [simp]: "length (data_segments ds wi sid seq ps) = length ps"
  by (induction ps arbitrary: seq) simp_all

lemma data_segments_append:
  "data_segments ds wi sid seq (ps @ qs) =
   data_segments ds wi sid seq ps @ data_segments ds wi sid (seq + of_nat (length ps)) qs"
  by (induction ps arbitrary: seq) (simp_all add: add.assoc)

lemma data_segments_nth:
  "i < length ps \<Longrightarrow> data_segments ds wi sid seq ps ! i =
     (segment_header ds wi sid (seq + of_nat i) FLAG_DATA (length (ps ! i)), ps ! i)"
  by (induction ps arbitrary: seq i) (auto simp: nth_Cons' algebra_simps of_nat_diff)

text \<open>\<open>carried m m' segs T\<close>: link \<open>r\<close> got the images of the segments \<open>i\<close> with \<open>r \<in> T i\<close>, in order.\<close>

definition carried :: "manager \<Rightarrow> manager \<Rightarrow> (FgwSegmentHeader \<times> bytes) list \<Rightarrow> (nat \<Rightarrow> chan_ref set) \<Rightarrow> bool" where
  "carried m m' segs T \<longleftrightarrow> mgr_frame m m' \<and> (\<forall>r. ch_wire (m_heap m' r) =
     ch_wire (m_heap m r) @ map (\<lambda>(h, p). segment_image h p) (nths segs {i. r \<in> T i}))"

lemma carried_Nil: "carried m m [] T"
  by (simp add: carried_def)

lemma carried_append:
  assumes "carried m m' xs T" and "carried m' m'' ys U"
  shows "carried m m'' (xs @ ys) (\<lambda>i. if i < length xs then T i else U (i - length xs))"
proof -
  have "nths (xs @ ys) {i. r \<in> (if i < length xs then T i else U (i - length xs))} =
      nths xs {i. r \<in> T i} @ nths ys {i. r \<in> U i}" for r
  proof -
    have "nths xs {i. r \<in> (if i < length xs then T i else U (i - length xs))} = nths xs {i. r \<in> T i}"
      unfolding nths_def by (rule arg_cong [where f = "map fst"], rule filter_cong) (auto simp: set_zip)
    then show ?thesis
      by (simp add: nths_append add.commute)
  qed
  then show ?thesis
    using assms by (auto simp: carried_def intro: mgr_frame_trans)
qed

lemma carried_one: "copies m m' (segment_image h p) S \<Longrightarrow> carried m m' [(h, p)] (\<lambda>_. S)"
  by (auto simp: copies_def carried_def nths_singleton)

lemma carried_Cons:
  assumes "copies m m1 (segment_image h p) S" and "carried m1 m' ys T"
  shows "carried m m' ((h, p) # ys) (\<lambda>i. if i = 0 then S else T (i - 1))"
proof -
  have "(\<lambda>i. if i < length [(h, p)] then S else T (i - length [(h, p)])) = (\<lambda>i. if i = 0 then S else T (i - 1))"
    by (rule ext) simp
  with carried_append [OF carried_one [OF assms(1)] assms(2)] show ?thesis by simp
qed

lemma send_loop_spec:
  assumes "mgr_inv m" and "sort_ok env" and "0 < ds_segment_size ds" "unat (ds_segment_size ds) \<le> MAX_PAYLOAD"
    and "send_loop env now ds wi sid rest written seq m = (ret, seq', m')" "0 \<le> ret"
  shows "\<exists>T. carried m m' (data_segments ds wi sid seq (cut (unat (ds_segment_size ds)) rest)) T \<and>
    seq' = seq + of_nat (length (cut (unat (ds_segment_size ds)) rest)) \<and> ret = int (written + length rest) \<and>
    (\<forall>i. T i \<subseteq> set (liveChannels m)) \<and>
    (writes_ok env \<longrightarrow> (\<forall>i < length (cut (unat (ds_segment_size ds)) rest). T i \<noteq> {}))"
  using assms
proof (induction env now ds wi sid rest written seq m rule: send_loop.induct)
  case (1 env now ds wi sid rest written seq m)
  let ?n = "unat (ds_segment_size ds)"
  have n: "0 < ?n" using "1.prems"(3) by (simp add: unat_gt_0)
  show ?case
  proof (cases "rest = []")
    case True
    with "1.prems" show ?thesis
      by (intro exI [of _ "\<lambda>_. {}"]) (simp add: send_loop.simps cut.simps carried_Nil)
  next
    case False
    let ?c = "min (length rest) ?n"
    have c: "take ?c rest = take ?n rest" "drop ?c rest = drop ?n rest"
      by (simp_all add: min_def)
    obtain r1 m1 where s: "sendSegment env now ds wi sid seq FLAG_DATA (Some (take ?c rest)) m = (r1, m1)" by fastforce
    have cond: "\<not> (rest = [] \<or> ds_segment_size ds = 0)" using False "1.prems"(3) by auto
    have r1: "\<not> r1 < 0" and rec: "send_loop env now ds wi sid (drop ?c rest) (written + ?c) (seq + 1) m1 = (ret, seq', m')"
      using "1.prems"(5,6) s cond by (auto simp: send_loop.simps [of env now ds wi sid rest] Let_def split: if_splits)
    have len: "length (take ?c rest) \<le> MAX_PAYLOAD" using "1.prems"(4) by simp
    from sendSegment_spec [OF "1.prems"(1,2) _ len _ s] r1 obtain S where
      S: "copies m m1 (segment_image (segment_header ds wi sid seq FLAG_DATA (length (take ?c rest))) (take ?c rest)) S"
        "S \<subseteq> set (liveChannels m)" "writes_ok env \<longrightarrow> S \<noteq> {}"
      by (auto simp: stream_flags_def)
    have fr: "mgr_frame m m1" using S(1) by (simp add: copies_def)
    from "1.IH" [OF cond refl s [symmetric] r1 mgr_frame_inv [OF fr "1.prems"(1)] "1.prems"(2-4) rec "1.prems"(6)]
    obtain T where T: "carried m1 m' (data_segments ds wi sid (seq + 1) (cut ?n (drop ?c rest))) T"
      "seq' = seq + 1 + of_nat (length (cut ?n (drop ?c rest)))" "ret = int (written + ?c + length (drop ?c rest))"
      "\<forall>i. T i \<subseteq> set (liveChannels m1)"
      "writes_ok env \<longrightarrow> (\<forall>i < length (cut ?n (drop ?c rest)). T i \<noteq> {})"
      by blast
    have cut: "cut ?n rest = take ?c rest # cut ?n (drop ?c rest)"
      using False n c by (simp add: cut.simps [of ?n rest])
    let ?U = "\<lambda>i. if i = 0 then S else T (i - 1)"
    have "carried m m' (data_segments ds wi sid seq (cut ?n rest)) ?U"
      unfolding cut data_segments.simps by (rule carried_Cons [OF S(1) T(1)])
    moreover have "\<forall>i. ?U i \<subseteq> set (liveChannels m)"
      using S(2) T(4) mgr_frame_live [OF fr] by simp
    moreover have "writes_ok env \<longrightarrow> (\<forall>i < length (cut ?n rest). ?U i \<noteq> {})"
      using S(3) T(5) by (auto simp: cut)
    ultimately show ?thesis
      using T(2,3) by (intro exI [of _ ?U]) (simp add: cut)
  qed
qed

end
