(* ===== verification/Fgw_EndToEnd.thy ===== *)
theory Fgw_EndToEnd
  imports Fgw_Inport Fgw_Send
begin

text \<open>
  From one gateway to the other: what an application hands to \<^verbatim>\<open>sendSessionData\<close> on one side is what
  the session's handler on the other side gets, when the bytes of every link arrive in the order
  they were written, cut into chunks anywhere and interleaved between links anyhow.
\<close>

section \<open>The sender\<close>

lemma send_loop_succeeds:
  assumes "mgr_inv m" and "sort_ok env" and "0 < ds_segment_size ds" "unat (ds_segment_size ds) \<le> MAX_PAYLOAD"
    and "writes_ok env" and "liveChannels m \<noteq> []"
  shows "0 \<le> fst (send_loop env now ds wi sid rest written seq m)"
  using assms
proof (induction env now ds wi sid rest written seq m rule: send_loop.induct)
  case (1 env now ds wi sid rest written seq m)
  show ?case
  proof (cases "rest = [] \<or> ds_segment_size ds = 0")
    case True
    then show ?thesis by (simp add: send_loop.simps)
  next
    case False
    let ?c = "min (length rest) (unat (ds_segment_size ds))"
    obtain r1 m1 where s: "sendSegment env now ds wi sid seq FLAG_DATA (Some (take ?c rest)) m = (r1, m1)" by fastforce
    have len: "length (take ?c rest) \<le> MAX_PAYLOAD" using "1.prems"(4) by simp
    from sendSegment_spec [OF "1.prems"(1,2) _ len _ s] "1.prems"(5,6) obtain S where
      S: "copies m m1 (segment_image (segment_header ds wi sid seq FLAG_DATA (length (take ?c rest))) (take ?c rest)) S"
      "0 \<le> r1" by (auto simp: stream_flags_def)
    have fr: "mgr_frame m m1" using S(1) by (simp add: copies_def)
    have r1: "\<not> r1 < 0" using S(2) by simp
    have live: "liveChannels m1 \<noteq> []" using mgr_frame_live [OF fr] "1.prems"(6) by simp
    from "1.IH" [OF False refl s [symmetric] r1 mgr_frame_inv [OF fr "1.prems"(1)] "1.prems"(2-5) live]
    show ?thesis
      using False s r1 by (simp add: send_loop.simps [of env now ds wi sid rest] Let_def)
  qed
qed

lemma segment_header_cong:
  "ds_route_outport_id d = ds_route_outport_id e \<Longrightarrow> segment_header d = segment_header e"
  by (intro ext) (simp add: segment_header_def Let_def)

lemma data_segments_cong:
  assumes "ds_route_outport_id d = ds_route_outport_id e"
  shows "data_segments d wi sid seq ps = data_segments e wi sid seq ps"
  by (induction ps arbitrary: seq) (simp_all add: segment_header_cong [OF assms])

text \<open>A sender: a session to send on, over links that take writes.\<close>

definition sender_ok :: "fgw_env \<Rightarrow> u32 \<Rightarrow> u32 \<Rightarrow> 'a world \<Rightarrow> bool" where
  "sender_ok env sid key w \<longleftrightarrow> mgr_inv (w_mgr w) \<and> sort_ok env \<and> writes_ok env \<and> liveChannels (w_mgr w) \<noteq> [] \<and>
     0 < ds_segment_size (w_ds w) \<and> unat (ds_segment_size (w_ds w)) \<le> MAX_PAYLOAD \<and>
     (\<exists>st. find_session (resolveIngressKey (w_ds w) key, sid) w = Some st \<and> \<not> st_closed st)"

lemma sendSessionData_spec:
  assumes ok: "sender_ok env sid key w"
    and st: "find_session (resolveIngressKey (w_ds w) key, sid) w = Some st"
    and pieces_def: "pieces = cut (unat (ds_segment_size (w_ds w))) buf"
  shows "\<exists>T w'. sendSessionData env now sid buf key w = (int (length buf), w') \<and>
    carried (w_mgr w) (w_mgr w') (data_segments (w_ds w) (st_wire_ingress_id st) sid (st_next_send_seq st) pieces) T \<and>
    (\<forall>i. T i \<subseteq> set (liveChannels (w_mgr w))) \<and> (\<forall>i < length pieces. T i \<noteq> {}) \<and>
    find_session (resolveIngressKey (w_ds w) key, sid) w' =
      Some (st\<lparr>st_next_send_seq := st_next_send_seq st + of_nat (length pieces)\<rparr>) \<and>
    ds_rest (w_ds w') = ds_rest (w_ds w) \<and> sender_ok env sid key w'"
proof -
  have facts: "mgr_inv (w_mgr w)" "sort_ok env" "writes_ok env" "liveChannels (w_mgr w) \<noteq> []"
    "0 < ds_segment_size (w_ds w)" "unat (ds_segment_size (w_ds w)) \<le> MAX_PAYLOAD" "\<not> st_closed st"
    using ok st by (auto simp: sender_ok_def)
  obtain ret seq m where loop: "send_loop env now (w_ds w) (st_wire_ingress_id st) sid buf 0 (st_next_send_seq st) (w_mgr w)
      = (ret, seq, m)" by (metis prod_cases3)
  have ret: "0 \<le> ret"
    using send_loop_succeeds [OF facts(1,2,5,6,3,4)] loop by (metis fst_conv)
  from send_loop_spec [OF facts(1,2,5,6) loop ret] facts(3) obtain T where
    T: "carried (w_mgr w) m (data_segments (w_ds w) (st_wire_ingress_id st) sid (st_next_send_seq st) pieces) T"
      "seq = st_next_send_seq st + of_nat (length pieces)" "ret = int (length buf)"
      "\<forall>i. T i \<subseteq> set (liveChannels (w_mgr w))" "\<forall>i < length pieces. T i \<noteq> {}"
    unfolding pieces_def by auto
  let ?k = "(resolveIngressKey (w_ds w) key, sid)"
  let ?w = "upd_mgr (\<lambda>_. m) (put_session ?k (st\<lparr>st_next_send_seq := seq\<rparr>) w)"
  have send: "sendSessionData env now sid buf key w = (int (length buf), ?w)"
    using st facts(7) loop T(3) by (simp add: sendSessionData_def Let_def)
  have rest: "ds_rest (w_ds ?w) = ds_rest (w_ds w)" by simp
  have fr: "mgr_frame (w_mgr w) m" using T(1) by (simp add: carried_def)
  have fields: "ds_segment_size (w_ds ?w) = ds_segment_size (w_ds w)" "resolveIngressKey (w_ds ?w) key = resolveIngressKey (w_ds w) key"
    by (simp_all add: resolveIngressKey_def put_session_def upd_ds_def)
  have "sender_ok env sid key ?w"
    unfolding sender_ok_def fields using facts mgr_frame_inv [OF fr] mgr_frame_live [OF fr] by simp
  then show ?thesis
    using send T rest by (intro exI [of _ T] exI [of _ ?w]) simp
qed

text \<open>A sequence of sends on one session.\<close>

definition send_all :: "fgw_env \<Rightarrow> u32 \<Rightarrow> u32 \<Rightarrow> u32 \<Rightarrow> bytes list \<Rightarrow> 'a world \<Rightarrow> 'a world" where
  "send_all env now sid key bufs w = foldl (\<lambda>w buf. snd (sendSessionData env now sid buf key w)) w bufs"

lemma send_all_spec:
  assumes "sender_ok env sid key w" and "find_session (resolveIngressKey (w_ds w) key, sid) w = Some st"
  shows "\<exists>T. carried (w_mgr w) (w_mgr (send_all env now sid key bufs w))
      (data_segments (w_ds w) (st_wire_ingress_id st) sid (st_next_send_seq st)
         (concat (map (cut (unat (ds_segment_size (w_ds w)))) bufs))) T \<and>
    (\<forall>i. T i \<subseteq> set (liveChannels (w_mgr w))) \<and>
    (\<forall>i < length (concat (map (cut (unat (ds_segment_size (w_ds w)))) bufs)). T i \<noteq> {})"
  using assms
proof (induction bufs arbitrary: w st)
  case Nil
  then show ?case
    by (intro exI [of _ "\<lambda>_. {}"]) (simp add: send_all_def carried_Nil)
next
  case (Cons buf bufs)
  let ?n = "unat (ds_segment_size (w_ds w))"
  from sendSessionData_spec [OF Cons.prems refl, where buf = buf and now = now] obtain T w1 where
    s: "sendSessionData env now sid buf key w = (int (length buf), w1)"
    and T: "carried (w_mgr w) (w_mgr w1) (data_segments (w_ds w) (st_wire_ingress_id st) sid (st_next_send_seq st) (cut ?n buf)) T"
      "\<forall>i. T i \<subseteq> set (liveChannels (w_mgr w))" "\<forall>i < length (cut ?n buf). T i \<noteq> {}"
    and w1: "find_session (resolveIngressKey (w_ds w) key, sid) w1 =
        Some (st\<lparr>st_next_send_seq := st_next_send_seq st + of_nat (length (cut ?n buf))\<rparr>)"
      "ds_rest (w_ds w1) = ds_rest (w_ds w)" "sender_ok env sid key w1"
    by blast
  note fields = ds_rest_fields [OF w1(2)]
  have res: "resolveIngressKey (w_ds w1) key = resolveIngressKey (w_ds w) key"
    using fields(1) by (simp add: resolveIngressKey_def)
  from Cons.IH [OF w1(3) w1(1) [folded res]] fields obtain U where
    U: "carried (w_mgr w1) (w_mgr (send_all env now sid key bufs w1))
        (data_segments (w_ds w) (st_wire_ingress_id st) sid (st_next_send_seq st + of_nat (length (cut ?n buf)))
           (concat (map (cut ?n) bufs))) U"
      "\<forall>i. U i \<subseteq> set (liveChannels (w_mgr w1))" "\<forall>i < length (concat (map (cut ?n) bufs)). U i \<noteq> {}"
    by (auto simp: data_segments_cong [OF fields(7)])
  have live: "liveChannels (w_mgr w1) = liveChannels (w_mgr w)"
    using T(1) mgr_frame_live by (auto simp: carried_def)
  have all: "send_all env now sid key (buf # bufs) w = send_all env now sid key bufs w1"
    by (simp add: send_all_def s)
  let ?V = "\<lambda>i. if i < length (cut ?n buf) then T i else U (i - length (cut ?n buf))"
  have "carried (w_mgr w) (w_mgr (send_all env now sid key (buf # bufs) w))
      (data_segments (w_ds w) (st_wire_ingress_id st) sid (st_next_send_seq st) (concat (map (cut ?n) (buf # bufs)))) ?V"
    unfolding all using carried_append [OF T(1) U(1)] unfolding length_data_segments
    by (simp add: data_segments_append)
  moreover have "\<forall>i. ?V i \<subseteq> set (liveChannels (w_mgr w))"
    using T(2) U(2) live by simp
  moreover have "\<forall>i < length (concat (map (cut ?n) (buf # bufs))). ?V i \<noteq> {}"
    using T(3) U(3) by auto
  ultimately show ?case by blast
qed

section \<open>The stream of segments\<close>

lemma data_header_flags:
  "isData (segment_header ds wi sid seq FLAG_DATA n)" "\<not> isSyn (segment_header ds wi sid seq FLAG_DATA n)"
  "\<not> isFin (segment_header ds wi sid seq FLAG_DATA n)" "\<not> link_control (segment_header ds wi sid seq FLAG_DATA n)"
  "hdr_ingress_id (segment_header ds wi sid seq FLAG_DATA n) = wi"
  "hdr_session_id (segment_header ds wi sid seq FLAG_DATA n) = sid"
  "hdr_seq_num (segment_header ds wi sid seq FLAG_DATA n) = seq"
  by (simp_all add: segment_header_def FgwSegmentHeader_init_def link_control_def flag_tests seg_flags Let_def)

text \<open>The stream of which the pieces \<open>ps\<close> are the segments from number \<open>n\<close> on; \<open>out\<close> is what came before.\<close>

definition stream_from :: "bytes \<Rightarrow> nat \<Rightarrow> bytes list \<Rightarrow> nat \<Rightarrow> bytes" where
  "stream_from out n ps i = (if i < n then (if i = 0 then out else []) else ps ! (i - n))"

lemma stream_from_0 [simp]: "stream_from out 0 ps = (!) ps"
  by (rule ext) (simp add: stream_from_def)

lemma stream_before: "(n = 0 \<longrightarrow> out = []) \<Longrightarrow> concat (map (stream_from out n ps) [0..<n]) = out"
proof -
  have tail: "concat (map (stream_from out n ps) [1..<m]) = []" if "m \<le> n" for m
    using that by (auto simp: stream_from_def)
  assume "n = 0 \<longrightarrow> out = []"
  then show ?thesis using tail [of n] by (cases n) (simp_all add: upt_conv_Cons stream_from_def del: upt_Suc)
qed

lemma stream_after: "m \<le> length ps \<Longrightarrow> map (stream_from out n ps) [n..<n + m] = take m ps"
  by (auto simp: list_eq_iff_nth_eq stream_from_def)

lemma stream_upto:
  assumes "n = 0 \<longrightarrow> out = []" and "m \<le> length ps"
  shows "concat (map (stream_from out n ps) [0..<n + m]) = out @ concat (take m ps)"
  using stream_before [OF assms(1), of ps] stream_after [OF assms(2), of out n]
  by (simp add: upt_add_eq_append [of 0 n m])

lemma data_segments_carry:
  assumes "seg \<in> set (data_segments ds wi sid s ps)" and "\<forall>p \<in> set ps. p \<noteq> [] \<and> length p \<le> MAX_PAYLOAD"
    and "unat s + length ps \<le> 2 ^ 32"
  shows "carries (wi, sid) (stream_from out (unat s) ps) (unat s + length ps) seg"
proof -
  from assms(1) obtain i where i: "i < length ps" "seg = data_segments ds wi sid s ps ! i"
    by (metis in_set_conv_nth length_data_segments)
  then have "unat (s + of_nat i) = unat s + i"
    using assms(3) by (simp add: unat_word_ariths unat_of_nat)
  with i assms(2) show ?thesis
    by (auto simp: carries_def brings_def data_segments_nth data_header_flags sendable_def stream_from_def)
qed

lemma data_segments_bring:
  assumes "i < length ps" and "\<forall>p \<in> set ps. p \<noteq> []"
  shows "brings (wi, sid) (s + of_nat i) (data_segments ds wi sid s ps ! i)"
  using assms by (auto simp: brings_def data_segments_nth data_header_flags)

lemma nths_member: "i < length xs \<Longrightarrow> i \<in> A \<Longrightarrow> xs ! i \<in> set (nths xs A)"
  by (auto simp: set_nths)

text \<open>A receiver's session that waits for number \<open>s\<close>, with nothing pending.\<close>

definition awaiting :: "u32 \<Rightarrow> session_key \<Rightarrow> handler_ref \<Rightarrow> 'a world \<Rightarrow> bool" where
  "awaiting s k h w \<longleftrightarrow>
     (\<exists>st. find_session k w = Some st \<and> st_handler st = Some h \<and> st_expected_rx_seq st = s \<and> st_rx_buffer st = []) \<and>
     (s = 0 \<longrightarrow> delivered h (w_trace w) = []) \<and>
     (\<forall>x. smap_count (ds_dedup_map (w_ds w)) (DedupKey (fst k) (snd k) x 0) \<longrightarrow> unat x < unat s) \<and>
     0 < ds_recv_window (w_ds w)"

text \<open>\<open>links r\<close> is the sender's channel at the other end of the receiver's channel \<open>r\<close>; \<open>evs\<close> are
  the chunks of bytes that arrive, whose concatenation on each link is what the sender wrote there.\<close>

definition written_on :: "(chan_ref \<Rightarrow> chan_ref option) \<Rightarrow> manager \<Rightarrow> manager \<Rightarrow> chan_ref \<Rightarrow> bytes" where
  "written_on links m m' r = (case links r of None \<Rightarrow> []
     | Some s \<Rightarrow> concat (drop (length (ch_wire (m_heap m s))) (ch_wire (m_heap m' s))))"

definition sent_on :: "(chan_ref \<Rightarrow> chan_ref option) \<Rightarrow> manager \<Rightarrow> manager \<Rightarrow> (chan_ref \<times> bytes) list \<Rightarrow> bool" where
  "sent_on links m m' evs \<longleftrightarrow> (\<forall>r. concat (on_link r evs) = written_on links m m' r)"

text \<open>At a moment in between only a beginning of it has arrived; the rest of a link is on its way, or lost when the
  link breaks.\<close>

definition sent_so_far :: "(chan_ref \<Rightarrow> chan_ref option) \<Rightarrow> manager \<Rightarrow> manager \<Rightarrow> (chan_ref \<times> bytes) list \<Rightarrow> bool" where
  "sent_so_far links m m' evs \<longleftrightarrow> (\<forall>r. \<exists>rest. concat (on_link r evs) @ rest = written_on links m m' r)"

lemma sent_on_so_far: "sent_on links m m' evs \<Longrightarrow> sent_so_far links m m' evs"
  by (simp add: sent_on_def sent_so_far_def)

definition pieces_of :: "'a world \<Rightarrow> bytes list \<Rightarrow> bytes list" where
  "pieces_of w bufs = concat (map (cut (unat (ds_segment_size (w_ds w)))) bufs)"

lemma pieces_of_whole: "0 < ds_segment_size (w_ds w) \<Longrightarrow> concat (pieces_of w bufs) = concat bufs"
proof (induction bufs)
  case (Cons b bufs)
  then have "0 < unat (ds_segment_size (w_ds w))" by (simp add: unat_gt_0)
  with Cons show ?case by (simp add: pieces_of_def concat_cut)
qed (simp add: pieces_of_def)

lemma pieces_of_small:
  "p \<in> set (pieces_of w bufs) \<Longrightarrow> unat (ds_segment_size (w_ds w)) \<le> MAX_PAYLOAD \<Longrightarrow> p \<noteq> [] \<and> length p \<le> MAX_PAYLOAD"
  using cut_pieces by (fastforce simp: pieces_of_def)

text \<open>The segments on the wires, link by link: a link has some of the segments sent, and every segment is on
  some link.\<close>

lemma carried_on_links:
  assumes T: "carried m m' segs T" "\<forall>i. T i \<subseteq> set live" "\<forall>i < length segs. T i \<noteq> {}"
  shows "\<exists>on. (\<forall>r. written_on links m m' r = wire_image (on r)) \<and> (\<forall>r. set (on r) \<subseteq> set segs) \<and>
    ((\<forall>s \<in> set live. \<exists>r. links r = Some s) \<longrightarrow> (\<forall>seg \<in> set segs. \<exists>r. seg \<in> set (on r)))"
proof -
  define on where "on r = (case links r of None \<Rightarrow> [] | Some s \<Rightarrow> nths segs {i. s \<in> T i})" for r
  have "\<forall>r. written_on links m m' r = wire_image (on r)"
    using T(1) by (auto simp: on_def written_on_def carried_def wire_image_def split: option.split)
  moreover have "\<forall>r. set (on r) \<subseteq> set segs"
    by (auto simp: on_def dest: in_set_nthsD split: option.splits)
  moreover have "\<exists>r. seg \<in> set (on r)" if ends: "\<forall>s \<in> set live. \<exists>r. links r = Some s" and seg: "seg \<in> set segs" for seg
  proof -
    obtain i where i: "i < length segs" "segs ! i = seg" using seg by (auto simp: in_set_conv_nth)
    then obtain s where s: "s \<in> T i" using T(3) by auto
    then obtain r where "links r = Some s" using ends T(2) by blast
    then have "seg \<in> set (on r)" using i s nths_member [OF i(1), of "{i. s \<in> T i}"] by (simp add: on_def)
    then show ?thesis by blast
  qed
  ultimately show ?thesis by blast
qed

lemma sent_segments:
  assumes snd: "sender_ok env sid key ws" "find_session (resolveIngressKey (w_ds ws) key, sid) ws = Some st"
    and N: "unat (st_next_send_seq st) + length (pieces_of ws bufs) \<le> 2 ^ 32"
  shows "\<exists>segs. (\<forall>r. written_on links (w_mgr ws) (w_mgr (send_all env now sid key bufs ws)) r = wire_image (segs r)) \<and>
    (\<forall>r. \<forall>seg \<in> set (segs r). carries (st_wire_ingress_id st, sid)
       (stream_from out (unat (st_next_send_seq st)) (pieces_of ws bufs))
       (unat (st_next_send_seq st) + length (pieces_of ws bufs)) seg) \<and>
    ((\<forall>s \<in> set (liveChannels (w_mgr ws)). \<exists>r. links r = Some s) \<longrightarrow>
       (\<forall>i < length (pieces_of ws bufs). \<exists>r. \<exists>seg \<in> set (segs r).
          brings (st_wire_ingress_id st, sid) (st_next_send_seq st + of_nat i) seg))"
proof -
  define ps where "ps = pieces_of ws bufs"
  let ?segs = "data_segments (w_ds ws) (st_wire_ingress_id st) sid (st_next_send_seq st) ps"
  from send_all_spec [OF snd(1,2), of now bufs] obtain T where
    T: "carried (w_mgr ws) (w_mgr (send_all env now sid key bufs ws)) ?segs T"
      "\<forall>i. T i \<subseteq> set (liveChannels (w_mgr ws))" "\<forall>i < length ?segs. T i \<noteq> {}"
    unfolding ps_def pieces_of_def by auto
  have ps: "\<forall>p \<in> set ps. p \<noteq> [] \<and> length p \<le> MAX_PAYLOAD"
    using pieces_of_small snd(1) by (auto simp: ps_def sender_ok_def)
  have bring: "\<exists>seg \<in> set ?segs. brings (st_wire_ingress_id st, sid) (st_next_send_seq st + of_nat i) seg" if "i < length ps" for i
    using data_segments_bring [OF that] ps that by (metis length_data_segments nth_mem)
  from carried_on_links [OF T, of links] obtain segs where
    segs: "\<forall>r. written_on links (w_mgr ws) (w_mgr (send_all env now sid key bufs ws)) r = wire_image (segs r)"
      "\<forall>r. set (segs r) \<subseteq> set ?segs"
      "(\<forall>s \<in> set (liveChannels (w_mgr ws)). \<exists>r. links r = Some s) \<longrightarrow> (\<forall>seg \<in> set ?segs. \<exists>r. seg \<in> set (segs r))"
    by blast
  have "carries (st_wire_ingress_id st, sid) (stream_from out (unat (st_next_send_seq st)) ps)
      (unat (st_next_send_seq st) + length ps) seg" if "seg \<in> set (segs r)" for r seg
    using data_segments_carry [OF _ ps] N segs(2) that unfolding ps_def [symmetric] by blast
  then show ?thesis using segs(1,3) bring unfolding ps_def [symmetric] by blast
qed

context steady_handler
begin

lemma awaiting_inv:
  assumes "wired w" and "P w" and "awaiting s k h w" and "N + unat (ds_recv_window (w_ds w)) \<le> 2 ^ 32"
    and "\<And>d. good d" and "unat s \<le> N" and "concat (map f [0..<unat s]) = delivered h (w_trace w)"
  shows "recv_inv k h f N (unat s) w" and "covered k (unat s) w"
  using assms by (auto simp: recv_inv_def awaiting_def covered_def got_def)

lemma all_awaiting:
  assumes "recv_inv k h f N N w" and "covered k N w"
  shows "awaiting (of_nat N) k h w"
proof -
  have inv: "delivered h (w_trace w) = concat (map f [0..<N])" "N + unat (ds_recv_window (w_ds w)) \<le> 2 ^ 32"
    "0 < ds_recv_window (w_ds w)" using assms(1) by (simp_all add: recv_inv_def)
  obtain st where st: "find_session k w = Some st" "st_handler st = Some h" "unat (st_expected_rx_seq st) = N"
    "\<forall>(s, p) \<in> set (st_rx_buffer st). N < unat s \<and> unat s < N \<and> p = f (unat s)"
    using assms(1) by (auto simp: recv_inv_def)
  have "0 < unat (ds_recv_window (w_ds w))" using inv(3) by (simp add: unat_gt_0)
  then have N: "unat (of_nat N :: u32) = N" using inv(2) by (simp add: unat_of_nat)
  have empty: "st_rx_buffer st = []" using st(4) by (cases "st_rx_buffer st") auto
  have "st_expected_rx_seq st = of_nat N" by (simp flip: st(3))
  moreover have "(of_nat N :: u32) = 0 \<longrightarrow> delivered h (w_trace w) = []" using inv(1) N by auto
  moreover have "unat x < N" if "smap_count (ds_dedup_map (w_ds w)) (DedupKey (fst k) (snd k) x 0)" for x
    using assms(2) that st(1) empty by (auto simp: covered_def got_def buffered_def)
  ultimately show ?thesis using st empty inv(3) N by (simp add: awaiting_def)
qed

text \<open>What the handler gets is a prefix of what was sent, and its session stays, at any moment of the arrival.\<close>

lemma end_to_end_so_far:
  assumes snd: "sender_ok env sid key ws" "find_session (resolveIngressKey (w_ds ws) key, sid) ws = Some st"
    and bytes: "sent_so_far links (w_mgr ws) (w_mgr (send_all env now sid key bufs ws)) evs"
    and rcv: "wired (host_world hst)" "P (host_world hst)"
      "awaiting (st_next_send_seq st) (st_wire_ingress_id st, sid) h (host_world hst)" "\<forall>r. scratch_of r hst = []"
    and N: "unat (st_next_send_seq st) + length (pieces_of ws bufs) + unat (ds_recv_window (w_ds (host_world hst))) \<le> 2 ^ 32"
    and good: "\<And>d. good d"
  shows "\<exists>n. delivered h (w_trace (host_world (foldl (arrive env' now' H) hst evs))) =
      delivered h (w_trace (host_world hst)) @ concat (take n (pieces_of ws bufs))"
    and "\<exists>st'. find_session (st_wire_ingress_id st, sid) (host_world (foldl (arrive env' now' H) hst evs)) = Some st' \<and>
      st_handler st' = Some h"
proof -
  let ?ps = "pieces_of ws bufs" and ?k = "(st_wire_ingress_id st, sid)" and ?s = "st_next_send_seq st"
  let ?out = "delivered h (w_trace (host_world hst))" and ?N = "unat (st_next_send_seq st) + length (pieces_of ws bufs)"
  let ?f = "stream_from ?out (unat ?s) ?ps"
  have start: "unat ?s = 0 \<longrightarrow> ?out = []" using rcv(3) by (auto simp: awaiting_def unat_eq_0)
  have "?N \<le> 2 ^ 32" using N by simp
  from sent_segments [OF snd this, of links now ?out] obtain segs where
    segs: "\<forall>r. written_on links (w_mgr ws) (w_mgr (send_all env now sid key bufs ws)) r = wire_image (segs r)"
      "\<forall>r. \<forall>seg \<in> set (segs r). carries ?k ?f ?N seg" by blast
  obtain rest where "\<forall>r. concat (on_link r evs) @ rest r = wire_image (segs r)"
    using bytes segs(1) unfolding sent_so_far_def by metis
  note arr = arrivals_so_far [OF awaiting_inv(1) [OF rcv(1-3) N good _ stream_before [OF start, of ?ps], simplified] segs(2)
    this rcv(4), of env' now']
  from arr(1) obtain m where m: "unat ?s \<le> m" "m \<le> ?N"
    "delivered h (w_trace (host_world (foldl (arrive env' now' H) hst evs))) = concat (map ?f [0..<m])"
    by blast
  then have "delivered h (w_trace (host_world (foldl (arrive env' now' H) hst evs))) = ?out @ concat (take (m - unat ?s) ?ps)"
    using stream_upto [OF start, of "m - unat ?s" ?ps] by simp
  then show "\<exists>n. delivered h (w_trace (host_world (foldl (arrive env' now' H) hst evs))) = ?out @ concat (take n ?ps)" by blast
  show "\<exists>st'. find_session ?k (host_world (foldl (arrive env' now' H) hst evs)) = Some st' \<and> st_handler st' = Some h"
    by (rule arr(2))
qed

text \<open>When everything the sender wrote on the links has arrived, it is everything if the
  pieces fit into the receive window and every live link of the sender reaches the receiver, and then the
  receiver waits for the number that the sender has reached, with nothing left over.\<close>

lemma end_to_end:
  assumes snd: "sender_ok env sid key ws" "find_session (resolveIngressKey (w_ds ws) key, sid) ws = Some st"
    and bytes: "sent_on links (w_mgr ws) (w_mgr (send_all env now sid key bufs ws)) evs"
    and rcv: "wired (host_world hst)" "P (host_world hst)"
      "awaiting (st_next_send_seq st) (st_wire_ingress_id st, sid) h (host_world hst)" "\<forall>r. scratch_of r hst = []"
    and N: "unat (st_next_send_seq st) + length (pieces_of ws bufs) + unat (ds_recv_window (w_ds (host_world hst))) \<le> 2 ^ 32"
    and good: "\<And>d. good d"
  shows "\<forall>m. m \<le> e_mb_space env' now' m \<Longrightarrow> length (pieces_of ws bufs) \<le> unat (ds_recv_window (w_ds (host_world hst))) \<Longrightarrow>
      \<forall>s \<in> set (liveChannels (w_mgr ws)). \<exists>r. links r = Some s \<Longrightarrow>
      delivered h (w_trace (host_world (foldl (arrive env' now' H) hst evs))) = delivered h (w_trace (host_world hst)) @ concat bufs \<and>
      awaiting (st_next_send_seq st + of_nat (length (pieces_of ws bufs))) (st_wire_ingress_id st, sid) h
        (host_world (foldl (arrive env' now' H) hst evs))"
    and "\<forall>r. scratch_of r (foldl (arrive env' now' H) hst evs) = []"
proof -
  let ?ps = "pieces_of ws bufs" and ?k = "(st_wire_ingress_id st, sid)" and ?s = "st_next_send_seq st"
  let ?out = "delivered h (w_trace (host_world hst))" and ?N = "unat (st_next_send_seq st) + length (pieces_of ws bufs)"
  let ?f = "stream_from ?out (unat ?s) ?ps"
  have start: "unat ?s = 0 \<longrightarrow> ?out = []" using rcv(3) by (auto simp: awaiting_def unat_eq_0)
  have "?N \<le> 2 ^ 32" using N by simp
  note sent = sent_segments [OF snd this, of links now ?out]
  obtain segs where
    segs: "\<forall>r. concat (on_link r evs) = wire_image (segs r)" "\<forall>r. \<forall>seg \<in> set (segs r). carries ?k ?f ?N seg"
      "(\<forall>s \<in> set (liveChannels (w_mgr ws)). \<exists>r. links r = Some s) \<longrightarrow>
       (\<forall>i < length ?ps. \<exists>r. \<exists>seg \<in> set (segs r). brings ?k (?s + of_nat i) seg)" using sent unfolding bytes [unfolded sent_on_def, rule_format, symmetric] by blast
  note inv = awaiting_inv [OF rcv(1-3) N good _ stream_before [OF start, of ?ps], simplified]
  note arr = arrivals [OF inv(1) segs(2,1) rcv(4), of env' now']
  show "\<forall>r. scratch_of r (foldl (arrive env' now' H) hst evs) = []" by (rule arr(4))
  have size: "0 < ds_segment_size (w_ds ws)" using snd(1) by (simp add: sender_ok_def)
  show "delivered h (w_trace (host_world (foldl (arrive env' now' H) hst evs))) = ?out @ concat bufs \<and>
      awaiting (?s + of_nat (length ?ps)) ?k h (host_world (foldl (arrive env' now' H) hst evs))"
    if all: "\<forall>m. m \<le> e_mb_space env' now' m" "length ?ps \<le> unat (ds_recv_window (w_ds (host_world hst)))"
      "\<forall>s \<in> set (liveChannels (w_mgr ws)). \<exists>r. links r = Some s"
  proof -
    have "\<exists>r. \<exists>seg \<in> set (segs r). brings ?k (of_nat i) seg" if i: "unat ?s \<le> i" "i < ?N" for i
    proof -
      have "(of_nat i :: u32) = of_nat (unat ?s) + of_nat (i - unat ?s)"
        using i(1) by (metis le_add_diff_inverse of_nat_add)
      then have "(of_nat i :: u32) = ?s + of_nat (i - unat ?s)" by simp
      then show ?thesis using segs(3) all(3) i by (metis add_diff_inverse_nat nat_add_left_cancel_less not_le)
    qed
    then have whole: "recv_inv ?k h ?f ?N ?N (host_world (foldl (arrive env' now' H) hst evs))"
      "covered ?k ?N (host_world (foldl (arrive env' now' H) hst evs))"
      using arr(2) [OF inv(2) all(1)] all(2) by simp_all
    then have "delivered h (w_trace (host_world (foldl (arrive env' now' H) hst evs))) = concat (map ?f [0..<?N])"
      by (simp add: recv_inv_def)
    then show ?thesis
      using all_awaiting [OF whole] stream_upto [OF start, of "length ?ps" ?ps] pieces_of_whole [OF size] by simp
  qed
qed

end

end
