(* ===== verification/Fgw_Link_Control.thy ===== *)
theory Fgw_Link_Control
  imports Fgw_EndToEnd
begin

text \<open>
  What one arriving segment may do to a \<^verbatim>\<open>DataStream\<close>: duplicates and segments beyond the receive window
  change nothing, corrupted ones are dropped, HELLO and link feedback are applied as their senders meant them,
  and the racing arbiter picks the link that arrives first most often.
\<close>

declare split_paired_All [simp del] split_paired_Ex [simp del]

section \<open>DataStream: what a segment may do\<close>

theorem duplicate_changes_nothing:
  assumes "smap_count (ds_dedup_map (w_ds w)) (segment_dedup_key hdr (rx_ingress_of hdr))"
    and "w' = process_session_segment env now H r hdr payload w"
  shows "ds_sessions (w_ds w') = ds_sessions (w_ds w) \<and> w_trace w' = w_trace w \<and> w_app w' = w_app w \<and>
    w_mgr w' = w_mgr w \<and> ds_dedup_map (w_ds w') = ds_dedup_map (w_ds w) \<and>
    ds_dedup_queue (w_ds w') = ds_dedup_queue (w_ds w) \<and> ds_peer_win_count (w_ds w') = ds_peer_win_count (w_ds w)"
  using assms by (simp add: process_session_segment_def Let_def)

theorem outside_window_changes_nothing:
  assumes "has_data hdr" and "outside_window (rx_ingress_of hdr, hdr_session_id hdr) (hdr_seq_num hdr) w"
    and "\<not> smap_count (ds_dedup_map (w_ds w)) (segment_dedup_key hdr (rx_ingress_of hdr))"
  shows "process_session_segment env now H r hdr payload w = w"
  using assms by (simp add: process_session_segment_def Let_def)

definition sample_stream :: datastream where
  "sample_stream = fst (new_DataStream 0 7 2 16 True 0 sample_manager)"

definition sample_world :: "inport world" where
  "sample_world = \<lparr>w_mgr = snd (new_DataStream 0 7 2 16 True 0 sample_manager), w_ds = sample_stream,
     w_app = inport_init, w_trace = []\<rparr>"

lemma sample_world_facts [simp]:
  "w_ds sample_world = sample_stream" "w_app sample_world = inport_init" "w_trace sample_world = []"
  "find_session k sample_world = None" "ds_local_ingress_id sample_stream = 7" "ds_recv_window sample_stream = 16"
  "ds_segment_size sample_stream = 2" "ds_sessions sample_stream = []" "ds_dedup_map sample_stream = []"
  "ds_dedup_queue sample_stream = []" "ds_verify_crc sample_stream" "ds_route_outport_id sample_stream = 0"
  "ds_self sample_stream = 0" "ds_peer_part_count sample_stream = []" "ds_peer_win_count sample_stream = []"
  "ds_applied_epoch sample_stream = 0" "ds_peer_generation sample_stream = 0"
  by (simp_all add: sample_world_def sample_stream_def new_DataStream_def MAX_PAYLOAD_def find_session_def)

definition sample_data :: "u32 \<Rightarrow> FgwSegmentHeader" where
  "sample_data seq = FgwSegmentHeader_init\<lparr>hdr_flags := FLAG_DATA OR FLAG_HDR_EXT, hdr_payload_len := 1,
     hdr_session_id := 1, hdr_seq_num := seq, hdr_ingress_id := 7\<rparr>"

lemma sample_data_facts [simp]:
  "rx_ingress_of (sample_data s) = 7" "hdr_session_id (sample_data s) = 1" "hdr_seq_num (sample_data s) = s"
  "has_data (sample_data s)" "segment_dedup_key (sample_data s) 7 = DedupKey 7 1 s 0"
  by (simp_all add: sample_data_def rx_ingress_of_def has_data_def segment_dedup_key_def flag_tests seg_flags
      FgwSegmentHeader_init_def)

theorem duplicate_changes_nothing_witness:
  "\<exists>w. w = process_session_segment open_env 0 (inport_ops open_env 0) 0 (sample_data 3) [9]
      (upd_ds (record_dedup (DedupKey 7 1 3 0)) sample_world) \<and> w_trace w = [] \<and> ds_sessions (w_ds w) = []"
  using duplicate_changes_nothing [OF _ refl, of "upd_ds (record_dedup (DedupKey 7 1 3 0)) sample_world" "sample_data 3"
      open_env 0 "inport_ops open_env 0" 0 "[9]"]
  by (simp add: record_dedup_def kDedupRing_def smap_count_def smap_find_def)

theorem outside_window_changes_nothing_witness:
  "process_session_segment open_env 0 (inport_ops open_env 0) 0 (sample_data 16) [9] sample_world = sample_world"
  using outside_window_changes_nothing [of "sample_data 16" sample_world]
  by (simp add: outside_window_def smap_count_def)

section \<open>Corruption\<close>

text \<open>C29: With CRC checking on, a segment frame in which a burst of at most four bytes was changed, after its
  first four bytes and outside the CRC field, is dropped by onChannelBytes: no session, handler, counter or
  table of the stream changes, and no byte of the frame is left in the link's scratch buffer.\<close>

theorem corrupted_segment_dropped:
  assumes img: "segment_image hdr p = a @ mid @ c" and p: "length p \<le> MAX_PAYLOAD"
    and mid: "length mid = length mid'" "mid \<noteq> mid'" "length mid \<le> 4"
    and place: "4 \<le> length a" "length a + length mid \<le> wire_hdr_size hdr - 4 \<or> wire_hdr_size hdr \<le> length a"
    and hst: "ds_verify_crc (w_ds (host_world hst))" "scratch_of r hst = []"
  shows "host_world (onChannelBytes env now H r (a @ mid' @ c) hst) = host_world hst \<and>
    scratch_of r (onChannelBytes env now H r (a @ mid' @ c) hst) = []"
proof -
  let ?f = "a @ mid @ c" and ?g = "a @ mid' @ c" and ?hr = "wire_hdr_size hdr"
  have len: "length ?f = length ?g" "length ?f = ?hr + length p"
    using mid(1) length_segment_image [of hdr p] unfolding img by simp_all
  have peek: "fgwSegmentPeekHeader ?f FgwSegmentHeader_init = (int ?hr, decoded_header hdr p)"
    using peek_image [OF p, of hdr "[]" FgwSegmentHeader_init] img by simp
  have hr: "0 < int ?hr" "20 \<le> ?hr" "?hr \<le> 24" using wire_hdr_size_ge [of hdr] by simp_all
  have t4: "take 4 ?f = take 4 ?g" using place(1) by simp
  have crc: "take 4 (drop (nat (int ?hr) - 4) ?f) = take 4 (drop (nat (int ?hr) - 4) ?g)"
    using place(2)
  proof
    assume h: "length a + length mid \<le> ?hr - 4"
    then have "drop (?hr - 4) (a @ mid @ c) = drop (?hr - 4 - length a - length mid) c"
      "drop (?hr - 4) (a @ mid' @ c) = drop (?hr - 4 - length a - length mid) c"
      using mid(1) hr by simp_all
    then show ?thesis by simp
  next
    assume "?hr \<le> length a"
    then show ?thesis using hr by (simp add: le_diff_conv)
  qed
  from peek_cong [OF len(1) t4 peek hr(1) crc] obtain hg where
    hg: "fgwSegmentPeekHeader ?g FgwSegmentHeader_init = (int ?hr, hg)"
      "hdr_payload_len hg = hdr_payload_len (decoded_header hdr p)" "hdr_crc32 hg = hdr_crc32 (decoded_header hdr p)"
    by auto
  have n: "unat (hdr_payload_len (decoded_header hdr p)) = length p"
    by (simp add: decoded_header_def unat_len16 [OF p])
  have tot: "frame_total hg ?hr = length ?g"
    using hg(2) n len by (simp add: frame_total_def)
  have scan: "scan_frame ?g = Frame hg ?hr"
    using hg(1) tot hr len by (simp add: scan_frame_def LEGACY_HEADER_SIZE_def)
  have bad: "\<not> fgwSegmentVerifyCrc ?g hg (int ?hr)"
    by (rule verify_burst [where mid = mid and h = "decoded_header hdr p"])
      (use verify_image [OF p, of hdr "[]"] img mid place(2) len n hg hr in auto)
  have "frame_loop (process_segment env now H r) ?g (host_world hst) = ([], host_world hst)"
    using scan tot hst(1) bad by (simp add: frame_loop_simps process_segment_def)
  then show ?thesis
    using hst(2) by (simp add: onChannelBytes_def scratch_of_def smap_find_set)
qed

theorem corrupted_segment_dropped_witness:
  "host_world (onChannelBytes open_env 0 (inport_ops open_env 0) 0
     (take 24 (segment_image sample_header [1, 2, 3]) @ [1, 7] @ [3]) \<lparr>host_scratch = [], host_world = sample_world\<rparr>) = sample_world"
proof -
  let ?i = "segment_image sample_header [1, 2, 3]"
  have "?i = take 24 ?i @ [1, 2] @ [3]"
  proof -
    have "length (header_prefix sample_header 3) = 20" by simp
    then show ?thesis by (simp add: segment_image_def numeral_3_eq_3)
  qed
  from corrupted_segment_dropped [OF this, of "[1, 7]" "\<lparr>host_scratch = [], host_world = sample_world\<rparr>"
      0 open_env 0 "inport_ops open_env 0"] show ?thesis
    by (simp add: MAX_PAYLOAD_def scratch_of_def)
qed

section \<open>Link control\<close>

theorem hello_is_applied:
  assumes "zds_laws (e_zds env)" and "zds_pack_FgwHello (e_zds env) (Some room) t True = (ret, payload)" and "0 \<le> ret"
    and "w' = process_hello env r payload w"
  shows "(if hello_proto_version t \<noteq> kFgwProtoVersion then w' = w
     else w_mgr w' = upd_chan r (setPeerIdentity (hello_channel_id t) (hello_ingress_id t) (hello_outport_id t)) (w_mgr w) \<and>
       ds_sessions (w_ds w') = ds_sessions (w_ds w) \<and>
       (if hello_generation t \<noteq> 0 \<and> hello_generation t \<noteq> ds_peer_generation (w_ds w)
        then ds_peer_generation (w_ds w') = hello_generation t \<and> ds_applied_epoch (w_ds w') = 0 \<and>
          ds_peer_win_count (w_ds w') = [] \<and> ds_peer_part_count (w_ds w') = []
        else w_ds w' = w_ds w))"
  using hello_roundtrip [OF assms(1-3), of FgwHello_init "[]"] assms(3,4)
  by (auto simp: process_hello_def Let_def)

theorem hello_is_applied_witness:
  "\<exists>ret payload. zds_pack_FgwHello be_zds (Some 64) sample_hello True = (ret, payload) \<and>
     ds_peer_generation (w_ds (process_hello open_env 0 payload sample_world)) = 0x12345678"
proof -
  have "0 \<le> fst (zds_pack_FgwHello be_zds (Some 64) sample_hello True)" by code_simp
  then show ?thesis
    using hello_is_applied [of open_env 64 sample_hello _ _ _ 0 sample_world, OF _ _ _ refl] be_zds_laws
    by (cases "zds_pack_FgwHello be_zds (Some 64) sample_hello True")
      (auto simp: open_env_def sample_hello_def kFgwProtoVersion_def)
qed

theorem feedback_epochs_increase:
  "process_ack env payload w = w \<or>
   ds_applied_epoch (w_ds w) < ds_applied_epoch (w_ds (process_ack env payload w)) \<and>
   ds_sessions (w_ds (process_ack env payload w)) = ds_sessions (w_ds w) \<and>
   (\<exists>p. w_mgr (process_ack env payload w) = (w_mgr w)\<lparr>m_selector := (m_selector (w_mgr w))\<lparr>sel_primary := p\<rparr>\<rparr>)"
proof -
  obtain ret fb where u: "zds_unpack_FgwLinkFeedback (e_zds env) FgwLinkFeedback_init payload True = (ret, fb)"
    by fastforce
  show ?thesis
  proof (cases "fb_recommended_primary fb = 0")
    case True
    with u show ?thesis
      by (auto simp: process_ack_def Let_def intro!: exI [of _ "sel_primary (m_selector (w_mgr w))"])
  next
    case False
    with u show ?thesis
      by (auto simp: process_ack_def Let_def setPrimaryChannel_def)
  qed
qed

text \<open>The arbiter's choice: no peer link with a sample has a better share of first arrivals.\<close>

definition win_rate :: "fgw_env \<Rightarrow> datastream \<Rightarrow> u32 \<Rightarrow> u32 \<Rightarrow> rat" where
  "win_rate env ds cid part =
     e_fl env (of_nat (unat (case smap_find (ds_peer_win_count ds) cid of None \<Rightarrow> 0 | Some n \<Rightarrow> n)) / of_nat (unat part))"

lemma win_rate_nonneg: "\<forall>x \<ge> 0. 0 \<le> e_fl env x \<Longrightarrow> 0 \<le> win_rate env ds cid part"
proof -
  have "(0 :: rat) \<le> of_nat a / of_nat b" for a b :: nat by simp
  then show "\<forall>x \<ge> 0. 0 \<le> e_fl env x \<Longrightarrow> 0 \<le> win_rate env ds cid part"
    unfolding win_rate_def by blast
qed

lemma pick_step_fold:
  assumes "\<forall>x \<ge> 0. 0 \<le> e_fl env x" and "wins = ds_peer_win_count ds"
    and "best = (0, 0, - 1) \<or> (\<exists>part. best = (cid0, part, win_rate env ds cid0 part) \<and> (cid0, part) \<in> S \<and> part \<noteq> 0)"
    and "\<forall>(c, p) \<in> S. p \<noteq> 0 \<longrightarrow> win_rate env ds c p \<le> snd (snd best)"
  shows "\<exists>cid part rate. foldl (pick_step env wins) best xs = (cid, part, rate) \<and>
    ((cid, part, rate) = (0, 0, - 1) \<or> (cid, part) \<in> S \<union> set xs \<and> part \<noteq> 0 \<and> rate = win_rate env ds cid part) \<and>
    (\<forall>(c, p) \<in> S \<union> set xs. p \<noteq> 0 \<longrightarrow> win_rate env ds c p \<le> rate)"
  using assms(3,4)
proof (induction xs arbitrary: best S cid0)
  case Nil
  then show ?case by (cases best) auto
next
  case (Cons x xs)
  obtain c p where x: "x = (c, p)" by fastforce
  obtain bi bp br where b: "best = (bi, bp, br)" by (cases best)
  have nn: "0 \<le> win_rate env ds c p" by (rule win_rate_nonneg [OF assms(1)])
  define best' where "best' = pick_step env wins best (c, p)"
  have step: "best' = (if p = 0 then best else if win_rate env ds c p > br \<or> win_rate env ds c p = br \<and> p > bp
      then (c, p, win_rate env ds c p) else best)"
    by (simp add: best'_def pick_step_def b assms(2) win_rate_def Let_def)
  have "best' = (0, 0, - 1) \<or> (\<exists>cid part. best' = (cid, part, win_rate env ds cid part) \<and> (cid, part) \<in> insert (c, p) S \<and> part \<noteq> 0)"
    using Cons.prems(1) nn b unfolding step by auto
  moreover have "\<forall>(c', p') \<in> insert (c, p) S. p' \<noteq> 0 \<longrightarrow> win_rate env ds c' p' \<le> snd (snd best')"
    using Cons.prems(2) b unfolding step by fastforce
  ultimately show ?case
    using Cons.IH [of best' _ "insert (c, p) S"] unfolding x best'_def [symmetric] foldl.simps by auto
qed

theorem arbiter_picks_fastest:
  assumes "\<forall>x \<ge> 0. 0 \<le> e_fl env x" and "(cid, part) \<in> set (ds_peer_part_count ds)" and "part \<noteq> 0"
  shows "\<exists>best. (pickPrimaryLocked env ds, best) \<in> set (ds_peer_part_count ds) \<and> best \<noteq> 0 \<and>
    (\<forall>(c, p) \<in> set (ds_peer_part_count ds). p \<noteq> 0 \<longrightarrow>
       win_rate env ds c p \<le> win_rate env ds (pickPrimaryLocked env ds) best)"
proof -
  from pick_step_fold [OF assms(1) refl, where best = "(0, 0, - 1)" and S = "{}" and ds = ds and xs = "ds_peer_part_count ds"]
  obtain c p rate where r: "foldl (pick_step env (ds_peer_win_count ds)) (0, 0, - 1) (ds_peer_part_count ds) = (c, p, rate)"
      "(c, p, rate) = (0, 0, - 1) \<or> (c, p) \<in> set (ds_peer_part_count ds) \<and> p \<noteq> 0 \<and> rate = win_rate env ds c p"
      "\<forall>(c, p) \<in> set (ds_peer_part_count ds). p \<noteq> 0 \<longrightarrow> win_rate env ds c p \<le> rate"
    by auto
  have "0 \<le> win_rate env ds cid part" by (rule win_rate_nonneg [OF assms(1)])
  then have "0 \<le> rate" using r(3) assms(2,3) by fastforce
  then show ?thesis
    using r by (auto simp: pickPrimaryLocked_def)
qed

theorem arbiter_picks_fastest_witness:
  "pickPrimaryLocked open_env (sample_stream\<lparr>ds_peer_win_count := [(3, 2), (4, 5)], ds_peer_part_count := [(3, 6), (4, 6), (5, 0)]\<rparr>) = 4"
  using arbiter_picks_fastest [of open_env 4 6 "sample_stream\<lparr>ds_peer_win_count := [(3, 2), (4, 5)], ds_peer_part_count := [(3, 6), (4, 6), (5, 0)]\<rparr>"]
  by (auto simp: open_env_def win_rate_def smap_find_def)

end
