(* ===== verification/Fgw_Sessions.thy ===== *)
theory Fgw_Sessions
  imports Fgw_Link_Control
begin

text \<open>
  Sessions of a \<^verbatim>\<open>DataStream\<close> from opening to closing, and what \<^verbatim>\<open>sendSessionData\<close> puts on the links.
\<close>

declare split_paired_All [simp del] split_paired_Ex [simp del]

section \<open>Sessions\<close>

theorem session_open_close:
  assumes "find_session (ds_local_ingress_id (w_ds w), sid) w = None"
    and "openSession env now sid handler w = (ret, w1)"
  shows "ret = 0 \<and>
    (\<exists>st. find_session (ds_local_ingress_id (w_ds w), sid) w1 = Some st \<and> st_handler st = handler \<and>
       st_next_send_seq st = 0 \<and> st_expected_rx_seq st = 0 \<and> st_rx_buffer st = [] \<and> \<not> st_closed st) \<and>
    fst (openSession env now sid handler' w1) = errcode ERR_BUSY \<and> snd (openSession env now sid handler' w1) = w1 \<and>
    find_session (ds_local_ingress_id (w_ds w), sid) (closeSession env now sid kFgwWireIngressUseLocal w1) = None \<and>
    fst (sendSessionData env now sid buf kFgwWireIngressUseLocal
           (closeSession env now sid kFgwWireIngressUseLocal w1)) = errcode ERR_NOCHANNEL"
proof -
  let ?k = "(ds_local_ingress_id (w_ds w), sid)"
  have w1: "ret = 0" "find_session ?k w1 = Some (SessionState_init\<lparr>st_session_id := sid,
      st_wire_ingress_id := ds_local_ingress_id (w_ds w), st_handler := handler, st_opened := True\<rparr>)"
    "ds_local_ingress_id (w_ds w1) = ds_local_ingress_id (w_ds w)"
    using assms by (auto simp: openSession_def Let_def smap_count_def find_session_def [symmetric])
      (simp add: put_session_def upd_ds_def)
  have close: "find_session ?k (closeSession env now sid kFgwWireIngressUseLocal w1) = None"
    using w1 by (simp add: closeSession_def Let_def)
  have busy: "openSession env now sid handler' w1 = (errcode ERR_BUSY, w1)"
    using w1 by (simp add: openSession_def Let_def smap_count_def find_session_def)
  have "fst (sendSessionData env now sid buf kFgwWireIngressUseLocal (closeSession env now sid kFgwWireIngressUseLocal w1)) =
      errcode ERR_NOCHANNEL"
    using close w1(3) by (simp add: sendSessionData_def)
  then show ?thesis using w1 close busy by (simp add: SessionState_init_def)
qed

theorem session_open_close_witness:
  "\<exists>w1. openSession open_env 0 1 (Some 4) sample_world = (0, w1) \<and>
     fst (openSession open_env 0 1 None w1) = errcode ERR_BUSY"
proof -
  obtain ret w1 where o1: "openSession open_env 0 1 (Some 4) sample_world = (ret, w1)" by fastforce
  from session_open_close [OF _ o1, of None] show ?thesis using o1 by simp
qed

text \<open>C39: With no live link sendSessionData answers NOCHANNEL and writes nothing, but the first piece has used up
  its sequence number, so the numbers the peer will see have a hole.\<close>

theorem failed_send_leaves_gap:
  assumes "find_session (resolveIngressKey (w_ds w) key, sid) w = Some st" and "\<not> st_closed st"
    and "buf \<noteq> []" and "ds_segment_size (w_ds w) \<noteq> 0" "unat (ds_segment_size (w_ds w)) \<le> MAX_PAYLOAD"
    and "\<forall>now n. n \<le> e_mb_space env now n" and "sort_ok env"
    and "liveChannels (w_mgr w) = []" and "sendSessionData env now sid buf key w = (ret, w')"
  shows "ret = errcode ERR_NOCHANNEL \<and>
    find_session (resolveIngressKey (w_ds w) key, sid) w' =
      Some (st\<lparr>st_next_send_seq := st_next_send_seq st + 1\<rparr>) \<and>
    (\<forall>r. ch_wire (m_heap (w_mgr w') r) = ch_wire (m_heap (w_mgr w) r))"
proof -
  let ?n = "min (length buf) (unat (ds_segment_size (w_ds w)))"
  let ?sz = "if ds_route_outport_id (w_ds w) \<noteq> 0 then ROUTED_HEADER_SIZE else HEADER_SIZE"
  let ?hdr = "segment_header (w_ds w) (st_wire_ingress_id st) sid (st_next_send_seq st) FLAG_DATA ?n"
  obtain r1 m1 where s: "sendSegment env now (w_ds w) (st_wire_ingress_id st) sid (st_next_send_seq st) FLAG_DATA
      (Some (take ?n buf)) (w_mgr w) = (r1, m1)" by fastforce
  have sz: "wire_hdr_size ?hdr = ?sz"
    by (simp add: segment_header_size seg_flags)
  have enc: "encode_block (e_mb_space env now (?sz + ?n)) ?hdr (Some (take ?n buf)) (int ?n) =
      Inr (segment_image ?hdr (take ?n buf))"
    using encode_block_ok [of ?hdr "take ?n buf" "e_mb_space env now (?sz + ?n)"] assms(5,6) sz by simp
  have space: "\<not> e_mb_space env now (?sz + ?n) < ?sz + ?n"
    using assms(6) by (metis not_less)
  have "r1 = errcode ERR_NOCHANNEL \<and> m_heap m1 = m_heap (w_mgr w)"
    using s enc space assms(8) by (auto simp: sendSegment_def Let_def select_def)
  moreover have "send_loop env now (w_ds w) (st_wire_ingress_id st) sid buf 0 (st_next_send_seq st) (w_mgr w) =
      (if r1 < 0 then (r1, st_next_send_seq st + 1, m1) else
       send_loop env now (w_ds w) (st_wire_ingress_id st) sid (drop ?n buf) (0 + ?n) (st_next_send_seq st + 1) m1)"
    using s assms(3,4) by (simp add: send_loop.simps [of _ _ _ _ _ buf] Let_def)
  ultimately show ?thesis
    using assms(1,2,9) by (auto simp: sendSessionData_def Let_def)
qed

definition sample_session :: "u32 \<Rightarrow> handler_ref option \<Rightarrow> 'a world \<Rightarrow> 'a world" where
  "sample_session sid handler w =
     put_session (7, sid) (SessionState_init\<lparr>st_session_id := sid, st_wire_ingress_id := 7, st_handler := handler\<rparr>) w"

definition sample_sender :: "manager \<Rightarrow> unit world" where
  "sample_sender m = sample_session 1 None \<lparr>w_mgr = m, w_ds = sample_stream, w_app = (), w_trace = []\<rparr>"

lemma sample_sender_facts [simp]:
  "find_session (7, 1) (sample_sender m) =
     Some (SessionState_init\<lparr>st_session_id := 1, st_wire_ingress_id := 7, st_handler := None\<rparr>)"
  "w_mgr (sample_sender m) = m" "ds_segment_size (w_ds (sample_sender m)) = 2"
  "ds_local_ingress_id (w_ds (sample_sender m)) = 7" "ds_route_outport_id (w_ds (sample_sender m)) = 0"
  by (simp_all add: sample_sender_def sample_session_def) (simp_all add: put_session_def upd_ds_def)

theorem failed_send_leaves_gap_witness:
  "fst (sendSessionData open_env 0 1 [1, 2, 3] 7 (sample_sender manager_init)) = errcode ERR_NOCHANNEL \<and>
   (\<exists>st. find_session (7, 1) (snd (sendSessionData open_env 0 1 [1, 2, 3] 7 (sample_sender manager_init))) = Some st \<and>
      st_next_send_seq st = 1)"
proof -
  obtain ret w' where s: "sendSessionData open_env 0 1 [1, 2, 3] 7 (sample_sender manager_init) = (ret, w')" by fastforce
  have "liveChannels manager_init = []" by (simp add: liveChannels_def manager_init_def)
  then show ?thesis
    using failed_send_leaves_gap [OF _ _ _ _ _ _ sort_ok_open_env _ s] s
    by (simp add: resolveIngressKey_def kFgwWireIngressUseLocal_def SessionState_init_def MAX_PAYLOAD_def open_env_def)
qed

lemma nths_map: "nths xs A = map (\<lambda>i. xs ! i) (filter (\<lambda>i. i \<in> A) [0..<length xs])"
proof -
  have "zip xs [0..<length xs] = map (\<lambda>i. (xs ! i, i)) [0..<length xs]"
    by (rule nth_equalityI) simp_all
  then show ?thesis by (simp add: nths_def filter_map comp_def)
qed

text \<open>C30: sendSessionData on an open session with a live link, where the links accept writes, takes the whole
  buffer and cuts it into non-empty pieces of at most segment_size bytes. Every piece goes out as the image of
  a DATA header with the next sequence number, on at least one live link; each link carries its pieces in
  order, and the session's send counter advances by their number.\<close>

theorem send_cuts_and_numbers:
  assumes "sender_ok env sid key w" and "find_session (resolveIngressKey (w_ds w) key, sid) w = Some st"
    and "pieces = cut (unat (ds_segment_size (w_ds w))) buf"
  shows "\<exists>T w'. sendSessionData env now sid buf key w = (int (length buf), w') \<and> concat pieces = buf \<and>
    (\<forall>p \<in> set pieces. p \<noteq> [] \<and> length p \<le> unat (ds_segment_size (w_ds w))) \<and>
    (\<forall>i < length pieces. T i \<noteq> {} \<and> T i \<subseteq> set (liveChannels (w_mgr w))) \<and>
    (\<forall>r. ch_wire (m_heap (w_mgr w') r) = ch_wire (m_heap (w_mgr w) r) @
       map (\<lambda>i. segment_image (segment_header (w_ds w) (st_wire_ingress_id st) sid (st_next_send_seq st + of_nat i)
                                 FLAG_DATA (length (pieces ! i))) (pieces ! i))
         (filter (\<lambda>i. r \<in> T i) [0..<length pieces])) \<and>
    find_session (resolveIngressKey (w_ds w) key, sid) w' =
      Some (st\<lparr>st_next_send_seq := st_next_send_seq st + of_nat (length pieces)\<rparr>)"
proof -
  let ?segs = "data_segments (w_ds w) (st_wire_ingress_id st) sid (st_next_send_seq st) pieces"
  obtain T w' where T: "sendSessionData env now sid buf key w = (int (length buf), w')"
    "carried (w_mgr w) (w_mgr w') ?segs T"
    "\<forall>i. T i \<subseteq> set (liveChannels (w_mgr w))" "\<forall>i < length pieces. T i \<noteq> {}"
    "find_session (resolveIngressKey (w_ds w) key, sid) w' =
      Some (st\<lparr>st_next_send_seq := st_next_send_seq st + of_nat (length pieces)\<rparr>)"
    using sendSessionData_spec [OF assms, of now] by blast
  have "0 < unat (ds_segment_size (w_ds w))" using assms(1) by (auto simp: sender_ok_def unat_gt_0)
  then have pieces: "concat pieces = buf" unfolding assms(3) by (rule concat_cut)
  have small: "\<forall>p \<in> set pieces. p \<noteq> [] \<and> length p \<le> unat (ds_segment_size (w_ds w))"
    using cut_pieces unfolding assms(3) by blast
  have "map (\<lambda>(h, p). segment_image h p) (nths ?segs {i. r \<in> T i}) =
      map (\<lambda>i. segment_image (segment_header (w_ds w) (st_wire_ingress_id st) sid (st_next_send_seq st + of_nat i)
             FLAG_DATA (length (pieces ! i))) (pieces ! i)) (filter (\<lambda>i. r \<in> T i) [0..<length pieces])" for r
    unfolding nths_map by (auto simp: data_segments_nth)
  then have "\<forall>r. ch_wire (m_heap (w_mgr w') r) = ch_wire (m_heap (w_mgr w) r) @
      map (\<lambda>i. segment_image (segment_header (w_ds w) (st_wire_ingress_id st) sid (st_next_send_seq st + of_nat i)
             FLAG_DATA (length (pieces ! i))) (pieces ! i)) (filter (\<lambda>i. r \<in> T i) [0..<length pieces])"
    using T(2) by (simp add: carried_def)
  with T(1,3-5) pieces small show ?thesis by (intro exI [of _ T] exI [of _ w']) simp
qed

lemma sample_sender_ok: "sender_ok open_env 1 7 (sample_sender sample_manager)"
  using mgr_reachable_inv [OF sample_manager_reachable] sort_ok_open_env writes_ok_open_env
  by (simp add: sender_ok_def sample_manager_live MAX_PAYLOAD_def resolveIngressKey_def kFgwWireIngressUseLocal_def
      SessionState_init_def)

theorem send_cuts_and_numbers_witness:
  "\<exists>w'. sendSessionData open_env 0 1 [1, 2, 3] 7 (sample_sender sample_manager) = (3, w') \<and>
     (\<exists>st. find_session (7, 1) w' = Some st \<and> st_next_send_seq st = 2)"
proof -
  have k: "resolveIngressKey (w_ds (sample_sender sample_manager)) 7 = 7"
    by (simp add: resolveIngressKey_def kFgwWireIngressUseLocal_def)
  have "cut (unat (ds_segment_size (w_ds (sample_sender sample_manager)))) [1, 2, 3] = [[1, 2], [3]]"
    by (simp add: cut.simps)
  with send_cuts_and_numbers [OF sample_sender_ok _ refl, where buf = "[1, 2, 3]" and now = 0] show ?thesis
    by (force simp: k SessionState_init_def)
qed

text \<open>C40: A FIN ends its session at once: the handler is closed and the session is gone, and bytes that wait in
  the receive buffer for a missing segment are never delivered.\<close>

theorem fin_discards_buffer:
  assumes "find_session k w = Some st" and "st_handler st = Some h" and "wired_to inport_owns w"
    and "w' = process_fin (inport_ops env now) k w"
  shows "find_session k w' = None \<and> w_trace w' = w_trace w @ [EvClose h (snd k)] \<and>
    delivered h (w_trace w') = delivered h (w_trace w)"
proof -
  let ?w1 = "w\<lparr>w_trace := w_trace w @ [EvClose h (snd k)]\<rparr>"
  have "inport_owns ?w1 h k"
    using inport.wiredD(2) [OF assms(3,1,2)] by (simp add: inport_owns_def)
  from fs_close_frame [OF this, of env now]
  have "w_trace (fs_close env now h ?w1) = w_trace w @ [EvClose h (snd k)]"
    by (simp add: handler_frame_def)
  then show ?thesis
    using assms by (simp add: process_fin_def session_handler_of_def inport_ops_def fs_onSessionClose_def Let_def)
qed

definition sample_receiver :: "inport world" where
  "sample_receiver = snd (inport_accept open_env 0 0 ''client'' sample_world)"

lemma openSession_fresh:
  assumes "find_session (ds_local_ingress_id (w_ds w), sid) w = None"
  shows "\<exists>f. openSession env now sid handler w = (0, upd_mgr f (put_session (ds_local_ingress_id (w_ds w), sid)
    (SessionState_init\<lparr>st_session_id := sid, st_wire_ingress_id := ds_local_ingress_id (w_ds w),
       st_handler := handler, st_opened := True\<rparr>) w))"
  using assms unfolding openSession_def Let_def smap_count_def find_session_def by auto

lemma inport_accept_session:
  assumes "wired_to inport_owns w" and "find_session (ds_local_ingress_id (w_ds w), ip_next_session_id (w_app w)) w = None"
    and "inport_accept env now ts addr w = (h, w')"
  shows "wired_to inport_owns w' \<and> h = ip_next_ref (w_app w) \<and> w_trace w' = w_trace w \<and>
    ds_rest (w_ds w') = ds_rest (w_ds w) \<and>
    ip_heap (w_app w') h = \<lparr>fs_session_id = ip_next_session_id (w_app w), fs_client_tcp = True, fs_attached = True,
      fs_client_addr = addr, fs_open_timestamp = ts, fs_bytes_sent = 0, fs_bytes_recv = 0, fs_closed = False,
      fs_client_out = []\<rparr> \<and>
    find_session (ds_local_ingress_id (w_ds w), ip_next_session_id (w_app w)) w' =
      Some (SessionState_init\<lparr>st_session_id := ip_next_session_id (w_app w),
        st_wire_ingress_id := ds_local_ingress_id (w_ds w), st_handler := Some h, st_opened := True\<rparr>)"
proof -
  let ?sid = "ip_next_session_id (w_app w)" and ?h = "ip_next_ref (w_app w)" and ?li = "ds_local_ingress_id (w_ds w)"
  let ?st = "SessionState_init\<lparr>st_session_id := ?sid, st_wire_ingress_id := ?li, st_handler := Some ?h, st_opened := True\<rparr>"
  let ?s = "\<lparr>fs_session_id = ?sid, fs_client_tcp = True, fs_attached = True,
      fs_client_addr = addr, fs_open_timestamp = ts, fs_bytes_sent = 0, fs_bytes_recv = 0, fs_closed = False,
      fs_client_out = []\<rparr>"
  define ip where "ip = (w_app w)\<lparr>ip_next_session_id := ?sid + 1, ip_heap := (ip_heap (w_app w))(?h := ?s), ip_next_ref := Suc ?h,
      ip_sessions := smap_set ?sid ?h (ip_sessions (w_app w))\<rparr>"
  have acc: "inport_accept env now ts addr w = (?h, snd (openSession env now ?sid (Some ?h) (w\<lparr>w_app := ip\<rparr>)))"
    by (simp add: inport_accept_def inport_allocateSessionId_def bindClientTcp_def new_FgwSession_def ip_def Let_def)
  then have h: "h = ?h" using assms(3) by simp
  obtain f where w': "w' = upd_mgr f (put_session (?li, ?sid) ?st (w\<lparr>w_app := ip\<rparr>))"
    using openSession_fresh [of "w\<lparr>w_app := ip\<rparr>" ?sid env now "Some ?h"] assms(2,3) acc
    by (auto simp: find_session_def)
  have find: "find_session k w' = (if k = (?li, ?sid) then Some ?st else find_session k w)" for k
    by (simp add: w') (simp add: find_session_def)
  have app: "w_app w' = ip" "ds_local_ingress_id (w_ds w') = ?li" "ds_rest (w_ds w') = ds_rest (w_ds w)"
    "w_trace w' = w_trace w"
    by (simp_all add: w') (simp add: put_session_def upd_ds_def)
  have "wired_to inport_owns w'"
    unfolding wired_to_def
  proof (intro allI impI)
    fix k st assume st: "find_session k w' = Some st"
    show "st_session_id st = snd k \<and> (\<forall>h. st_handler st = Some h \<longrightarrow> inport_owns w' h k)"
    proof (cases "k = (?li, ?sid)")
      case True
      with st show ?thesis by (auto simp: find inport_owns_def app ip_def)
    next
      case False
      then have old: "find_session k w = Some st" using st by (simp add: find)
      show ?thesis
        using inport.wiredD [OF assms(1) old] by (auto simp: inport_owns_def app ip_def)
    qed
  qed
  then show ?thesis
    using h by (simp add: find app) (simp add: ip_def)
qed

lemma wired_sample_world: "wired_to inport_owns sample_world"
  by (simp add: wired_to_def)

lemma sample_receiver_facts:
  "wired_to inport_owns sample_receiver" "w_trace sample_receiver = []" "ds_rest (w_ds sample_receiver) = sample_stream"
  "find_session (7, 1) sample_receiver = Some (SessionState_init\<lparr>st_session_id := 1,
        st_wire_ingress_id := 7, st_handler := Some 0, st_opened := True\<rparr>)"
  "ip_heap (w_app sample_receiver) 0 = \<lparr>fs_session_id = 1, fs_client_tcp = True, fs_attached = True,
      fs_client_addr = ''client'', fs_open_timestamp = 0, fs_bytes_sent = 0, fs_bytes_recv = 0, fs_closed = False,
      fs_client_out = []\<rparr>"
proof -
  obtain h w' where a: "inport_accept open_env 0 0 ''client'' sample_world = (h, w')" by fastforce
  have rest: "ds_rest sample_stream = sample_stream" by (simp add: ds_rest_def)
  have h: "h = 0" "sample_receiver = w'"
    using a by (simp_all add: sample_receiver_def inport_accept_def inport_allocateSessionId_def inport_init_def Let_def)
  note facts = inport_accept_session [OF wired_sample_world _ a]
  show "wired_to inport_owns sample_receiver" "w_trace sample_receiver = []" "ds_rest (w_ds sample_receiver) = sample_stream"
    "find_session (7, 1) sample_receiver = Some (SessionState_init\<lparr>st_session_id := 1,
        st_wire_ingress_id := 7, st_handler := Some 0, st_opened := True\<rparr>)"
    "ip_heap (w_app sample_receiver) 0 = \<lparr>fs_session_id = 1, fs_client_tcp = True, fs_attached = True,
      fs_client_addr = ''client'', fs_open_timestamp = 0, fs_bytes_sent = 0, fs_bytes_recv = 0, fs_closed = False,
      fs_client_out = []\<rparr>"
    using facts h rest by (simp_all add: inport_init_def)
qed

theorem fin_discards_buffer_witness:
  "\<exists>w w'. (\<exists>st. find_session (7, 1) w = Some st \<and> st_rx_buffer st = [(2, [9])]) \<and>
     w' = process_fin (inport_ops open_env 0) (7, 1) w \<and> find_session (7, 1) w' = None \<and> delivered 0 (w_trace w') = []"
proof -
  define st where "st = SessionState_init\<lparr>st_session_id := 1, st_wire_ingress_id := 7, st_handler := Some 0,
      st_opened := True, st_rx_buffer := [(2, [9])]\<rparr>"
  define w where "w = put_session (7, 1) st sample_receiver"
  have "inport_owns sample_receiver 0 (7, 1)"
    using inport.wiredD(2) [OF sample_receiver_facts(1) sample_receiver_facts(4)] by simp
  then have own: "inport_owns w 0 (7, 1)"
    by (simp add: w_def inport_owns_def) (simp add: put_session_def upd_ds_def)
  have "wired_to inport_owns w"
    using inport.calm_wired [OF inport.calm_put sample_receiver_facts(1), of st "(7, 1)"] \<open>inport_owns sample_receiver 0 (7, 1)\<close>
    by (simp add: w_def st_def)
  moreover have "find_session (7, 1) w = Some st" "w_trace w = []" by (simp_all add: w_def sample_receiver_facts)
  ultimately show ?thesis
    using fin_discards_buffer [of "(7, 1)" w st 0, OF _ _ _ refl]
    by (intro exI [of _ w] exI [of _ "process_fin (inport_ops open_env 0) (7, 1) w"]) (simp add: st_def)
qed

end
