(* ===== verification/Fgw_Invariants.thy ===== *)
theory Fgw_Invariants
  imports Fgw_Window
begin

text \<open>
  Invariants of a gateway whose handlers honour the contract: the locale \<open>handler_invariant\<close> extends
  the contract by a predicate the handlers keep, and gives the safety locales that predicate and,
  with it, the invariant of the stream.
\<close>

declare split_paired_All [simp del] split_paired_Ex [simp del]

section \<open>What handlers under contract keep\<close>

locale handler_invariant = session_handler +
  fixes P :: "'a world \<Rightarrow> bool"
  assumes P_quiet: "quiet w w' \<Longrightarrow> P w \<Longrightarrow> P w'"
    and P_put: "P w \<Longrightarrow> find_session k w = Some st0 \<Longrightarrow> st_handler st = st_handler st0 \<Longrightarrow> P (put_session k st w)"
    and P_create: "P w \<Longrightarrow> wired w \<Longrightarrow> find_session k w = None \<Longrightarrow> so_unknown H = None \<Longrightarrow>
      P (put_session k (SessionState_init\<lparr>st_session_id := snd k, st_wire_ingress_id := fst k, st_handler := None\<rparr>) w)"
    and P_unknown: "P w \<Longrightarrow> wired w \<Longrightarrow> find_session k w = None \<Longrightarrow> so_unknown H = Some cb \<Longrightarrow>
      cb (fst k) (snd k) w = (ho, w') \<Longrightarrow>
      P (put_session k (SessionState_init\<lparr>st_session_id := snd k, st_wire_ingress_id := fst k, st_handler := ho\<rparr>) w')"
    and P_erase: "P w \<Longrightarrow> P (erase_session k w)"
    and P_data: "P w \<Longrightarrow> wired w \<Longrightarrow> owns w h k \<Longrightarrow> b \<noteq> [] \<Longrightarrow>
      P (so_data H h (snd k) b (w\<lparr>w_trace := w_trace w @ [EvData h (snd k) b]\<rparr>))"
    and P_open: "P w \<Longrightarrow> wired w \<Longrightarrow> owns w h k \<Longrightarrow>
      P (so_open H h (snd k) (w\<lparr>w_trace := w_trace w @ [EvOpen h (snd k)]\<rparr>))"
    and P_close: "P w \<Longrightarrow> wired w \<Longrightarrow> owns w h k \<Longrightarrow>
      P (so_close H h (snd k) (w\<lparr>w_trace := w_trace w @ [EvClose h (snd k)]\<rparr>))"
begin

definition gate_inv :: "'a world \<Rightarrow> bool" where
  "gate_inv w \<longleftrightarrow> stream_inv w \<and> P w"

definition owned :: "'a world \<Rightarrow> handler_ref \<Rightarrow> u32 \<Rightarrow> bool" where
  "owned w h sid \<longleftrightarrow> (\<exists>k. owns w h k \<and> snd k = sid)"

lemma wired_put: "wired w \<Longrightarrow> find_session k w = Some st0 \<Longrightarrow> st_handler st = st_handler st0 \<Longrightarrow>
    st_session_id st = st_session_id st0 \<Longrightarrow> wired (put_session k st w)"
  using calm_wired [OF calm_put [of st k w]] wiredD [of w k st0] by simp

lemma wired_unknown:
  assumes "wired w" and "find_session k w = None" and "so_unknown H = Some cb" and "cb (fst k) (snd k) w = (ho, w')"
  shows "wired (put_session k (SessionState_init\<lparr>st_session_id := snd k, st_wire_ingress_id := fst k, st_handler := ho\<rparr>) w')"
  using calm_wired [OF calm_ensure assms(1), of k] assms(2-) by (simp add: ensure_session_def create_session_def)

lemma wired_create:
  assumes "wired w" and "find_session k w = None" and "so_unknown H = None"
  shows "wired (put_session k (SessionState_init\<lparr>st_session_id := snd k, st_wire_ingress_id := fst k, st_handler := None\<rparr>) w)"
  using calm_wired [OF calm_ensure assms(1), of k] assms(2-) by (simp add: ensure_session_def create_session_def)

lemma owned_data:
  assumes "P w \<and> wired w" and "owned w h sid" and "b \<noteq> []"
  shows "P (so_data H h sid b (w\<lparr>w_trace := w_trace w @ [EvData h sid b]\<rparr>)) \<and>
    wired (so_data H h sid b (w\<lparr>w_trace := w_trace w @ [EvData h sid b]\<rparr>)) \<and>
    owned (so_data H h sid b (w\<lparr>w_trace := w_trace w @ [EvData h sid b]\<rparr>)) h sid"
proof -
  obtain k where k: "owns w h k" "snd k = sid" using assms(2) by (auto simp: owned_def)
  have c: "calm k w (so_data H h sid b (w\<lparr>w_trace := w_trace w @ [EvData h sid b]\<rparr>))"
    using calm_call_data [OF k(1), of b] assms(3) k(2) by (simp add: call_data_def)
  show ?thesis
    using P_data [OF _ _ k(1) assms(3)] assms(1) calm_wired [OF c] calm_owns [OF c k(1)] k(2) by (auto simp: owned_def)
qed

lemma owned_open:
  assumes "P w \<and> wired w" and "owned w h sid"
  shows "P (so_open H h sid (w\<lparr>w_trace := w_trace w @ [EvOpen h sid]\<rparr>)) \<and>
    wired (so_open H h sid (w\<lparr>w_trace := w_trace w @ [EvOpen h sid]\<rparr>))"
proof -
  obtain k where k: "owns w h k" "snd k = sid" using assms(2) by (auto simp: owned_def)
  have "calm k w (so_open H h (snd k) (w\<lparr>w_trace := w_trace w @ [EvOpen h (snd k)]\<rparr>))"
    by (rule calm_call [OF k(1)]) (auto simp: event_bytes_def intro!: open_frame open_owns owns_trace k(1))
  then show ?thesis using P_open [OF _ _ k(1)] assms(1) calm_wired k(2) by auto
qed

lemma owned_close:
  assumes "P w \<and> wired w" and "owned w h sid"
  shows "P (so_close H h sid (w\<lparr>w_trace := w_trace w @ [EvClose h sid]\<rparr>)) \<and>
    wired (so_close H h sid (w\<lparr>w_trace := w_trace w @ [EvClose h sid]\<rparr>))"
proof -
  obtain k where k: "owns w h k" "snd k = sid" using assms(2) by (auto simp: owned_def)
  have "calm k w (so_close H h (snd k) (w\<lparr>w_trace := w_trace w @ [EvClose h (snd k)]\<rparr>))"
    by (rule calm_call [OF k(1)]) (auto simp: event_bytes_def intro!: close_frame close_owns owns_trace k(1))
  then show ?thesis using P_close [OF _ _ k(1)] assms(1) calm_wired k(2) by auto
qed

end

sublocale handler_invariant \<subseteq> safe: handler_safety H "\<lambda>w. P w \<and> wired w" owned
proof (unfold_locales, goal_cases)
  case (1 w w')
  then show ?case using P_quiet neutral_wired by (auto simp: quiet_def)
next
  case (2 w k st0 st)
  then show ?case using P_put wired_put by blast
next
  case (3 w h sid k st)
  have "owns (put_session k st w) h k' = owns w h k'" for k'
    by (rule owns_same) (simp_all add: put_session_def upd_ds_def)
  with 3 show ?case by (simp add: owned_def)
next
  case (4 w k)
  then show ?case using P_create wired_create by blast
next
  case (5 w k cb ho w')
  then show ?case using P_unknown wired_unknown by blast
next
  case (6 w k)
  then show ?case using P_erase calm_wired [OF calm_erase] by blast
next
  case (7 w k st h)
  then show ?case using wiredD [of w k st] by (auto simp: owned_def)
next
  case (8 w h sid b)
  then show ?case using owned_data by simp
next
  case (9 w h sid)
  then show ?case using owned_open by simp
next
  case (10 w h sid)
  then show ?case using owned_close by simp
qed

sublocale handler_invariant \<subseteq> gate: segment_invariant H gate_inv
proof (unfold_locales, goal_cases)
  case (1 w env now r hdr hr frame)
  then show ?case
    using process_segment_inv safe.P_segment by (simp add: gate_inv_def stream_inv_def)
next
  case (2 w w')
  then show ?case unfolding gate_inv_def using neutral_inv [of w w'] P_quiet by (auto simp: quiet_def)
qed

end
