(* ===== verification/Fgw_InportRuns.thy ===== *)
theory Fgw_InportRuns
  imports Fgw_Sessions Fgw_Invariants
begin

text \<open>
  Whole runs of an Inport gateway: clients come, send and go, links deliver bytes and break, timers
  fire. The invariant ties the sessions of the stream, the registered client sessions and what was
  written to the clients together, and holds in every reachable state.
\<close>

declare split_paired_All [simp del] split_paired_Ex [simp del]

section \<open>The invariant\<close>

text \<open>A session handler in the stream's table is an open session with its client attached; the
  registered sessions are open; an open client got exactly the bytes delivered to its session.\<close>

definition inport_inv :: "inport world \<Rightarrow> bool" where
  "inport_inv w \<longleftrightarrow> mgr_inv (w_mgr w) \<and>
     (\<forall>k st h. find_session k w = Some st \<longrightarrow> st_handler st = Some h \<longrightarrow>
        \<not> fs_closed (ip_heap (w_app w) h) \<and> fs_client_tcp (ip_heap (w_app w) h)) \<and>
     smap_inv (ip_sessions (w_app w)) \<and>
     (\<forall>sid h. (sid, h) \<in> set (ip_sessions (w_app w)) \<longrightarrow> h < ip_next_ref (w_app w) \<and>
        fs_session_id (ip_heap (w_app w) h) = sid \<and> \<not> fs_closed (ip_heap (w_app w) h)) \<and>
     (\<forall>h. fs_client_tcp (ip_heap (w_app w) h) \<longrightarrow> \<not> fs_closed (ip_heap (w_app w) h) \<longrightarrow>
        concat (fs_client_out (ip_heap (w_app w) h)) = delivered h (w_trace w)) \<and>
     (\<forall>h \<ge> ip_next_ref (w_app w). delivered h (w_trace w) = [])"

lemma neutral_inport_inv: "neutral w w' \<Longrightarrow> mgr_inv (w_mgr w') \<Longrightarrow> inport_inv w \<Longrightarrow> inport_inv w'"
  using neutral_find [of w w'] by (simp add: inport_inv_def) (simp add: neutral_def)

lemma inport_inv_put:
  assumes "inport_inv w" and "\<And>h. st_handler st = Some h \<Longrightarrow>
      \<not> fs_closed (ip_heap (w_app w) h) \<and> fs_client_tcp (ip_heap (w_app w) h)"
  shows "inport_inv (put_session k st w)"
  using assms unfolding inport_inv_def by simp

lemma inport_inv_erase: "inport_inv w \<Longrightarrow> inport_inv (erase_session k w)"
  unfolding inport_inv_def by simp

lemma inport_inv_upd_mgr: "inport_inv w \<Longrightarrow> (mgr_inv (w_mgr w) \<Longrightarrow> mgr_inv (f (w_mgr w))) \<Longrightarrow> inport_inv (upd_mgr f w)"
  unfolding inport_inv_def by simp

section \<open>The sending side keeps the manager\<close>

lemma mgr_inv_send_copies: "mgr_inv m \<Longrightarrow> mgr_inv (snd (send_copies env now frame live i ids best m))"
proof (induction env now frame live i ids best m rule: send_copies.induct)
  case (2 env now frame live i cid ids best m)
  show ?case
  proof (cases "find (\<lambda>r. ch_channel_id (m_heap m r) = cid) live")
    case None
    with 2 show ?thesis by simp
  next
    case (Some r)
    obtain ret m' where s: "chan_sendBytes env now frame r m = (ret, m')" by fastforce
    then have "mgr_inv m'" using mgr_inv_send [OF "2.prems", of env now frame r] by simp
    with 2 Some s show ?thesis by simp
  qed
qed simp

lemma mgr_inv_sendSegment: "mgr_inv m \<Longrightarrow> mgr_inv (snd (sendSegment env now ds wi sid seq flags payload m))"
proof -
  assume inv: "mgr_inv m"
  have "send_copies env now frame live i ids best (m\<lparr>m_selector := sel\<rparr>) = (b, m') \<Longrightarrow> mgr_inv m'" for frame live i ids best sel b m'
    using mgr_inv_send_copies [OF mgr_inv_selector [OF inv]] by (metis snd_conv)
  then show ?thesis
    using inv mgr_inv_selector [OF inv] by (simp add: sendSegment_def Let_def split: sum.split prod.split)
qed

lemma mgr_inv_send_loop: "mgr_inv m \<Longrightarrow> mgr_inv (snd (snd (send_loop env now ds wi sid rest written seq m)))"
proof (induction env now ds wi sid rest written seq m rule: send_loop.induct)
  case (1 env now ds wi sid rest written seq m)
  let ?c = "min (length rest) (unat (ds_segment_size ds))"
  obtain r1 m1 where s: "sendSegment env now ds wi sid seq FLAG_DATA (Some (take ?c rest)) m = (r1, m1)" by fastforce
  have "mgr_inv m1" using mgr_inv_sendSegment [OF "1.prems"] s by (metis snd_conv)
  with 1 s show ?case
    by (cases "rest = [] \<or> ds_segment_size ds = 0")
      (simp_all add: send_loop.simps [of env now ds wi sid rest] Let_def)
qed

lemma inport_inv_close: "inport_inv w \<Longrightarrow> inport_inv (closeSession env now sid key w)"
  using inport_inv_upd_mgr [OF _ mgr_inv_sendSegment] inport_inv_erase
  by (auto simp: closeSession_def Let_def split: option.split)

lemma inport_inv_sendData: "inport_inv w \<Longrightarrow> inport_inv (snd (sendSessionData env now sid buf key w))"
proof -
  assume inv: "inport_inv w"
  let ?k = "(resolveIngressKey (w_ds w) key, sid)"
  show ?thesis
  proof (cases "find_session ?k w")
    case (Some st)
    obtain ret seq m where loop: "send_loop env now (w_ds w) (st_wire_ingress_id st) sid buf 0 (st_next_send_seq st) (w_mgr w)
        = (ret, seq, m)" by (metis prod_cases3)
    have "mgr_inv m"
      using mgr_inv_send_loop [of "w_mgr w" env now "w_ds w"] inv loop unfolding inport_inv_def by (metis snd_conv)
    moreover have "inport_inv (put_session ?k (st\<lparr>st_next_send_seq := seq\<rparr>) w)"
      using inv Some by (intro inport_inv_put) (auto simp: inport_inv_def)
    ultimately show ?thesis
      using Some inv loop by (auto simp: sendSessionData_def Let_def intro: inport_inv_upd_mgr)
  qed (simp add: sendSessionData_def inv)
qed

section \<open>The handlers keep the invariant\<close>

lemma inport_inv_data:
  assumes inv: "inport_inv w" and own: "inport_owns w h k" and mem: "\<forall>m. m \<le> e_mb_space env now m"
  shows "inport_inv (fs_onSessionData env now h (snd k) b (w\<lparr>w_trace := w_trace w @ [EvData h (snd k) b]\<rparr>))"
proof -
  have h: "h < ip_next_ref (w_app w)" using own by (simp add: inport_owns_def)
  have space: "\<not> e_mb_space env now (length b) < length b" using mem by (simp add: not_less)
  show ?thesis
    using inv h space unfolding inport_inv_def fs_onSessionData_def Let_def by auto
qed

lemma inport_inv_fs_close:
  assumes inv: "inport_inv w" and wired: "wired_to inport_owns w" and own: "inport_owns w h k"
  shows "inport_inv (fs_close env now h w)"
proof (cases "fs_closed (ip_heap (w_app w) h)")
  case False
  let ?sid = "fs_session_id (ip_heap (w_app w) h)"
  define w1 where "w1 = upd_fs h (\<lambda>s. s\<lparr>fs_closed := True\<rparr>) w"
  define w2 where "w2 = closeSession env now ?sid kFgwWireIngressUseLocal w1"
  define w3 where "w3 = upd_app (inport_removeSession ?sid) (upd_fs h (\<lambda>s. s\<lparr>fs_client_tcp := False\<rparr>) w2)"
  have k: "k = (ds_local_ingress_id (w_ds w), ?sid)" using own by (simp add: inport_owns_def)
  have other: "h' \<noteq> h" if "find_session k' w = Some st" "st_handler st = Some h'" "k' \<noteq> k" for k' st h'
    using inport.wiredD(2) [OF wired that(1,2)] inport.owns_unique own that(3) by blast
  have w1: "find_session k' w1 = find_session k' w" "w_trace w1 = w_trace w" "w_mgr w1 = w_mgr w"
    "ip_heap (w_app w1) = (ip_heap (w_app w))(h := (ip_heap (w_app w) h)\<lparr>fs_closed := True\<rparr>)" for k'
    by (simp_all add: w1_def)
  have find2: "find_session k' w2 = (if k' = k then None else find_session k' w)" for k'
    using w1(1) by (auto simp: w2_def closeSession_def k w1_def Let_def split: option.split)
  have mgr2: "mgr_inv (w_mgr w2)"
    using inv w1(3) mgr_inv_sendSegment
    by (auto simp: w2_def closeSession_def inport_inv_def Let_def split: option.split)
  have tr2: "w_trace w2 = w_trace w" "w_app w2 = w_app w1"
    using w1(2) by (simp_all add: w2_def) (simp add: closeSession_def Let_def split: option.split)
  have w3: "w_trace w3 = w_trace w" "find_session k' w3 = find_session k' w2" "w_mgr w3 = w_mgr w2"
    "ip_heap (w_app w3) = (ip_heap (w_app w))(h := (ip_heap (w_app w) h)\<lparr>fs_closed := True, fs_client_tcp := False\<rparr>)"
    "ip_next_ref (w_app w3) = ip_next_ref (w_app w)"
    "ip_sessions (w_app w3) = smap_erase ?sid (ip_sessions (w_app w))" for k'
    using tr2 w1(4) by (simp_all add: w3_def inport_removeSession_def) (simp_all add: w1_def)
  have reg: "a \<noteq> ?sid \<Longrightarrow> (a, h') \<in> set (ip_sessions (w_app w)) \<Longrightarrow> h' \<noteq> h" for a h'
    using inv by (auto simp: inport_inv_def)
  note I = inv [unfolded inport_inv_def]
  have "inport_inv w3"
    unfolding inport_inv_def
  proof (intro conjI allI impI)
    show "mgr_inv (w_mgr w3)" using mgr2 w3(3) by simp
    show "smap_inv (ip_sessions (w_app w3))" using I by (simp add: w3(6) smap_inv_erase)
  next
    fix k' st h' assume "find_session k' w3 = Some st" "st_handler st = Some h'"
    then have st: "k' \<noteq> k" "find_session k' w = Some st" "st_handler st = Some h'"
      by (auto simp: w3(2) find2 split: if_splits)
    with other [OF st(2,3,1)] I show "\<not> fs_closed (ip_heap (w_app w3) h')" "fs_client_tcp (ip_heap (w_app w3) h')"
      by (auto simp: w3(4))
  next
    fix sid h' assume "(sid, h') \<in> set (ip_sessions (w_app w3))"
    then have r: "(sid, h') \<in> set (ip_sessions (w_app w))" "sid \<noteq> ?sid"
      by (auto simp: w3(6) smap_erase_def)
    with reg [OF r(2,1)] I show "h' < ip_next_ref (w_app w3)" "fs_session_id (ip_heap (w_app w3) h') = sid"
      "\<not> fs_closed (ip_heap (w_app w3) h')"
      by (auto simp: w3(4,5))
  next
    fix h' assume "fs_client_tcp (ip_heap (w_app w3) h')" "\<not> fs_closed (ip_heap (w_app w3) h')"
    with I show "concat (fs_client_out (ip_heap (w_app w3) h')) = delivered h' (w_trace w3)"
      by (auto simp: w3(1,4) split: if_splits)
  next
    fix h' assume "ip_next_ref (w_app w3) \<le> h'"
    with I show "delivered h' (w_trace w3) = []" by (simp add: w3(1,5))
  qed
  then show ?thesis
    using False by (simp add: fs_close_def Let_def w1_def w2_def w3_def)
qed (simp add: fs_close_def inv)

text \<open>The receive path needs memory: a block that cannot be had is lost to the client.\<close>

definition roomy :: "fgw_env \<Rightarrow> bool" where
  "roomy env \<longleftrightarrow> (\<forall>now m. m \<le> e_mb_space env now m)"

definition inport_gate :: "fgw_env \<Rightarrow> inport world \<Rightarrow> bool" where
  "inport_gate env w \<longleftrightarrow> (roomy env \<longrightarrow> inport_inv w)"

lemma inport_gate_quiet: "quiet w w' \<Longrightarrow> inport_gate env w \<Longrightarrow> inport_gate env w'"
  unfolding inport_gate_def quiet_def using neutral_inport_inv [of w w'] inport_inv_def [of w] by blast

lemma inport_gate_put:
  "inport_gate env w \<Longrightarrow> find_session k w = Some st0 \<Longrightarrow> st_handler st = st_handler st0 \<Longrightarrow>
   inport_gate env (put_session k st w)"
  unfolding inport_gate_def using inport_inv_put [of w st k] inport_inv_def [of w] by auto

lemma inport_gate_create:
  "inport_gate env w \<Longrightarrow> st_handler st = None \<Longrightarrow> inport_gate env (put_session k st w)"
  unfolding inport_gate_def using inport_inv_put [of w st k] by auto

lemma inport_inv_event:
  "(\<And>h. delivered h [e] = []) \<Longrightarrow> inport_inv w \<Longrightarrow> inport_inv (w\<lparr>w_trace := w_trace w @ [e]\<rparr>)"
  unfolding inport_inv_def by simp

lemma inport_gate_close:
  assumes "inport_gate env w" and wired: "wired_to inport_owns w" and own: "inport_owns w h k"
  shows "inport_gate env (fs_close env now h (w\<lparr>w_trace := w_trace w @ [EvClose h (snd k)]\<rparr>))"
proof -
  let ?w = "w\<lparr>w_trace := w_trace w @ [EvClose h (snd k)]\<rparr>"
  have own': "inport_owns ?w h' k' = inport_owns w h' k'" for h' k' by (simp add: inport_owns_def)
  then have "wired_to inport_owns ?w" "inport_owns ?w h k" using wired own by (simp_all add: wired_to_def)
  from inport_inv_fs_close [OF _ this] show ?thesis
    using assms(1) inport_inv_event [of "EvClose h (snd k)" w] by (simp add: inport_gate_def)
qed

interpretation inport_run: handler_invariant "inport_ops env now" inport_owns "inport_gate env" for env now
proof (unfold_locales, goal_cases)
  case (1 w w')
  then show ?case by (rule inport_gate_quiet)
next
  case (2 w k st0 st)
  then show ?case by (intro inport_gate_put)
next
  case (3 w k)
  then show ?case by (intro inport_gate_create) simp_all
next
  case (4 w k cb ho w')
  then show ?case by (simp add: inport_ops_def)
next
  case (5 w k)
  then show ?case using inport_inv_erase by (simp add: inport_gate_def)
next
  case (6 w h k b)
  then show ?case
    using inport_inv_data [of w h k env now b] by (simp add: inport_gate_def inport_ops_def roomy_def)
next
  case (7 w h k)
  then show ?case
    using inport_inv_event [of "EvOpen h (snd k)" w] by (simp add: inport_gate_def inport_ops_def)
next
  case (8 w h k)
  then show ?case
    using inport_gate_close [of env w h k now] by (simp add: inport_ops_def fs_onSessionClose_def)
qed

section \<open>Clients come, send and go\<close>

context session_handler
begin

lemma stream_inv_frame:
  assumes "stream_inv w" and fr: "handler_frame k w w'" and own: "\<And>h k. owns w h k \<Longrightarrow> owns w' h k"
  shows "stream_inv w'"
proof -
  have "wired w'"
    unfolding wired_to_def
  proof (intro allI impI)
    fix k' st' assume st': "find_session k' w' = Some st'"
    obtain st where st: "find_session k' w = Some st" "rx_part st' = rx_part st"
      using fr st' by (cases "k' = k") (auto simp: handler_frame_def)
    then show "st_session_id st' = snd k' \<and> (\<forall>h. st_handler st' = Some h \<longrightarrow> owns w' h k')"
      using wiredD [of w k' st] assms(1) own rx_part_fields [OF st(2)] by (auto simp: stream_inv_def)
  qed
  then show ?thesis
    using assms(1) handler_frame_rx [OF fr] handler_frame_dedup [OF fr] by (simp add: stream_inv_def)
qed

end

lemma inport_stream_frame:
  assumes "inport.stream_inv w" and "handler_frame k w w'"
    and "w_app w' = w_app w \<or> (\<forall>h k. inport_owns w h k \<longrightarrow> inport_owns w' h k)"
  shows "inport.stream_inv w'"
proof (rule inport.stream_inv_frame [OF assms(1,2)])
  fix h k'
  assume "inport_owns w h k'"
  moreover have "ds_local_ingress_id (w_ds w') = ds_local_ingress_id (w_ds w)"
    using assms(2) ds_rest_fields(1) [of "w_ds w'" "w_ds w"] by (simp add: handler_frame_def)
  ultimately show "inport_owns w' h k'"
    using assms(3) by (auto simp: inport_owns_def)
qed

lemma gate_client_read:
  assumes "inport_run.gate_inv env w"
  shows "inport_run.gate_inv env (client_on_read env now h buf w)"
proof -
  let ?w1 = "upd_fs h (\<lambda>s. s\<lparr>fs_bytes_recv := fs_bytes_recv s + of_nat (length buf)\<rparr>) w"
  have inv: "inport.stream_inv w" "inport_gate env w" using assms by (simp_all add: inport_run.gate_inv_def)
  have w1: "inport.stream_inv ?w1"
    by (rule inport_stream_frame [OF inv(1) handler_frame_app(2)]) (simp add: inport_owns_def)
  have "inport_inv w \<Longrightarrow> inport_inv ?w1"
    unfolding inport_inv_def by auto
  then have g1: "inport_gate env ?w1" using inv(2) by (simp add: inport_gate_def)
  have "inport_run.gate_inv env (snd (sendSessionData env now sid buf kFgwWireIngressUseLocal ?w1))" for sid
    using inport_stream_frame [OF w1 sendSessionData_frame [where sid = sid and key = kFgwWireIngressUseLocal and env = env and now = now and buf = buf]]
      g1 inport_inv_sendData by (auto simp: inport_run.gate_inv_def inport_gate_def)
  then show ?thesis
    using assms by (simp add: client_on_read_def fs_onClientBytes_def Let_def)
qed

lemma gate_fs_close:
  assumes "inport_run.gate_inv env w" and own: "inport_owns w h k"
  shows "inport_run.gate_inv env (fs_close env now h w)"
proof -
  have inv: "inport.stream_inv w" "inport_gate env w" "wired_to inport_owns w"
    using assms by (simp_all add: inport_run.gate_inv_def inport.stream_inv_def)
  have "inport.stream_inv (fs_close env now h w)"
    by (rule inport_stream_frame [OF inv(1) fs_close_frame [OF own]]) (simp add: fs_owns)
  then show ?thesis
    using inv(2) inport_inv_fs_close [OF _ inv(3) own] by (simp add: inport_run.gate_inv_def inport_gate_def)
qed

lemma handler_owned: "h < ip_next_ref (w_app w) \<Longrightarrow> \<exists>k. inport_owns w h k"
  by (simp add: inport_owns_def)

lemma gate_client_close:
  assumes "inport_run.gate_inv env w" and "h < ip_next_ref (w_app w)"
  shows "inport_run.gate_inv env (client_on_close env now h w)"
proof -
  obtain k where own: "inport_owns w h k" using handler_owned [OF assms(2)] by blast
  let ?w1 = "fs_close env now h w"
  note g = gate_fs_close [OF assms(1) own, of now]
  have "inport.stream_inv (upd_fs h (\<lambda>s. s\<lparr>fs_attached := False\<rparr>) ?w1)"
    by (rule inport_stream_frame [OF _ handler_frame_app(2)])
      (use g in \<open>auto simp: inport_run.gate_inv_def inport_owns_def\<close>)
  moreover have "inport_inv ?w1 \<Longrightarrow> inport_inv (upd_fs h (\<lambda>s. s\<lparr>fs_attached := False\<rparr>) ?w1)"
    unfolding inport_inv_def by auto
  ultimately show ?thesis
    using g assms(1) by (simp add: client_on_close_def inport_run.gate_inv_def inport_gate_def)
qed

lemma gate_accept:
  assumes "inport_run.gate_inv env w"
  shows "inport_run.gate_inv env (snd (inport_accept env now ts addr w))"
proof -
  let ?sid = "ip_next_session_id (w_app w)" and ?h = "ip_next_ref (w_app w)" and ?li = "ds_local_ingress_id (w_ds w)"
  let ?st = "SessionState_init\<lparr>st_session_id := ?sid, st_wire_ingress_id := ?li, st_handler := Some ?h, st_opened := True\<rparr>"
  define w1 where "w1 = upd_app (\<lambda>ip. ip\<lparr>ip_next_session_id := ?sid + 1, ip_heap := (ip_heap ip)(?h := \<lparr>fs_session_id = ?sid,
      fs_client_tcp = True, fs_attached = True, fs_client_addr = addr, fs_open_timestamp = ts, fs_bytes_sent = 0,
      fs_bytes_recv = 0, fs_closed = False, fs_client_out = []\<rparr>), ip_next_ref := Suc ?h,
      ip_sessions := smap_set ?sid ?h (ip_sessions ip)\<rparr>) w"
  have inv: "inport.stream_inv w" "inport_gate env w" "wired_to inport_owns w"
    using assms by (simp_all add: inport_run.gate_inv_def inport.stream_inv_def)
  have acc: "snd (inport_accept env now ts addr w) = snd (openSession env now ?sid (Some ?h) w1)"
    by (simp add: inport_accept_def inport_allocateSessionId_def bindClientTcp_def new_FgwSession_def w1_def
        upd_app_def Let_def)
  have old: "find_session k w = Some st \<Longrightarrow> st_handler st = Some h \<Longrightarrow> h < ?h" for k st h
    using inport.wiredD(2) [OF inv(3)] by (auto simp: inport_owns_def)
  have s1: "inport.stream_inv w1"
    unfolding w1_def by (rule inport_stream_frame [OF inv(1) handler_frame_app(1)]) (auto simp: inport_owns_def)
  have g1: "inport_inv w1" if "inport_inv w"
    unfolding inport_inv_def
  proof (intro conjI allI impI)
    note I = that [unfolded inport_inv_def]
    show "mgr_inv (w_mgr w1)" "smap_inv (ip_sessions (w_app w1))" using I by (simp_all add: w1_def smap_inv_set)
  next
    fix k st h assume "find_session k w1 = Some st" "st_handler st = Some h"
    then show "\<not> fs_closed (ip_heap (w_app w1) h)" "fs_client_tcp (ip_heap (w_app w1) h)"
      using that old unfolding inport_inv_def by (auto simp: w1_def)
  next
    fix sid h assume mem: "(sid, h) \<in> set (ip_sessions (w_app w1))"
    have "smap_inv (ip_sessions (w_app w))" using that by (simp add: inport_inv_def)
    from smap_set_entries [OF this, of sid h ?sid ?h] mem
    have "(sid, h) = (?sid, ?h) \<or> (sid, h) \<in> set (ip_sessions (w_app w))" by (simp add: w1_def)
    then show "h < ip_next_ref (w_app w1)" "fs_session_id (ip_heap (w_app w1) h) = sid"
      "\<not> fs_closed (ip_heap (w_app w1) h)"
      using that unfolding inport_inv_def by (auto simp: w1_def less_Suc_eq)
  next
    fix h assume "fs_client_tcp (ip_heap (w_app w1) h)" "\<not> fs_closed (ip_heap (w_app w1) h)"
    then show "concat (fs_client_out (ip_heap (w_app w1) h)) = delivered h (w_trace w1)"
      using that unfolding inport_inv_def by (auto simp: w1_def split: if_splits)
  next
    fix h assume "ip_next_ref (w_app w1) \<le> h"
    then show "delivered h (w_trace w1) = []" using that unfolding inport_inv_def by (simp add: w1_def)
  qed
  show ?thesis
  proof (cases "find_session (?li, ?sid) w1")
    case (Some st)
    then have "openSession env now ?sid (Some ?h) w1 = (errcode ERR_BUSY, w1)"
      by (simp add: openSession_def Let_def smap_count_def find_session_def w1_def)
    then show ?thesis
      using s1 g1 inv(2) unfolding acc by (simp add: inport_run.gate_inv_def inport_gate_def)
  next
    case None
    let ?w2 = "put_session (?li, ?sid) ?st w1"
    have li: "ds_local_ingress_id (w_ds w1) = ?li" by (simp add: w1_def)
    define m where "m = snd (sendSegment env now (w_ds ?w2) ?li ?sid 0 FLAG_SYN None (w_mgr w1))"
    have m: "mgr_inv (w_mgr w1) \<longrightarrow> mgr_inv m" unfolding m_def using mgr_inv_sendSegment by blast
    have "\<not> smap_count (ds_sessions (w_ds w1)) (?li, ?sid)"
      using None by (simp add: smap_count_def find_session_def)
    then have o2: "snd (openSession env now ?sid (Some ?h) w1) = upd_mgr (\<lambda>_. m) ?w2"
      unfolding openSession_def Let_def li m_def by (simp add: upd_mgr_def)
    have own: "inport_owns w1 ?h (?li, ?sid)" by (simp add: inport_owns_def w1_def)
    have "wired_to inport_owns ?w2"
      by (rule inport.calm_wired [OF inport.calm_put])
        (use s1 own in \<open>simp_all add: inport.stream_inv_def\<close>)
    moreover have "all_rx_ok ?w2"
      by (rule all_rx_ok_put) (use s1 in \<open>simp_all add: inport.stream_inv_def SessionState_init_def\<close>)
    moreover have "dedup_inv (w_ds ?w2)"
      using s1 dedup_inv_rest [OF ds_rest_put(1) [of "(?li, ?sid)" ?st w1]] unfolding inport.stream_inv_def by simp
    ultimately have "inport.stream_inv ?w2" by (simp only: inport.stream_inv_def)
    then have "inport.stream_inv (upd_mgr (\<lambda>_. m) ?w2)"
      by (rule inport_stream_frame [OF _ handler_frame_mgr]) simp
    moreover have "inport_inv (upd_mgr (\<lambda>_. m) ?w2)" if "inport_inv w"
      using inport_inv_put [OF g1 [OF that], of ?st "(?li, ?sid)"] m
      by (intro inport_inv_upd_mgr) (auto simp: w1_def)
    ultimately show ?thesis
      using inv(2) unfolding acc o2 by (simp add: inport_run.gate_inv_def inport_gate_def)
  qed
qed

lemma inport_close_all:
  assumes "inport_run.gate_inv env w" and "\<forall>(sid, h) \<in> set rs. h < ip_next_ref (w_app w)"
  shows "inport_run.gate_inv env (foldl (\<lambda>w kv. fs_close env now (snd kv) w) w rs)"
  using assms
proof (induction rs arbitrary: w)
  case (Cons kv rs)
  obtain sid h where kv: "kv = (sid, h)" by fastforce
  obtain k where "inport_owns w h k" using handler_owned Cons.prems(2) kv by fastforce
  from gate_fs_close [OF Cons.prems(1) this, of now]
  have "inport_run.gate_inv env (fs_close env now h w)" .
  moreover have "ip_next_ref (w_app (fs_close env now h w)) = ip_next_ref (w_app w)"
    by (simp add: fs_close_def inport_removeSession_def Let_def)
  ultimately show ?case using Cons kv by simp
qed simp

lemma gate_stop:
  assumes "inport_run.gate_inv env w" and "\<forall>(sid, h) \<in> set (ip_sessions (w_app w)). h < ip_next_ref (w_app w)"
  shows "inport_run.gate_inv env (inport_stop env now w)"
proof -
  let ?w1 = "upd_app (\<lambda>ip. ip\<lparr>ip_acceptor := False, ip_sessions := []\<rparr>) w"
  have "inport.stream_inv ?w1"
    by (rule inport_stream_frame [OF _ handler_frame_app(1)])
      (use assms in \<open>auto simp: inport_run.gate_inv_def inport_owns_def\<close>)
  moreover have "inport_inv w \<Longrightarrow> inport_inv ?w1"
    unfolding inport_inv_def by (simp add: smap_inv_def)
  ultimately have "inport_run.gate_inv env ?w1"
    using assms(1) by (simp add: inport_run.gate_inv_def inport_gate_def)
  then show ?thesis
    unfolding inport_stop_def Let_def by (rule inport_close_all) (use assms(2) in simp)
qed

lemma gate_listen:
  assumes "inport_run.gate_inv env w"
  shows "inport_run.gate_inv env (upd_app (\<lambda>ip. snd (inport_start env listen_ip port ip)) w)"
proof -
  let ?w = "upd_app (\<lambda>ip. snd (inport_start env listen_ip port ip)) w"
  have same: "ip_sessions (w_app ?w) = ip_sessions (w_app w)" "ip_heap (w_app ?w) = ip_heap (w_app w)"
    "ip_next_ref (w_app ?w) = ip_next_ref (w_app w)"
    by (simp_all add: inport_start_def)
  have "inport.stream_inv ?w"
    by (rule inport_stream_frame [OF _ handler_frame_app(1)])
      (use assms same in \<open>auto simp: inport_run.gate_inv_def inport_owns_def\<close>)
  moreover have "inport_inv w \<Longrightarrow> inport_inv ?w"
    using same unfolding inport_inv_def by simp
  ultimately show ?thesis
    using assms by (simp add: inport_run.gate_inv_def inport_gate_def)
qed

section \<open>Runs\<close>

text \<open>What can happen to a running Inport. \<open>mgr_step\<close> covers what happens to the links and their manager
  alone; handlers are named by the clients that exist.\<close>

inductive inport_step :: "fgw_env \<Rightarrow> inport host \<Rightarrow> inport host \<Rightarrow> bool" for env where
  links: "mgr_step env (w_mgr (host_world hst)) m \<Longrightarrow>
    inport_step env hst (hst\<lparr>host_world := upd_mgr (\<lambda>_. m) (host_world hst)\<rparr>)"
| link_bytes: "inport_step env hst (tcp_on_read_data env now (inport_ops env now) r sock buf hst)"
| heartbeat: "inport_step env hst (hst\<lparr>host_world := onHeartbeatTick env now (host_world hst)\<rparr>)"
| accept: "inport_step env hst (hst\<lparr>host_world := snd (inport_accept env now ts addr (host_world hst))\<rparr>)"
| client_bytes: "h < ip_next_ref (w_app (host_world hst)) \<Longrightarrow>
    inport_step env hst (hst\<lparr>host_world := client_on_read env now h buf (host_world hst)\<rparr>)"
| client_close: "h < ip_next_ref (w_app (host_world hst)) \<Longrightarrow>
    inport_step env hst (hst\<lparr>host_world := client_on_close env now h (host_world hst)\<rparr>)"
| listen: "inport_step env hst
    (hst\<lparr>host_world := upd_app (\<lambda>ip. snd (inport_start env listen_ip port ip)) (host_world hst)\<rparr>)"
| stop: "inport_step env hst (hst\<lparr>host_world := inport_stop env now (host_world hst)\<rparr>)"

text \<open>A fresh stream over a manager that is already running, as \<^verbatim>\<open>doBringup\<close> makes it.\<close>

definition inport_boot :: "u32 \<Rightarrow> u16 \<Rightarrow> u16 \<Rightarrow> bool \<Rightarrow> u32 \<Rightarrow> manager \<Rightarrow> inport host" where
  "inport_boot ingress_id segment_size recv_window crc route m =
     (case new_DataStream 0 ingress_id segment_size recv_window crc route m of
        (ds, m') \<Rightarrow> \<lparr>host_scratch = [], host_world = \<lparr>w_mgr = m', w_ds = ds, w_app = inport_init, w_trace = []\<rparr>\<rparr>)"

inductive inport_reachable :: "fgw_env \<Rightarrow> inport host \<Rightarrow> bool" for env where
  boot: "mgr_reachable env m \<Longrightarrow> inport_reachable env (inport_boot i seg win crc route m)"
| step: "inport_reachable env hst \<Longrightarrow> inport_step env hst hst' \<Longrightarrow> inport_reachable env hst'"

lemma inport_boot_inv:
  assumes "mgr_inv m"
  shows "inport_run.gate_inv env (host_world (inport_boot i seg win crc route m))"
proof -
  have "mgr_inv (addBytesSubscriber 0 m)" by (rule mgr_step_inv [OF mgr_step.subscribe assms])
  then show ?thesis
    by (simp add: inport_boot_def new_DataStream_def inport_run.gate_inv_def inport.stream_inv_def wired_to_def
        find_session_def all_rx_ok_def dedup_inv_def inport_gate_def inport_inv_def inport_init_def new_FgwSession_def)
qed

lemma inport_step_inv:
  "inport_step env hst hst' \<Longrightarrow> roomy env \<Longrightarrow> inport_run.gate_inv env (host_world hst) \<Longrightarrow>
   inport_run.gate_inv env (host_world hst')"
proof (induction rule: inport_step.induct)
  case (links hst m)
  then have "quiet (host_world hst) (upd_mgr (\<lambda>_. m) (host_world hst))"
    using mgr_step_inv mgr_step_wires by (intro quiet_upd_mgr)
  from inport_run.gate.I_quiet [OF this _ _ links.prems(2)] show ?case by simp
next
  case (stop hst now)
  have "inport_gate env (host_world hst)" using stop.prems(2) by (simp only: inport_run.gate_inv_def)
  with stop.prems(1) have "inport_inv (host_world hst)" by (simp only: inport_gate_def)
  then have "\<forall>(sid, h) \<in> set (ip_sessions (w_app (host_world hst))). h < ip_next_ref (w_app (host_world hst))"
    unfolding inport_inv_def by auto
  with stop gate_stop show ?case by simp
qed (simp_all add: inport_run.gate.I_read inport_run.gate.I_tick gate_accept gate_client_read gate_client_close gate_listen)

lemma inport_reachable_inv: "inport_reachable env hst \<Longrightarrow> roomy env \<Longrightarrow> inport_run.gate_inv env (host_world hst)"
proof (induction rule: inport_reachable.induct)
  case (boot m i seg win crc route)
  then show ?case by (intro inport_boot_inv mgr_reachable_inv)
next
  case (step hst hst')
  then show ?case using inport_step_inv by blast
qed

section \<open>What holds in every run\<close>

text \<open>C13: In every reachable state of an Inport gateway whose memory does not run out, each session is filed
  under its own id and buffers at most recv_window segments; a session that has a handler (one that a late
  segment made after a close has none) belongs to the FgwSession of that id, which is open and wrote to its
  client exactly what the stream delivered; the dedup table and queue hold at most kDedupRing keys.\<close>

theorem inport_runs_safe:
  assumes "inport_reachable env hst" and "roomy env" and "w = host_world hst"
  shows "(\<forall>k st. find_session k w = Some st \<longrightarrow>
      st_session_id st = snd k \<and> length (st_rx_buffer st) \<le> unat (ds_recv_window (w_ds w)) \<and>
      (\<forall>h. st_handler st = Some h \<longrightarrow> k = (ds_local_ingress_id (w_ds w), fs_session_id (ip_heap (w_app w) h)) \<and>
         \<not> fs_closed (ip_heap (w_app w) h) \<and>
         concat (fs_client_out (ip_heap (w_app w) h)) = delivered h (w_trace w))) \<and>
    length (ds_dedup_map (w_ds w)) \<le> kDedupRing \<and> length (ds_dedup_queue (w_ds w)) \<le> kDedupRing"
proof -
  have inv: "inport.stream_inv w" "inport_gate env w"
    using inport_reachable_inv [OF assms(1,2)] by (simp_all add: inport_run.gate_inv_def assms(3))
  then have app: "inport_inv w" using assms(2) by (simp only: inport_gate_def)
  have "length (ds_dedup_queue (w_ds w)) \<le> kDedupRing"
    using inv(1) by (simp add: inport.stream_inv_def dedup_inv_def)
  moreover have "st_session_id st = snd k \<and> length (st_rx_buffer st) \<le> unat (ds_recv_window (w_ds w)) \<and>
      (\<forall>h. st_handler st = Some h \<longrightarrow> k = (ds_local_ingress_id (w_ds w), fs_session_id (ip_heap (w_app w) h)) \<and>
         \<not> fs_closed (ip_heap (w_app w) h) \<and> concat (fs_client_out (ip_heap (w_app w) h)) = delivered h (w_trace w))"
    if st: "find_session k w = Some st" for k st
  proof (intro conjI allI impI)
    have wired: "wired_to inport_owns w" using inv(1) by (simp add: inport.stream_inv_def)
    note own = inport.wiredD [OF wired st]
    show "st_session_id st = snd k" by (rule own(1))
    show "length (st_rx_buffer st) \<le> unat (ds_recv_window (w_ds w))"
      by (rule inport.stream_inv_buffer [OF inv(1) st])
    fix h assume h: "st_handler st = Some h"
    show "k = (ds_local_ingress_id (w_ds w), fs_session_id (ip_heap (w_app w) h))"
      using own(2) [OF h] by (simp add: inport_owns_def)
    show "\<not> fs_closed (ip_heap (w_app w) h)" "concat (fs_client_out (ip_heap (w_app w) h)) = delivered h (w_trace w)"
      using app st h unfolding inport_inv_def by blast+
  qed
  ultimately show ?thesis using inport.stream_inv_dedup [OF inv(1)] by blast
qed

lemma roomy_open_env: "roomy open_env"
  by (simp add: roomy_def open_env_def)

lemma sample_receiver_reachable: "inport_reachable open_env \<lparr>host_scratch = [], host_world = sample_receiver\<rparr>"
proof -
  have boot: "inport_boot 7 2 16 True 0 sample_manager = \<lparr>host_scratch = [], host_world = sample_world\<rparr>"
    by (simp add: inport_boot_def sample_world_def sample_stream_def split: prod.split)
  have "inport_reachable open_env \<lparr>host_scratch = [], host_world = sample_world\<rparr>"
    unfolding boot [symmetric] by (rule inport_reachable.boot [OF sample_manager_reachable])
  from inport_reachable.step [OF this inport_step.accept [where now = 0 and ts = 0 and addr = "''client''"]]
  show ?thesis by (simp add: sample_receiver_def)
qed

theorem inport_runs_safe_witness:
  "\<exists>st. find_session (7, 1) sample_receiver = Some st \<and> st_handler st = Some 0 \<and>
     concat (fs_client_out (ip_heap (w_app sample_receiver) 0)) = delivered 0 (w_trace sample_receiver)"
  using inport_runs_safe [OF sample_receiver_reachable roomy_open_env refl] sample_receiver_facts(4) by simp

section \<open>From one gateway to the other\<close>

lemma arrive_gate:
  "inport_run.gate_inv env (host_world hst) \<Longrightarrow>
   inport_run.gate_inv env (host_world (foldl (arrive env now (inport_ops env now)) hst evs))"
proof (induction evs arbitrary: hst)
  case (Cons ev evs)
  obtain r buf where "ev = (r, buf)" by fastforce
  moreover have "inport_run.gate_inv env (host_world (onChannelBytes env now (inport_ops env now) r buf hst))"
    by (rule inport_run.gate.I_bytes [OF Cons.prems])
  ultimately show ?case using Cons.IH by (simp add: arrive_def)
qed simp

lemma client_holds_delivered:
  assumes "inport_reachable env hst" and "roomy env"
    and "w' = host_world (foldl (arrive env now (inport_ops env now)) hst evs)"
    and "\<exists>st. find_session k w' = Some st \<and> st_handler st = Some h"
  shows "concat (fs_client_out (ip_heap (w_app w') h)) = delivered h (w_trace w')"
proof -
  have "inport_gate env w'"
    using arrive_gate [OF inport_reachable_inv [OF assms(1,2)]] unfolding assms(3) inport_run.gate_inv_def by blast
  then have "inport_inv w'" using assms(2) by (simp only: inport_gate_def)
  then show ?thesis using assms(4) unfolding inport_inv_def by blast
qed

lemma client_holds_waiting:
  assumes "inport_reachable env hst" and "roomy env" and "awaiting s k h (host_world hst)"
  shows "concat (fs_client_out (ip_heap (w_app (host_world hst)) h)) = delivered h (w_trace (host_world hst))"
proof -
  have "\<exists>st. find_session k (host_world hst) = Some st \<and> st_handler st = Some h"
    using assms(3) by (auto simp: awaiting_def)
  then show ?thesis using client_holds_delivered [OF assms(1,2), of "host_world hst" now "[]"] by simp
qed

lemma sent_reaches_client:
  assumes "sender_ok env sid key ws" and "find_session (resolveIngressKey (w_ds ws) key, sid) ws = Some st"
    and "sent_on links (w_mgr ws) (w_mgr (send_all env now sid key bufs ws)) evs"
    and "inport_reachable env' hst" and "roomy env'"
    and "awaiting (st_next_send_seq st) (st_wire_ingress_id st, sid) h (host_world hst)"
    and "\<forall>r. scratch_of r hst = []"
    and "unat (st_next_send_seq st) + length (pieces_of ws bufs) + unat (ds_recv_window (w_ds (host_world hst))) \<le> 2 ^ 32"
    and "length (pieces_of ws bufs) \<le> unat (ds_recv_window (w_ds (host_world hst)))"
    and "\<forall>s \<in> set (liveChannels (w_mgr ws)). \<exists>r. links r = Some s"
    and "hst' = foldl (arrive env' now' (inport_ops env' now')) hst evs"
  shows "concat (fs_client_out (ip_heap (w_app (host_world hst')) h)) =
    concat (fs_client_out (ip_heap (w_app (host_world hst)) h)) @ concat bufs"
    and "awaiting (st_next_send_seq st + of_nat (length (pieces_of ws bufs))) (st_wire_ingress_id st, sid) h (host_world hst')"
    and "\<forall>r. scratch_of r hst' = []"
proof -
  have wired: "wired_to inport_owns (host_world hst)"
    using inport_reachable_inv [OF assms(4,5)] by (simp add: inport_run.gate_inv_def inport.stream_inv_def)
  have "\<exists>st'. find_session (st_wire_ingress_id st, sid) (host_world hst') = Some st' \<and> st_handler st' = Some h"
    unfolding assms(11) by (rule inport.end_to_end_so_far(2) [OF assms(1,2) sent_on_so_far [OF assms(3)] wired TrueI assms(6-8) TrueI])
  then have holds: "concat (fs_client_out (ip_heap (w_app (host_world hst')) h)) = delivered h (w_trace (host_world hst'))"
    by (rule client_holds_delivered [OF assms(4,5) arg_cong [where f = host_world, OF assms(11)]])
  have "\<forall>m. m \<le> e_mb_space env' now' m" using assms(5) by (simp add: roomy_def)
  then have all: "delivered h (w_trace (host_world hst')) = delivered h (w_trace (host_world hst)) @ concat bufs \<and>
      awaiting (st_next_send_seq st + of_nat (length (pieces_of ws bufs))) (st_wire_ingress_id st, sid) h (host_world hst')"
    unfolding assms(11) by (rule inport.end_to_end(1) [OF assms(1-3) wired TrueI assms(6-8) TrueI _ assms(9,10)])
  then show "concat (fs_client_out (ip_heap (w_app (host_world hst')) h)) =
      concat (fs_client_out (ip_heap (w_app (host_world hst)) h)) @ concat bufs"
    using holds client_holds_waiting [OF assms(4-6)] by simp
  show "awaiting (st_next_send_seq st + of_nat (length (pieces_of ws bufs))) (st_wire_ingress_id st, sid) h (host_world hst')"
    using all by blast
  show "\<forall>r. scratch_of r hst' = []"
    unfolding assms(11) by (rule inport.end_to_end(2) [OF assms(1-3) wired TrueI assms(6-8) TrueI])
qed

text \<open>C5: At every moment of a transfer, with any part of what was written on each link arrived and the rest on
  its way or lost with the link, and with the segment copies of the session duplicated, reordered between
  links or cut as the links like: what the Inport has added to what it wrote to its client is a whole number
  of the sender's pieces, in order, from the first one sent; nothing is made up, repeated, skipped or mixed.
  The sender's links accept its writes; the Inport is reachable, waits for the sender's number, is between
  frames on every link and does not run out of memory; the numbers end a receive window before 2^32.\<close>

theorem bytes_arrive_in_order:
  assumes "sender_ok env sid key ws" and "find_session (resolveIngressKey (w_ds ws) key, sid) ws = Some st"
    and "sent_so_far links (w_mgr ws) (w_mgr (send_all env now sid key bufs ws)) evs"
    and "inport_reachable env' hst" and "roomy env'"
    and "awaiting (st_next_send_seq st) (st_wire_ingress_id st, sid) h (host_world hst)"
    and "\<forall>r. scratch_of r hst = []"
    and "unat (st_next_send_seq st) + length (pieces_of ws bufs) + unat (ds_recv_window (w_ds (host_world hst))) \<le> 2 ^ 32"
    and "w' = host_world (foldl (arrive env' now' (inport_ops env' now')) hst evs)"
  shows "(\<exists>n. concat (fs_client_out (ip_heap (w_app w') h)) =
      concat (fs_client_out (ip_heap (w_app (host_world hst)) h)) @ concat (take n (pieces_of ws bufs))) \<and>
    concat (pieces_of ws bufs) = concat bufs"
proof -
  have wired: "wired_to inport_owns (host_world hst)"
    using inport_reachable_inv [OF assms(4,5)] by (simp add: inport_run.gate_inv_def inport.stream_inv_def)
  have "\<exists>st'. find_session (st_wire_ingress_id st, sid) w' = Some st' \<and> st_handler st' = Some h"
    unfolding assms(9) by (rule inport.end_to_end_so_far(2) [OF assms(1-3) wired TrueI assms(6-8) TrueI])
  then have "concat (fs_client_out (ip_heap (w_app w') h)) = delivered h (w_trace w')"
    by (rule client_holds_delivered [OF assms(4,5,9)])
  moreover have "concat (fs_client_out (ip_heap (w_app (host_world hst)) h)) = delivered h (w_trace (host_world hst))"
    by (rule client_holds_waiting [OF assms(4-6)])
  moreover have "\<exists>n. delivered h (w_trace w') = delivered h (w_trace (host_world hst)) @ concat (take n (pieces_of ws bufs))"
    unfolding assms(9) by (rule inport.end_to_end_so_far(1) [OF assms(1-3) wired TrueI assms(6-8) TrueI])
  moreover have "concat (pieces_of ws bufs) = concat bufs"
    using assms(1) by (intro pieces_of_whole) (simp add: sender_ok_def)
  ultimately show ?thesis by simp
qed

text \<open>C4: End to end: what a gateway passes to sendSessionData on a session, whatever sequence number it has
  reached, is appended whole and in order to what the client of the peer Inport already has, whatever of its
  segment copies the links duplicate, reorder against each other or cut into reads, provided the links of the
  sender accept writes and are all connected to the receiver, the pieces fit the receive window below the
  32-bit wrap and memory does not run out at the receiver, which may be in any reachable state that waits for
  that number of this session and is between frames on every link; it then waits for the number the sender has
  reached, with nothing left over.\<close>

theorem bytes_reach_the_client:
  assumes "sender_ok env sid key ws" and "find_session (resolveIngressKey (w_ds ws) key, sid) ws = Some st"
    and "sent_on links (w_mgr ws) (w_mgr (send_all env now sid key bufs ws)) evs"
    and "inport_reachable env' hst" and "roomy env'"
    and "awaiting (st_next_send_seq st) (st_wire_ingress_id st, sid) h (host_world hst)"
    and "\<forall>r. scratch_of r hst = []"
    and "unat (st_next_send_seq st) + length (pieces_of ws bufs) + unat (ds_recv_window (w_ds (host_world hst))) \<le> 2 ^ 32"
    and "length (pieces_of ws bufs) \<le> unat (ds_recv_window (w_ds (host_world hst)))"
    and "\<forall>s \<in> set (liveChannels (w_mgr ws)). \<exists>r. links r = Some s"
    and "hst' = foldl (arrive env' now' (inport_ops env' now')) hst evs"
  shows "concat (fs_client_out (ip_heap (w_app (host_world hst')) h)) =
      concat (fs_client_out (ip_heap (w_app (host_world hst)) h)) @ concat bufs \<and>
    awaiting (st_next_send_seq st + of_nat (length (pieces_of ws bufs))) (st_wire_ingress_id st, sid) h (host_world hst') \<and>
    (\<forall>r. scratch_of r hst' = [])"
  using sent_reaches_client [OF assms] by blast

text \<open>Both gateways concrete: a peer with one link sends four bytes in two buffers on session 1, as three
  segments, and the client of the Inport that was accepted first gets them.\<close>

definition sample_sent :: "(chan_ref \<times> bytes) list" where
  "sample_sent = [(0, concat (drop (length (ch_wire (m_heap sample_manager 0)))
     (ch_wire (m_heap (w_mgr (send_all open_env 0 1 7 [[1, 2, 3], [4]] (sample_sender sample_manager))) 0))))]"

lemma sample_sent_on:
  "sent_on (\<lambda>r. if r = 0 then Some 0 else None) (w_mgr (sample_sender sample_manager))
     (w_mgr (send_all open_env 0 1 7 [[1, 2, 3], [4]] (sample_sender sample_manager))) sample_sent"
  by (simp add: sent_on_def written_on_def sample_sent_def)

lemma sample_session_found:
  "find_session (resolveIngressKey (w_ds (sample_sender m)) 7, 1) (sample_sender m) =
     Some (SessionState_init\<lparr>st_session_id := 1, st_wire_ingress_id := 7, st_handler := None\<rparr>)"
  by (simp add: resolveIngressKey_def kFgwWireIngressUseLocal_def)

lemma sample_receiver_stream: "ds_recv_window (w_ds sample_receiver) = 16" "ds_dedup_map (w_ds sample_receiver) = []"
  using ds_rest_fields(2,3) [of "w_ds sample_receiver" sample_stream] sample_receiver_facts(3)
  by (simp_all add: ds_rest_def)

lemma sample_receiver_awaiting: "awaiting 0 (7, 1) 0 sample_receiver"
  using sample_receiver_facts by (simp add: awaiting_def sample_receiver_stream SessionState_init_def smap_count_def)

lemma sample_pieces: "pieces_of (sample_sender m) [[1, 2, 3], [4]] = [[1, 2], [3], [4]]"
  by (simp add: pieces_of_def cut.simps)

theorem bytes_reach_the_client_witness:
  "concat (fs_client_out (ip_heap (w_app (host_world (foldl (arrive open_env 0 (inport_ops open_env 0))
     \<lparr>host_scratch = [], host_world = sample_receiver\<rparr> sample_sent))) 0)) = [1, 2, 3, 4]"
  using bytes_reach_the_client [OF sample_sender_ok sample_session_found sample_sent_on sample_receiver_reachable
      roomy_open_env _ _ _ _ _ refl]
  by (simp add: sample_receiver_facts sample_receiver_awaiting sample_receiver_stream sample_pieces sample_manager_live scratch_of_def
      SessionState_init_def)

text \<open>The first 30 bytes of it have arrived: some whole pieces are with the client.\<close>

definition sample_sent_part :: "(chan_ref \<times> bytes) list" where
  "sample_sent_part = [(0, take 30 (snd (hd sample_sent)))]"

lemma sample_sent_part_on:
  "sent_so_far (\<lambda>r. if r = 0 then Some 0 else None) (w_mgr (sample_sender sample_manager))
     (w_mgr (send_all open_env 0 1 7 [[1, 2, 3], [4]] (sample_sender sample_manager))) sample_sent_part"
  unfolding sent_so_far_def sample_sent_part_def
  by (rule allI, rule_tac x = "if r = 0 then drop 30 (snd (hd sample_sent)) else []" in exI)
    (simp add: written_on_def sample_sent_def)

theorem bytes_arrive_in_order_witness:
  "\<exists>n. concat (fs_client_out (ip_heap (w_app (host_world (foldl (arrive open_env 0 (inport_ops open_env 0))
     \<lparr>host_scratch = [], host_world = sample_receiver\<rparr> sample_sent_part))) 0)) = concat (take n [[1, 2], [3], [4]])"
  using bytes_arrive_in_order [where h = 0 and now' = 0, OF sample_sender_ok sample_session_found sample_sent_part_on sample_receiver_reachable
      roomy_open_env _ _ _ refl]
  by (simp add: sample_receiver_facts sample_receiver_awaiting sample_receiver_stream sample_pieces scratch_of_def SessionState_init_def)

end
