(* ===== verification/Fgw_Outport.thy ===== *)
theory Fgw_Outport
  imports Fgw_InportRuns
begin

text \<open>
  The egress side, \<^verbatim>\<open>src/src/zfgw_outport.{h,cpp}\<close>: \<^verbatim>\<open>FgwRelaySession\<close>, the SOCKS5 server and relay of one
  session, and \<^verbatim>\<open>OutportService\<close>, which makes a relay for every session a peer opens. The application
  state of the world holds the relays as a heap, handlers are indices into it. \<^verbatim>\<open>remote_tcp_\<close> is the one
  connection a relay makes; what was written to it is kept as \<open>rs_remote_out\<close>. Clearing the owner of an
  \<^verbatim>\<open>OutboundTcp\<close> comes with dropping it, so its events are guarded by \<open>rs_remote_tcp\<close>.
\<close>

declare split_paired_All [simp del] split_paired_Ex [simp del]

section \<open>Data\<close>

definition SOCKS5_VER :: byte where "SOCKS5_VER = 0x05"
definition SOCKS5_CMD_CONNECT :: byte where "SOCKS5_CMD_CONNECT = 0x01"
definition SOCKS5_ATYP_IPV4 :: byte where "SOCKS5_ATYP_IPV4 = 0x01"
definition SOCKS5_ATYP_DOMAIN :: byte where "SOCKS5_ATYP_DOMAIN = 0x03"
definition SOCKS5_ATYP_IPV6 :: byte where "SOCKS5_ATYP_IPV6 = 0x04"
definition SOCKS5_REP_OK :: byte where "SOCKS5_REP_OK = 0x00"
definition SOCKS5_REP_HOSTUNREACH :: byte where "SOCKS5_REP_HOSTUNREACH = 0x04"
definition SOCKS5_REP_CMDNOTSUP :: byte where "SOCKS5_REP_CMDNOTSUP = 0x07"

lemmas socks_defs = SOCKS5_VER_def SOCKS5_CMD_CONNECT_def SOCKS5_ATYP_IPV4_def SOCKS5_ATYP_DOMAIN_def
  SOCKS5_ATYP_IPV6_def SOCKS5_REP_OK_def SOCKS5_REP_HOSTUNREACH_def SOCKS5_REP_CMDNOTSUP_def

datatype relay_state = ST_AWAIT_METHODS | ST_AWAIT_REQUEST | ST_CONNECTING | ST_RELAYING | ST_CLOSED

record FgwRelaySession =
  rs_peer_ingress_id :: u32
  rs_session_id :: u32
  rs_state :: relay_state
  rs_rx_buffer :: bytes
  rs_remote_tcp :: bool
  rs_remote_out :: "bytes list"
  rs_target_addr :: string
  rs_open_timestamp :: u32
  rs_bytes_sent :: u64
  rs_bytes_recv :: u64

record outport =
  op_sessions :: "(session_key, handler_ref) std_map"
  op_heap :: "handler_ref \<Rightarrow> FgwRelaySession"
  op_next_ref :: handler_ref

definition new_FgwRelaySession :: "u32 \<Rightarrow> u32 \<Rightarrow> u32 \<Rightarrow> FgwRelaySession" where
  "new_FgwRelaySession peer_ingress session_id timestamp =
     \<lparr>rs_peer_ingress_id = peer_ingress, rs_session_id = session_id, rs_state = ST_AWAIT_METHODS,
      rs_rx_buffer = [], rs_remote_tcp = False, rs_remote_out = [], rs_target_addr = [],
      rs_open_timestamp = timestamp, rs_bytes_sent = 0, rs_bytes_recv = 0\<rparr>"

definition outport_init :: outport where
  "outport_init = \<lparr>op_sessions = [], op_heap = (\<lambda>_. new_FgwRelaySession 0 0 0), op_next_ref = 0\<rparr>"

definition relay :: "handler_ref \<Rightarrow> outport world \<Rightarrow> FgwRelaySession" where
  "relay h w = op_heap (w_app w) h"

definition upd_rs :: "handler_ref \<Rightarrow> (FgwRelaySession \<Rightarrow> FgwRelaySession) \<Rightarrow> outport world \<Rightarrow> outport world" where
  "upd_rs h f w = upd_app (\<lambda>op. op\<lparr>op_heap := (op_heap op)(h := f (op_heap op h))\<rparr>) w"

section \<open>Text\<close>

text \<open>\<^verbatim>\<open>%u\<close> and \<^verbatim>\<open>std::to_string\<close>, \<^verbatim>\<open>%02x\<close>.\<close>

fun decimal :: "nat \<Rightarrow> string" where
  "decimal n = (if n < 10 then [char_of (48 + n)] else decimal (n div 10) @ [char_of (48 + n mod 10)])"

declare decimal.simps [simp del]

definition hex_digit :: "nat \<Rightarrow> char" where
  "hex_digit n = char_of (if n < 10 then 48 + n else 87 + n)"

definition hex_byte :: "byte \<Rightarrow> string" where
  "hex_byte b = [hex_digit (unat b div 16), hex_digit (unat b mod 16)]"

definition ipv4_text :: "bytes \<Rightarrow> string" where
  "ipv4_text a = decimal (unat (a ! 0)) @ ''.'' @ decimal (unat (a ! 1)) @ ''.'' @
     decimal (unat (a ! 2)) @ ''.'' @ decimal (unat (a ! 3))"

fun ipv6_text :: "bytes \<Rightarrow> string" where
  "ipv6_text (a # b # c # d # rest) = hex_byte a @ hex_byte b @ '':'' @ ipv6_text (c # d # rest)"
| "ipv6_text (a # b # rest) = hex_byte a @ hex_byte b"
| "ipv6_text rest = []"

definition domain_text :: "bytes \<Rightarrow> string" where
  "domain_text a = map (\<lambda>b. char_of (unat b)) a"

definition port_of :: "byte \<Rightarrow> byte \<Rightarrow> u16" where
  "port_of hi lo = push_bit 8 (ucast hi) OR ucast lo"

section \<open>FgwRelaySession\<close>

definition rs_sendToPeer :: "fgw_env \<Rightarrow> u32 \<Rightarrow> handler_ref \<Rightarrow> bytes \<Rightarrow> outport world \<Rightarrow> outport world" where
  "rs_sendToPeer env now h buf w =
     snd (sendSessionData env now (rs_session_id (relay h w)) buf (rs_peer_ingress_id (relay h w)) w)"

definition rs_writeReply :: "fgw_env \<Rightarrow> u32 \<Rightarrow> handler_ref \<Rightarrow> byte \<Rightarrow> outport world \<Rightarrow> outport world" where
  "rs_writeReply env now h rep w =
     rs_sendToPeer env now h [SOCKS5_VER, rep, 0x00, SOCKS5_ATYP_IPV4, 0, 0, 0, 0, 0, 0] w"

definition outport_removeSession :: "u32 \<Rightarrow> u32 \<Rightarrow> outport \<Rightarrow> outport" where
  "outport_removeSession peer_ingress session_id op =
     op\<lparr>op_sessions := smap_erase (peer_ingress, session_id) (op_sessions op)\<rparr>"

definition rs_close :: "fgw_env \<Rightarrow> u32 \<Rightarrow> handler_ref \<Rightarrow> outport world \<Rightarrow> outport world" where
  "rs_close env now h w =
     (let s = relay h w
      in if rs_state s = ST_CLOSED then w
         else
           let w = upd_rs h (\<lambda>s. s\<lparr>rs_state := ST_CLOSED\<rparr>) w;
               w = upd_rs h (\<lambda>s. s\<lparr>rs_remote_tcp := False\<rparr>) w;
               w = closeSession env now (rs_session_id s) (rs_peer_ingress_id s) w
           in upd_app (outport_removeSession (rs_peer_ingress_id s) (rs_session_id s)) w)"

definition rs_startConnect :: "fgw_env \<Rightarrow> u32 \<Rightarrow> handler_ref \<Rightarrow> string \<Rightarrow> u16 \<Rightarrow> outport world \<Rightarrow> outport world" where
  "rs_startConnect env now h host port w =
     (let w = upd_rs h (\<lambda>s. s\<lparr>rs_remote_tcp := True\<rparr>) w;
          ret = e_start_connect env now \<lparr>ep_host = host, ep_port = port\<rparr>
      in if ret < 0 then rs_close env now h (rs_writeReply env now h SOCKS5_REP_HOSTUNREACH w) else w)"

definition tryParseMethods :: "fgw_env \<Rightarrow> u32 \<Rightarrow> handler_ref \<Rightarrow> outport world \<Rightarrow> int \<times> outport world" where
  "tryParseMethods env now h w =
     (let rx = rs_rx_buffer (relay h w)
      in if length rx < 2 then (0, w)
         else if rx ! 0 \<noteq> SOCKS5_VER then (- 1, rs_close env now h w)
         else
           let nmethods = unat (rx ! 1)
           in if length rx < 2 + nmethods then (0, w)
              else
                let w = upd_rs h (\<lambda>s. s\<lparr>rs_rx_buffer := drop (2 + nmethods) rx\<rparr>) w;
                    w = rs_sendToPeer env now h [SOCKS5_VER, 0x00] w;
                    w = upd_rs h (\<lambda>s. s\<lparr>rs_state := ST_AWAIT_REQUEST\<rparr>) w
                in (int (2 + nmethods), w))"

text \<open>The first half of \<^verbatim>\<open>tryParseRequest\<close>, under the lock: what the buffer asks for.\<close>

datatype request =
  ReqMore
| ReqBadVersion
| ReqBadAddress
| ReqUnsupported (req_need: nat)
| ReqConnect (req_host: string) (req_port: u16) (req_need: nat)

definition addressed :: "byte \<Rightarrow> string \<Rightarrow> u16 \<Rightarrow> nat \<Rightarrow> request" where
  "addressed cmd host port need =
     (if cmd \<noteq> SOCKS5_CMD_CONNECT then ReqUnsupported need else ReqConnect host port need)"

definition scan_request :: "bytes \<Rightarrow> request" where
  "scan_request rx =
     (if length rx < 5 then ReqMore
      else if rx ! 0 \<noteq> SOCKS5_VER then ReqBadVersion
      else
        let cmd = rx ! 1; atyp = rx ! 3
        in if atyp = SOCKS5_ATYP_IPV4 then
             (if length rx < 4 + 4 + 2 then ReqMore
              else addressed cmd (ipv4_text (bslice 4 4 rx)) (port_of (rx ! 8) (rx ! 9)) (4 + 4 + 2))
           else if atyp = SOCKS5_ATYP_DOMAIN then
             (let dlen = unat (rx ! 4)
              in if length rx < 4 + 1 + dlen + 2 then ReqMore
                 else addressed cmd (domain_text (bslice 5 dlen rx)) (port_of (rx ! (5 + dlen)) (rx ! (5 + dlen + 1)))
                        (4 + 1 + dlen + 2))
           else if atyp = SOCKS5_ATYP_IPV6 then
             (if length rx < 4 + 16 + 2 then ReqMore
              else addressed cmd (ipv6_text (bslice 4 16 rx)) (port_of (rx ! (4 + 16)) (rx ! (4 + 17))) (4 + 16 + 2))
           else ReqBadAddress)"

definition tryParseRequest :: "fgw_env \<Rightarrow> u32 \<Rightarrow> handler_ref \<Rightarrow> outport world \<Rightarrow> int \<times> outport world" where
  "tryParseRequest env now h w =
     (case scan_request (rs_rx_buffer (relay h w)) of
        ReqMore \<Rightarrow> (0, w)
      | ReqBadVersion \<Rightarrow> (- 1, rs_close env now h w)
      | ReqBadAddress \<Rightarrow> (- 1, rs_close env now h (rs_writeReply env now h SOCKS5_REP_CMDNOTSUP w))
      | ReqUnsupported need \<Rightarrow>
          let w = upd_rs h (\<lambda>s. s\<lparr>rs_rx_buffer := drop need (rs_rx_buffer s)\<rparr>) w
          in (- 1, rs_close env now h (rs_writeReply env now h SOCKS5_REP_CMDNOTSUP w))
      | ReqConnect host port need \<Rightarrow>
          let w = upd_rs h (\<lambda>s. s\<lparr>rs_rx_buffer := drop need (rs_rx_buffer s),
                                   rs_target_addr := host @ '':'' @ decimal (unat port),
                                   rs_state := ST_CONNECTING\<rparr>) w
          in (int need, rs_startConnect env now h host port w))"

text \<open>Bytes for the target that are there, written as one block.\<close>

definition rs_flush :: "fgw_env \<Rightarrow> u32 \<Rightarrow> bool \<Rightarrow> handler_ref \<Rightarrow> outport world \<Rightarrow> outport world" where
  "rs_flush env now counted h w =
     (let data = rs_rx_buffer (relay h w);
          w = upd_rs h (\<lambda>s. s\<lparr>rs_rx_buffer := []\<rparr>) w
      in if data \<noteq> [] \<and> rs_remote_tcp (relay h w) \<and> length data \<le> e_mb_space env now (length data)
         then upd_rs h (\<lambda>s. s\<lparr>rs_remote_out := rs_remote_out s @ [data],
                               rs_bytes_sent := (if counted then rs_bytes_sent s + of_nat (length data)
                                                 else rs_bytes_sent s)\<rparr>) w
         else w)"

section \<open>The receive loop ends\<close>

lemma upd_rs_simps [simp]:
  "w_ds (upd_rs h f w) = w_ds w" "w_mgr (upd_rs h f w) = w_mgr w" "w_trace (upd_rs h f w) = w_trace w"
  "relay h' (upd_rs h f w) = (if h' = h then f (relay h w) else relay h' w)"
  "op_next_ref (w_app (upd_rs h f w)) = op_next_ref (w_app w)"
  "op_sessions (w_app (upd_rs h f w)) = op_sessions (w_app w)"
  by (simp_all add: upd_rs_def relay_def)

lemma find_session_upd_rs [simp]: "find_session k (upd_rs h g w) = find_session k w"
  by (simp add: upd_rs_def)

lemma relay_stream [simp]:
  "relay h (snd (sendSessionData env now sid buf key w)) = relay h w"
  "relay h (closeSession env now sid key w) = relay h w"
  "relay h (upd_app (outport_removeSession i s) w) = relay h w"
  by (simp_all add: relay_def outport_removeSession_def)

lemma relay_reply [simp]: "relay h' (rs_sendToPeer env now h buf w) = relay h' w"
  "relay h' (rs_writeReply env now h rep w) = relay h' w"
  by (simp_all add: rs_sendToPeer_def rs_writeReply_def)

lemma relay_close: "relay h' (rs_close env now h w) =
    (if h' = h \<and> rs_state (relay h w) \<noteq> ST_CLOSED
     then (relay h w)\<lparr>rs_state := ST_CLOSED, rs_remote_tcp := False\<rparr> else relay h' w)"
  by (simp add: rs_close_def Let_def)

definition rank :: "relay_state \<Rightarrow> nat" where
  "rank st = (case st of ST_AWAIT_METHODS \<Rightarrow> 2 | ST_AWAIT_REQUEST \<Rightarrow> 1 | _ \<Rightarrow> 0)"

lemma tryParse_progress:
  "(ret, w') = tryParseMethods env now h w \<Longrightarrow> 0 < ret \<Longrightarrow> rs_state (relay h w') = ST_AWAIT_REQUEST"
  "(ret, w') = tryParseRequest env now h w \<Longrightarrow> 0 < ret \<Longrightarrow> rs_state (relay h w') \<in> {ST_CONNECTING, ST_CLOSED}"
  by (auto simp: tryParseMethods_def tryParseRequest_def rs_startConnect_def relay_close Let_def
      split: request.splits if_splits)

function feed_loop :: "fgw_env \<Rightarrow> u32 \<Rightarrow> handler_ref \<Rightarrow> relay_state \<Rightarrow> outport world \<Rightarrow> outport world" where
  "feed_loop env now h st w =
     (case st of
        ST_AWAIT_METHODS \<Rightarrow>
          (case tryParseMethods env now h w of
             (ret, w') \<Rightarrow> if ret \<le> 0 then w' else feed_loop env now h (rs_state (relay h w')) w')
      | ST_AWAIT_REQUEST \<Rightarrow>
          (case tryParseRequest env now h w of
             (ret, w') \<Rightarrow> if ret \<le> 0 then w' else feed_loop env now h (rs_state (relay h w')) w')
      | ST_RELAYING \<Rightarrow> rs_flush env now True h w
      | _ \<Rightarrow> w)"
  by pat_completeness auto
termination
  by (relation "measure (\<lambda>(env, now, h, st, w). rank st)")
    (auto simp: rank_def not_le dest: tryParse_progress)

declare feed_loop.simps [simp del]

definition feedRx :: "fgw_env \<Rightarrow> u32 \<Rightarrow> handler_ref \<Rightarrow> bytes \<Rightarrow> outport world \<Rightarrow> outport world" where
  "feedRx env now h buf w =
     (let w = upd_rs h (\<lambda>s. s\<lparr>rs_rx_buffer := rs_rx_buffer s @ buf\<rparr>) w
      in feed_loop env now h (rs_state (relay h w)) w)"

section \<open>The connection to the target\<close>

definition rs_onRemoteOpen :: "fgw_env \<Rightarrow> u32 \<Rightarrow> handler_ref \<Rightarrow> outport world \<Rightarrow> outport world" where
  "rs_onRemoteOpen env now h w =
     (let w = rs_writeReply env now h SOCKS5_REP_OK w;
          w = upd_rs h (\<lambda>s. s\<lparr>rs_state := ST_RELAYING\<rparr>) w
      in rs_flush env now False h w)"

definition rs_onRemoteBytes :: "fgw_env \<Rightarrow> u32 \<Rightarrow> handler_ref \<Rightarrow> bytes \<Rightarrow> outport world \<Rightarrow> outport world" where
  "rs_onRemoteBytes env now h buf w =
     rs_sendToPeer env now h buf (upd_rs h (\<lambda>s. s\<lparr>rs_bytes_recv := rs_bytes_recv s + of_nat (length buf)\<rparr>) w)"

definition rs_onRemoteClose :: "fgw_env \<Rightarrow> u32 \<Rightarrow> handler_ref \<Rightarrow> outport world \<Rightarrow> outport world" where
  [simp]: "rs_onRemoteClose env now h w = rs_close env now h w"

text \<open>\<^verbatim>\<open>OutboundTcp::on_open\<close>, \<^verbatim>\<open>on_read_data\<close> and \<^verbatim>\<open>on_close\<close>\<close>

definition remote_on_open :: "fgw_env \<Rightarrow> u32 \<Rightarrow> handler_ref \<Rightarrow> outport world \<Rightarrow> outport world" where
  "remote_on_open env now h w = (if rs_remote_tcp (relay h w) then rs_onRemoteOpen env now h w else w)"

definition remote_on_read :: "fgw_env \<Rightarrow> u32 \<Rightarrow> handler_ref \<Rightarrow> bytes \<Rightarrow> outport world \<Rightarrow> outport world" where
  "remote_on_read env now h buf w = (if rs_remote_tcp (relay h w) then rs_onRemoteBytes env now h buf w else w)"

definition remote_on_close :: "fgw_env \<Rightarrow> u32 \<Rightarrow> handler_ref \<Rightarrow> outport world \<Rightarrow> outport world" where
  "remote_on_close env now h w = (if rs_remote_tcp (relay h w) then rs_onRemoteClose env now h w else w)"

section \<open>OutportService\<close>

definition outport_ensureSession :: "u32 \<Rightarrow> u32 \<Rightarrow> u32 \<Rightarrow> outport \<Rightarrow> handler_ref \<times> outport" where
  "outport_ensureSession timestamp peer_ingress session_id op =
     (case smap_find (op_sessions op) (peer_ingress, session_id) of
        Some h \<Rightarrow> (h, op)
      | None \<Rightarrow>
          let h = op_next_ref op
          in (h, op\<lparr>op_heap := (op_heap op)(h := new_FgwRelaySession peer_ingress session_id timestamp),
                    op_next_ref := Suc h, op_sessions := smap_set (peer_ingress, session_id) h (op_sessions op)\<rparr>))"

definition outport_snapshotSessions :: "outport \<Rightarrow> FgwRelaySession list" where
  "outport_snapshotSessions op = map (\<lambda>(k, h). op_heap op h) (op_sessions op)"

text \<open>\<^verbatim>\<open>dataStreamHook\<close>: the callback \<^verbatim>\<open>start\<close> installs.\<close>

definition outport_unknown ::
  "u32 \<Rightarrow> u32 \<Rightarrow> u32 \<Rightarrow> outport world \<Rightarrow> handler_ref option \<times> outport world" where
  "outport_unknown timestamp peer_ingress session_id w =
     (case outport_ensureSession timestamp peer_ingress session_id (w_app w) of
        (h, op) \<Rightarrow> (Some h, w\<lparr>w_app := op\<rparr>))"

definition outport_ops :: "fgw_env \<Rightarrow> u32 \<Rightarrow> u32 \<Rightarrow> outport session_ops" where
  "outport_ops env now timestamp =
     \<lparr>so_open = (\<lambda>h sid w. w), so_data = (\<lambda>h sid buf w. feedRx env now h buf w),
      so_close = (\<lambda>h sid w. rs_close env now h w), so_unknown = Some (outport_unknown timestamp)\<rparr>"

definition outport_stop :: "fgw_env \<Rightarrow> u32 \<Rightarrow> outport world \<Rightarrow> outport world" where
  "outport_stop env now w =
     (let copy = op_sessions (w_app w);
          w = upd_app (\<lambda>op. op\<lparr>op_sessions := []\<rparr>) w
      in foldl (\<lambda>w kv. rs_close env now (snd kv) w) w copy)"

end
