(* ===== verification/Fgw_Socks.thy ===== *)
theory Fgw_Socks
  imports Fgw_Outport
begin

text \<open>
  The SOCKS5 server of a relay: it does not depend on how the bytes are cut, reads what RFC 1928 has a
  client write, answers every error as the code means to, and its state only moves forward.
\<close>

declare split_paired_All [simp del] split_paired_Ex [simp del]

section \<open>The stream's operations leave the relays alone\<close>

lemma upd_app_twice [simp]: "upd_app f (upd_app g w) = upd_app (\<lambda>a. f (g a)) w"
  by (simp add: upd_app_def)

lemma sendSessionData_upd_app:
  "sendSessionData env now sid buf key (upd_app f w) =
   (fst (sendSessionData env now sid buf key w), upd_app f (snd (sendSessionData env now sid buf key w)))"
  by (simp add: sendSessionData_def Let_def upd_app_def put_session_def upd_ds_def upd_mgr_def find_session_def
      split: option.split prod.split)

lemma closeSession_upd_app:
  "closeSession env now sid key (upd_app f w) = upd_app f (closeSession env now sid key w)"
  by (simp add: closeSession_def Let_def upd_app_def erase_session_def upd_ds_def upd_mgr_def find_session_def
      split: option.split)

lemma upd_rs_twice: "upd_rs h f (upd_rs h g w) = upd_rs h (\<lambda>s. f (g s)) w"
  by (simp add: upd_rs_def)

lemma upd_rs_cong: "f (relay h w) = g (relay h w) \<Longrightarrow> upd_rs h f w = upd_rs h g w"
  by (simp add: upd_rs_def upd_app_def relay_def)

text \<open>Bytes appended to the receive buffer of a relay.\<close>

definition add_rx :: "bytes \<Rightarrow> FgwRelaySession \<Rightarrow> FgwRelaySession" where
  "add_rx b s = s\<lparr>rs_rx_buffer := rs_rx_buffer s @ b\<rparr>"

definition more_rx :: "handler_ref \<Rightarrow> bytes \<Rightarrow> outport world \<Rightarrow> outport world" where
  "more_rx h b w = upd_rs h (add_rx b) w"

lemma add_rx_simps [simp]:
  "rs_rx_buffer (add_rx b s) = rs_rx_buffer s @ b" "rs_state (add_rx b s) = rs_state s"
  "rs_session_id (add_rx b s) = rs_session_id s" "rs_peer_ingress_id (add_rx b s) = rs_peer_ingress_id s"
  "rs_remote_tcp (add_rx b s) = rs_remote_tcp s" "add_rx b (add_rx a s) = add_rx (a @ b) s"
  by (simp_all add: add_rx_def)

lemma more_rx_simps [simp]: "relay h (more_rx h b w) = add_rx b (relay h w)"
  "more_rx h b (more_rx h a w) = more_rx h (a @ b) w"
  by (simp_all add: more_rx_def upd_rs_twice)

lemma upd_rs_more:
  "f (add_rx b (relay h w)) = add_rx b (g (relay h w)) \<Longrightarrow> upd_rs h f (more_rx h b w) = more_rx h b (upd_rs h g w)"
  unfolding more_rx_def upd_rs_twice by (rule upd_rs_cong)

lemma send_more: "rs_sendToPeer env now h buf (more_rx h b w) = more_rx h b (rs_sendToPeer env now h buf w)"
proof -
  have "snd (sendSessionData env now sid buf key (more_rx h b w)) = more_rx h b (snd (sendSessionData env now sid buf key w))"
    for sid key unfolding more_rx_def upd_rs_def sendSessionData_upd_app by simp
  then show ?thesis by (simp add: rs_sendToPeer_def)
qed

lemma reply_more: "rs_writeReply env now h rep (more_rx h b w) = more_rx h b (rs_writeReply env now h rep w)"
  by (simp add: rs_writeReply_def send_more)

lemma close_more: "rs_close env now h (more_rx h b w) = more_rx h b (rs_close env now h w)"
proof -
  have close: "closeSession env now sid key (more_rx h b v) = more_rx h b (closeSession env now sid key v)" for sid key v
    unfolding more_rx_def upd_rs_def closeSession_upd_app ..
  have remove: "upd_app (outport_removeSession i s) (more_rx h b v) = more_rx h b (upd_app (outport_removeSession i s) v)"
    for i s v by (simp add: more_rx_def upd_rs_def outport_removeSession_def)
  have state: "upd_rs h (\<lambda>s. s\<lparr>rs_state := st\<rparr>) (more_rx h b v) = more_rx h b (upd_rs h (\<lambda>s. s\<lparr>rs_state := st\<rparr>) v)"
    "upd_rs h (\<lambda>s. s\<lparr>rs_remote_tcp := x\<rparr>) (more_rx h b v) = more_rx h b (upd_rs h (\<lambda>s. s\<lparr>rs_remote_tcp := x\<rparr>) v)"
    for st x v by (rule upd_rs_more, simp add: add_rx_def)+
  show ?thesis
    by (simp add: rs_close_def Let_def state close remove)
qed

lemma connect_more: "rs_startConnect env now h host port (more_rx h b w) = more_rx h b (rs_startConnect env now h host port w)"
proof -
  have "upd_rs h (\<lambda>s. s\<lparr>rs_remote_tcp := True\<rparr>) (more_rx h b w) = more_rx h b (upd_rs h (\<lambda>s. s\<lparr>rs_remote_tcp := True\<rparr>) w)"
    by (rule upd_rs_more) (simp add: add_rx_def)
  then show ?thesis by (simp add: rs_startConnect_def Let_def reply_more close_more)
qed

section \<open>Chunks\<close>

text \<open>What a parser decides on a buffer, it decides on every longer one.\<close>

lemma bslice_append: "i + n \<le> length a \<Longrightarrow> bslice i n (a @ b) = bslice i n a"
  by (simp add: bslice_def)

lemma nth_append_front: "i < length a \<Longrightarrow> (a @ b) ! i = a ! i"
  by (simp add: nth_append)

lemma scan_request_stable: "scan_request a \<noteq> ReqMore \<Longrightarrow> scan_request (a @ b) = scan_request a"
proof -
  assume dec: "scan_request a \<noteq> ReqMore"
  have five: "5 \<le> length a"
  proof (rule ccontr)
    assume "\<not> 5 \<le> length a"
    then have "scan_request a = ReqMore" by (simp add: scan_request_def)
    with dec show False by simp
  qed
  then have nth: "(a @ b) ! 0 = a ! 0" "(a @ b) ! 1 = a ! 1" "(a @ b) ! 3 = a ! 3" "(a @ b) ! 4 = a ! 4"
    by (intro nth_append_front, linarith)+
  have longer: "\<not> length (a @ b) < 5" "\<not> length a < 5" using five by simp_all
  let ?known = "a ! 3 \<in> {SOCKS5_ATYP_IPV4, SOCKS5_ATYP_DOMAIN, SOCKS5_ATYP_IPV6}"
  consider "a ! 0 \<noteq> SOCKS5_VER \<or> \<not> ?known" | "a ! 0 = SOCKS5_VER" "a ! 3 = SOCKS5_ATYP_IPV4"
    | "a ! 0 = SOCKS5_VER" "a ! 3 = SOCKS5_ATYP_DOMAIN" | "a ! 0 = SOCKS5_VER" "a ! 3 = SOCKS5_ATYP_IPV6"
    by blast
  then show ?thesis
  proof cases
    case 1
    then show ?thesis using longer by (auto simp: scan_request_def nth)
  next
    case 2
    then have "4 + 4 + 2 \<le> length a" using dec longer by (auto simp: scan_request_def split: if_splits)
    then show ?thesis using 2 longer by (simp add: scan_request_def nth nth_append_front bslice_append)
  next
    case 3
    then have "4 + 1 + unat (a ! 4) + 2 \<le> length a"
      using dec longer by (auto simp: scan_request_def socks_defs Let_def split: if_splits)
    then show ?thesis using 3 longer
      by (simp add: scan_request_def socks_defs nth nth_append_front bslice_append Let_def)
  next
    case 4
    then have "4 + 16 + 2 \<le> length a" using dec longer by (auto simp: scan_request_def socks_defs split: if_splits)
    then show ?thesis using 4 longer by (simp add: scan_request_def socks_defs nth nth_append_front bslice_append)
  qed
qed

lemma scan_request_need:
  "scan_request a = ReqUnsupported n \<Longrightarrow> n \<le> length a"
  "scan_request a = ReqConnect host port n \<Longrightarrow> 0 < n \<and> n \<le> length a"
  by (auto simp: scan_request_def addressed_def Let_def split: if_splits)

lemma methods_more:
  assumes "tryParseMethods env now h w = (ret, w')" and "ret \<noteq> 0"
  shows "tryParseMethods env now h (more_rx h b w) = (ret, more_rx h b w')"
proof -
  let ?rx = "rs_rx_buffer (relay h w)"
  have len: "2 \<le> length ?rx"
    using assms by (auto simp: tryParseMethods_def Let_def split: if_splits)
  show ?thesis
  proof (cases "?rx ! 0 = SOCKS5_VER")
    case False
    moreover have "(?rx @ b) ! 0 = ?rx ! 0" using len by (intro nth_append_front) linarith
    ultimately show ?thesis using assms len by (auto simp: tryParseMethods_def close_more)
  next
    case True
    let ?n = "2 + unat (?rx ! 1)"
    have n: "?n \<le> length ?rx"
      using assms len True by (auto simp: tryParseMethods_def Let_def split: if_splits)
    have nth: "(?rx @ b) ! 0 = ?rx ! 0" "(?rx @ b) ! 1 = ?rx ! 1" using len by (intro nth_append_front, linarith)+
    have drop: "upd_rs h (\<lambda>s. s\<lparr>rs_rx_buffer := drop ?n (?rx @ b)\<rparr>) (more_rx h b w) =
        more_rx h b (upd_rs h (\<lambda>s. s\<lparr>rs_rx_buffer := drop ?n ?rx\<rparr>) w)"
      using n by (intro upd_rs_more) (simp add: add_rx_def)
    have state: "upd_rs h (\<lambda>s. s\<lparr>rs_state := st\<rparr>) (more_rx h b v) = more_rx h b (upd_rs h (\<lambda>s. s\<lparr>rs_state := st\<rparr>) v)"
      for st v by (rule upd_rs_more) (simp add: add_rx_def)
    show ?thesis
      using assms(1) len True n unfolding tryParseMethods_def Let_def more_rx_simps add_rx_simps nth
      by (simp only: drop send_more state length_append) auto
  qed
qed

lemma request_more:
  assumes "tryParseRequest env now h w = (ret, w')" and "ret \<noteq> 0"
  shows "tryParseRequest env now h (more_rx h b w) = (ret, more_rx h b w')"
proof -
  let ?rx = "rs_rx_buffer (relay h w)"
  have scan: "scan_request (?rx @ b) = scan_request ?rx"
    using assms by (intro scan_request_stable) (auto simp: tryParseRequest_def)
  have drop: "upd_rs h (\<lambda>s. s\<lparr>rs_rx_buffer := drop n (rs_rx_buffer s)\<rparr>) (more_rx h b w) =
      more_rx h b (upd_rs h (\<lambda>s. s\<lparr>rs_rx_buffer := drop n (rs_rx_buffer s)\<rparr>) w)"
    "upd_rs h (\<lambda>s. s\<lparr>rs_rx_buffer := drop n (rs_rx_buffer s), rs_target_addr := t, rs_state := st\<rparr>) (more_rx h b w) =
      more_rx h b (upd_rs h (\<lambda>s. s\<lparr>rs_rx_buffer := drop n (rs_rx_buffer s), rs_target_addr := t, rs_state := st\<rparr>) w)"
    if "n \<le> length ?rx" for n t st
    using that by (auto simp: add_rx_def intro!: upd_rs_more FgwRelaySession.equality)
  show ?thesis
  proof (cases "scan_request ?rx")
    case ReqMore
    then show ?thesis using assms by (simp add: tryParseRequest_def)
  next
    case (ReqUnsupported n)
    then show ?thesis
      using assms(1) scan_request_need(1) [OF ReqUnsupported] drop(1)
      by (auto simp: tryParseRequest_def scan Let_def close_more reply_more)
  next
    case (ReqConnect host port n)
    then show ?thesis
      using assms(1) scan_request_need(2) [OF ReqConnect] drop(2)
      by (auto simp: tryParseRequest_def scan Let_def connect_more)
  qed (use assms(1) in \<open>auto simp: tryParseRequest_def scan close_more reply_more\<close>)
qed

text \<open>Appending bytes commutes with the loop, until the session relays.\<close>

lemma methods_step:
  assumes "tryParseMethods env now h w = (ret, w')"
  shows "ret = 0 \<and> w' = w \<or> ret < 0 \<and> rs_state (relay h w') = ST_CLOSED \<or>
    0 < ret \<and> rs_state (relay h w') = ST_AWAIT_REQUEST"
proof -
  have pos: "0 < 2 + uint b" for b :: byte using uint_ge_0 [of b] by linarith
  show ?thesis
    using assms by (auto simp: tryParseMethods_def relay_close Let_def pos split: if_splits)
qed

lemma request_step:
  assumes "tryParseRequest env now h w = (ret, w')"
  shows "ret = 0 \<and> w' = w \<or> ret < 0 \<and> rs_state (relay h w') = ST_CLOSED \<or>
    0 < ret \<and> rs_state (relay h w') \<in> {ST_CONNECTING, ST_CLOSED}"
proof (cases "scan_request (rs_rx_buffer (relay h w))")
  case (ReqConnect host port n)
  then show ?thesis
    using assms scan_request_need(2) [OF ReqConnect]
    by (auto simp: tryParseRequest_def rs_startConnect_def relay_close Let_def split: if_splits)
qed (use assms in \<open>auto simp: tryParseRequest_def relay_close Let_def\<close>)

lemma feed_loop_stop [simp]:
  "feed_loop env now h ST_CONNECTING w = w" "feed_loop env now h ST_CLOSED w = w"
  "feed_loop env now h ST_RELAYING w = rs_flush env now True h w"
  by (simp_all add: feed_loop.simps)

lemma request_loop:
  assumes "rs_state (relay h w) = ST_AWAIT_REQUEST"
  shows "feed_loop env now h (rs_state (relay h (feed_loop env now h ST_AWAIT_REQUEST w)))
      (more_rx h b (feed_loop env now h ST_AWAIT_REQUEST w)) = feed_loop env now h ST_AWAIT_REQUEST (more_rx h b w)"
proof -
  obtain ret w' where p: "tryParseRequest env now h w = (ret, w')" by fastforce
  show ?thesis
  proof (cases "ret = 0")
    case True
    have "w' = w" using request_step [OF p] True by simp
    then show ?thesis using p True assms by (simp add: feed_loop.simps [of _ _ _ ST_AWAIT_REQUEST w])
  next
    case False
    note m = request_more [OF p False, of b]
    show ?thesis
    proof (cases "0 < ret")
      case True
      then show ?thesis
        using p m request_step [OF p] True by (auto simp: feed_loop.simps [of _ _ _ ST_AWAIT_REQUEST])
    next
      case neg: False
      then show ?thesis
        using p m request_step [OF p] False by (auto simp: feed_loop.simps [of _ _ _ ST_AWAIT_REQUEST])
    qed
  qed
qed

lemma methods_loop:
  assumes "rs_state (relay h w) = ST_AWAIT_METHODS"
  shows "feed_loop env now h (rs_state (relay h (feed_loop env now h ST_AWAIT_METHODS w)))
      (more_rx h b (feed_loop env now h ST_AWAIT_METHODS w)) = feed_loop env now h ST_AWAIT_METHODS (more_rx h b w)"
proof -
  obtain ret w' where p: "tryParseMethods env now h w = (ret, w')" by fastforce
  show ?thesis
  proof (cases "ret = 0")
    case True
    have "w' = w" using methods_step [OF p] True by simp
    then show ?thesis using p True assms by (simp add: feed_loop.simps [of _ _ _ ST_AWAIT_METHODS w])
  next
    case False
    note m = methods_more [OF p False, of b]
    show ?thesis
    proof (cases "0 < ret")
      case True
      then show ?thesis
        using p m methods_step [OF p] True request_loop [of h w' env now b]
        by (simp add: feed_loop.simps [of _ _ _ ST_AWAIT_METHODS])
    next
      case neg: False
      then show ?thesis
        using p m methods_step [OF p] False by (auto simp: feed_loop.simps [of _ _ _ ST_AWAIT_METHODS])
    qed
  qed
qed

lemma feedRx_more: "feedRx env now h buf w = feed_loop env now h (rs_state (relay h w)) (more_rx h buf w)"
  by (simp add: feedRx_def more_rx_def add_rx_def [abs_def])

lemma feedRx_append:
  assumes "rs_state (relay h w) \<noteq> ST_RELAYING"
  shows "feedRx env now h b (feedRx env now h a w) = feedRx env now h (a @ b) w"
  using methods_loop [of h "more_rx h a w"] request_loop [of h "more_rx h a w"] assms
  by (cases "rs_state (relay h w)") (simp_all add: feedRx_more)

lemma feedRx_chunks:
  assumes "rs_state (relay h w) \<noteq> ST_RELAYING" and "chunks \<noteq> []"
  shows "foldl (\<lambda>w c. feedRx env now h c w) w chunks = feedRx env now h (concat chunks) w"
  using assms(2)
proof (induction chunks rule: rev_induct)
  case (snoc c cs)
  show ?case
  proof (cases "cs = []")
    case False
    then have "foldl (\<lambda>w c. feedRx env now h c w) w (cs @ [c]) = feedRx env now h c (feedRx env now h (concat cs) w)"
      using snoc.IH by simp
    then show ?thesis using feedRx_append [OF assms(1)] by simp
  qed simp
qed simp

section \<open>What a client writes, RFC 1928\<close>

datatype socks_addr = IPv4 bytes | Domain bytes | IPv6 bytes

fun addr_ok :: "socks_addr \<Rightarrow> bool" where
  "addr_ok (IPv4 a) = (length a = 4)"
| "addr_ok (Domain a) = (length a < 256)"
| "addr_ok (IPv6 a) = (length a = 16)"

fun addr_bytes :: "socks_addr \<Rightarrow> bytes" where
  "addr_bytes (IPv4 a) = 1 # a"
| "addr_bytes (Domain a) = 3 # of_nat (length a) # a"
| "addr_bytes (IPv6 a) = 4 # a"

fun addr_text :: "socks_addr \<Rightarrow> string" where
  "addr_text (IPv4 a) = ipv4_text a"
| "addr_text (Domain a) = domain_text a"
| "addr_text (IPv6 a) = ipv6_text a"

definition greeting :: "bytes \<Rightarrow> bytes" where
  "greeting methods = 5 # of_nat (length methods) # methods"

definition client_request :: "byte \<Rightarrow> socks_addr \<Rightarrow> u16 \<Rightarrow> bytes" where
  "client_request cmd a port = [5, cmd, 0] @ addr_bytes a @ [ucast (drop_bit 8 port), ucast port]"

lemma port_of_bytes: "port_of (ucast (drop_bit 8 port)) (ucast port) = port"
  unfolding port_of_def by (rule bit_word_eqI) (auto simp: bit_simps)

lemma scan_client_request:
  assumes "addr_ok a"
  shows "scan_request (client_request cmd a port @ rest) =
    addressed cmd (addr_text a) port (length (client_request cmd a port))"
proof (cases a)
  case (IPv4 x)
  then obtain x0 x1 x2 x3 where "x = [x0, x1, x2, x3]"
    using assms by (auto simp: length_Suc_conv eval_nat_numeral)
  then show ?thesis
    using IPv4 by (simp add: scan_request_def client_request_def socks_defs port_of_bytes bslice_def Let_def)
      (simp add: eval_nat_numeral)
next
  case (Domain x)
  then have n: "unat (of_nat (length x) :: byte) = length x"
    using assms by (simp add: unat_of_nat)
  have "(5 # cmd # 0 # 3 # of_nat (length x) # x @ p # q # rest) ! (5 + length x) = p"
    "(5 # cmd # 0 # 3 # of_nat (length x) # x @ p # q # rest) ! (5 + length x + 1) = q" for p q :: byte
    by (simp_all add: nth_append)
  then show ?thesis
    using Domain n by (simp add: scan_request_def client_request_def socks_defs port_of_bytes bslice_def Let_def)
      (simp add: eval_nat_numeral)
next
  case (IPv6 x)
  have "(5 # cmd # 0 # 4 # x @ p # q # rest) ! (4 + 16) = p" "(5 # cmd # 0 # 4 # x @ p # q # rest) ! (4 + 17) = q"
    for p q using assms IPv6 by (simp_all add: nth_append)
  then show ?thesis
    using assms IPv6 by (simp add: scan_request_def client_request_def socks_defs port_of_bytes bslice_def Let_def)
qed

section \<open>What a relay makes of the bytes it was given\<close>

text \<open>State, target and buffer of a relay that was given \<open>d\<close> in all and is not connected yet.\<close>

definition after_greeting :: "bytes \<Rightarrow> relay_state \<times> string \<times> bytes" where
  "after_greeting d =
     (case scan_request d of
        ReqMore \<Rightarrow> (ST_AWAIT_REQUEST, [], d)
      | ReqConnect host port need \<Rightarrow> (ST_CONNECTING, host @ '':'' @ decimal (unat port), drop need d)
      | _ \<Rightarrow> (ST_CLOSED, [], d))"

definition socks_view :: "bytes \<Rightarrow> relay_state \<times> string \<times> bytes" where
  "socks_view d =
     (if length d < 2 then (ST_AWAIT_METHODS, [], d)
      else if d ! 0 \<noteq> SOCKS5_VER then (ST_CLOSED, [], d)
      else if length d < 2 + unat (d ! 1) then (ST_AWAIT_METHODS, [], d)
      else after_greeting (drop (2 + unat (d ! 1)) d))"

lemma view_of_client:
  assumes "length methods < 256" and "addr_ok a"
  shows "socks_view (greeting methods @ client_request SOCKS5_CMD_CONNECT a port @ rest) =
    (ST_CONNECTING, addr_text a @ '':'' @ decimal (unat port), rest)"
  using assms scan_client_request [OF assms(2), of SOCKS5_CMD_CONNECT port rest]
  by (simp add: socks_view_def after_greeting_def greeting_def addressed_def socks_defs(1) unat_of_nat)

lemma view_connecting_append:
  assumes "socks_view d = (ST_CONNECTING, t, x)"
  shows "socks_view (d @ b) = (ST_CONNECTING, t, x @ b)"
proof -
  have len: "2 \<le> length d" "d ! 0 = SOCKS5_VER" "2 + unat (d ! 1) \<le> length d"
    and g: "after_greeting (drop (2 + unat (d ! 1)) d) = (ST_CONNECTING, t, x)"
    using assms by (auto simp: socks_view_def split: if_splits)
  obtain host port need where s: "scan_request (drop (2 + unat (d ! 1)) d) = ReqConnect host port need"
    and t: "t = host @ '':'' @ decimal (unat port)" "x = drop need (drop (2 + unat (d ! 1)) d)"
    using g by (auto simp: after_greeting_def split: request.splits)
  have "scan_request (drop (2 + unat (d ! 1)) d @ b) = ReqConnect host port need"
    using scan_request_stable [of "drop (2 + unat (d ! 1)) d" b] s by simp
  then have "after_greeting (drop (2 + unat (d ! 1)) d @ b) = (ST_CONNECTING, t, x @ b)"
    using t scan_request_need(2) [OF s] by (simp add: after_greeting_def)
  moreover have "(d @ b) ! 0 = d ! 0" "(d @ b) ! 1 = d ! 1" using len by (intro nth_append_front, linarith)+
  ultimately show ?thesis using len by (simp add: socks_view_def)
qed

section \<open>The loop as cases\<close>

lemma feed_request: "feed_loop env now h ST_AWAIT_REQUEST w = snd (tryParseRequest env now h w)"
proof -
  obtain ret w' where p: "tryParseRequest env now h w = (ret, w')" by fastforce
  then show ?thesis
    using request_step [OF p] by (auto simp: feed_loop.simps [of _ _ _ ST_AWAIT_REQUEST])
qed

lemma feed_methods: "feed_loop env now h ST_AWAIT_METHODS w =
    (case tryParseMethods env now h w of (ret, w') \<Rightarrow> if ret \<le> 0 then w' else snd (tryParseRequest env now h w'))"
proof -
  obtain ret w' where p: "tryParseMethods env now h w = (ret, w')" by fastforce
  then show ?thesis
    using methods_step [OF p] by (auto simp: feed_loop.simps [of _ _ _ ST_AWAIT_METHODS] feed_request)
qed

section \<open>The handshake\<close>

lemma parse_greeting:
  assumes "rs_rx_buffer (relay h w) = greeting methods @ rest" and "length methods < 256"
  shows "tryParseMethods env now h w = (int (2 + length methods),
    upd_rs h (\<lambda>s. s\<lparr>rs_state := ST_AWAIT_REQUEST\<rparr>)
      (rs_sendToPeer env now h [5, 0] (upd_rs h (\<lambda>s. s\<lparr>rs_rx_buffer := rest\<rparr>) w)))"
  using assms by (simp add: tryParseMethods_def greeting_def SOCKS5_VER_def unat_of_nat Let_def)

lemma send_upd_rs:
  assumes "\<And>s. rs_session_id (f s) = rs_session_id s" and "\<And>s. rs_peer_ingress_id (f s) = rs_peer_ingress_id s"
  shows "rs_sendToPeer env now h buf (upd_rs h f w) = upd_rs h f (rs_sendToPeer env now h buf w)"
  unfolding rs_sendToPeer_def upd_rs_simps by (simp add: assms) (simp add: upd_rs_def sendSessionData_upd_app)

lemma reply_upd_rs:
  assumes "\<And>s. rs_session_id (f s) = rs_session_id s" and "\<And>s. rs_peer_ingress_id (f s) = rs_peer_ingress_id s"
  shows "rs_writeReply env now h rep (upd_rs h f w) = upd_rs h f (rs_writeReply env now h rep w)"
  unfolding rs_writeReply_def by (rule send_upd_rs [OF assms])

lemma feed_greeting:
  assumes "rs_state (relay h w) = ST_AWAIT_METHODS" and "rs_rx_buffer (relay h w) = []" and "length methods < 256"
  shows "feedRx env now h (greeting methods @ rest) w =
    snd (tryParseRequest env now h (upd_rs h (\<lambda>s. s\<lparr>rs_rx_buffer := rest, rs_state := ST_AWAIT_REQUEST\<rparr>)
      (rs_sendToPeer env now h [5, 0] w)))"
proof -
  let ?w1 = "more_rx h (greeting methods @ rest) w"
  have rx: "rs_rx_buffer (relay h ?w1) = greeting methods @ rest" using assms(2) by simp
  have "upd_rs h (\<lambda>s. s\<lparr>rs_state := ST_AWAIT_REQUEST\<rparr>)
      (rs_sendToPeer env now h [5, 0] (upd_rs h (\<lambda>s. s\<lparr>rs_rx_buffer := rest\<rparr>) (more_rx h b w))) =
      upd_rs h (\<lambda>s. s\<lparr>rs_rx_buffer := rest, rs_state := ST_AWAIT_REQUEST\<rparr>) (rs_sendToPeer env now h [5, 0] w)" for b
    unfolding more_rx_def upd_rs_twice by (subst send_upd_rs) (simp_all add: add_rx_def upd_rs_twice)
  then have "tryParseMethods env now h ?w1 = (int (2 + length methods),
      upd_rs h (\<lambda>s. s\<lparr>rs_rx_buffer := rest, rs_state := ST_AWAIT_REQUEST\<rparr>) (rs_sendToPeer env now h [5, 0] w))"
    using parse_greeting [OF rx assms(3), of env now] by (simp only:)
  then show ?thesis using assms(1) by (simp add: feedRx_more feed_methods)
qed

text \<open>C11: Until a relay relays, feeding it chunk by chunk does exactly what feeding it the concatenation at once
  does, on every state of the gateway and on every input, malformed ones included.\<close>

theorem socks_chunk_independent:
  assumes "rs_state (relay h w) \<noteq> ST_RELAYING" and "chunks \<noteq> []"
  shows "foldl (\<lambda>w c. feedRx env now h c w) w chunks = feedRx env now h (concat chunks) w"
  by (rule feedRx_chunks [OF assms])

text \<open>A relay that waits, for the examples.\<close>

definition sample_relays :: "outport world" where
  "sample_relays = \<lparr>w_mgr = sample_manager, w_ds = sample_stream,
     w_app = snd (outport_ensureSession 0 7 1 outport_init), w_trace = []\<rparr>"

lemma sample_relays_facts [simp]: "relay 0 sample_relays = new_FgwRelaySession 7 1 0" "w_ds sample_relays = sample_stream"
  by (simp_all add: sample_relays_def relay_def outport_ensureSession_def outport_init_def Let_def)

theorem socks_chunk_independent_witness:
  "foldl (\<lambda>w c. feedRx open_env 0 0 c w) sample_relays [[5], [1, 0, 5], [1, 0, 1]] =
   feedRx open_env 0 0 [5, 1, 0, 5, 1, 0, 1] sample_relays"
  using socks_chunk_independent [of 0 sample_relays "[[5], [1, 0, 5], [1, 0, 1]]" open_env 0]
  by (simp add: new_FgwRelaySession_def)

lemma handshake:
  assumes "rs_state (relay h w) = ST_AWAIT_METHODS" and "rs_rx_buffer (relay h w) = []"
    and "length methods < 256" and "addr_ok a"
    and "chunks \<noteq> []" and "concat chunks = greeting methods @ client_request 1 a port @ data"
    and "0 \<le> e_start_connect env now \<lparr>ep_host = addr_text a, ep_port = port\<rparr>"
  shows "foldl (\<lambda>w c. feedRx env now h c w) w chunks =
    upd_rs h (\<lambda>s. s\<lparr>rs_rx_buffer := data, rs_target_addr := addr_text a @ '':'' @ decimal (unat port),
                    rs_state := ST_CONNECTING, rs_remote_tcp := True\<rparr>) (rs_sendToPeer env now h [5, 0] w)"
proof -
  have "foldl (\<lambda>w c. feedRx env now h c w) w chunks = feedRx env now h (greeting methods @ client_request 1 a port @ data) w"
    using feedRx_chunks [OF _ assms(5), of h w env now] assms(1,6) by simp
  moreover have "scan_request (client_request 1 a port @ data) =
      ReqConnect (addr_text a) port (length (client_request 1 a port))"
    by (simp add: scan_client_request [OF assms(4)] addressed_def SOCKS5_CMD_CONNECT_def)
  ultimately show ?thesis
    using assms(7) by (simp add: feed_greeting [OF assms(1-3)] tryParseRequest_def rs_startConnect_def upd_rs_twice Let_def)
qed

text \<open>C10: However a SOCKS5 greeting, a CONNECT request and the first data are cut, a new relay answers the
  greeting once with "no authentication", connects to the host and port of the request (IPv4, IPv6 or domain
  name) and keeps the data.\<close>

theorem socks_handshake:
  assumes "rs_state (relay h w) = ST_AWAIT_METHODS" and "rs_rx_buffer (relay h w) = []"
    and "length methods < 256" and "addr_ok a"
    and "chunks \<noteq> []" and "concat chunks = greeting methods @ client_request 1 a port @ data"
    and "0 \<le> e_start_connect env now \<lparr>ep_host = addr_text a, ep_port = port\<rparr>"
  shows "foldl (\<lambda>w c. feedRx env now h c w) w chunks =
    upd_rs h (\<lambda>s. s\<lparr>rs_rx_buffer := data, rs_target_addr := addr_text a @ '':'' @ decimal (unat port),
                    rs_state := ST_CONNECTING, rs_remote_tcp := True\<rparr>) (rs_sendToPeer env now h [5, 0] w)"
  by (rule handshake [OF assms])

theorem socks_handshake_witness:
  "rs_target_addr (relay 0 (foldl (\<lambda>w c. feedRx open_env 0 0 c w) sample_relays
     [[5, 1], [0, 5, 1, 0, 3, 1, 97, 0], [80, 42]])) = ''a:80''"
proof -
  have "foldl (\<lambda>w c. feedRx open_env 0 0 c w) sample_relays [[5, 1], [0, 5, 1, 0, 3, 1, 97, 0], [80, 42]] =
    upd_rs 0 (\<lambda>s. s\<lparr>rs_rx_buffer := [42], rs_target_addr := addr_text (Domain [97]) @ '':'' @ decimal (unat (80 :: u16)),
                    rs_state := ST_CONNECTING, rs_remote_tcp := True\<rparr>) (rs_sendToPeer open_env 0 0 [5, 0] sample_relays)"
    by (rule socks_handshake [where methods = "[0]"])
      (simp_all add: new_FgwRelaySession_def greeting_def client_request_def open_env_def)
  then show ?thesis by (simp add: domain_text_def decimal.simps char_of_def bit_0)
qed

section \<open>Refusals\<close>

text \<open>What closing a relay leaves.\<close>

definition relay_gone :: "handler_ref \<Rightarrow> outport world \<Rightarrow> outport world \<Rightarrow> bool" where
  "relay_gone h w w' \<longleftrightarrow> rs_state (relay h w') = ST_CLOSED \<and> \<not> rs_remote_tcp (relay h w') \<and>
     smap_find (op_sessions (w_app w')) (rs_peer_ingress_id (relay h w), rs_session_id (relay h w)) = None \<and>
     find_session (resolveIngressKey (w_ds w) (rs_peer_ingress_id (relay h w)), rs_session_id (relay h w)) w' = None"

lemma resolve_send [simp]:
  "resolveIngressKey (w_ds (rs_sendToPeer env now h buf w)) i = resolveIngressKey (w_ds w) i"
  "resolveIngressKey (w_ds (rs_writeReply env now h rep w)) i = resolveIngressKey (w_ds w) i"
proof -
  show "resolveIngressKey (w_ds (rs_sendToPeer env now h buf w)) i = resolveIngressKey (w_ds w) i" for buf
  proof -
    have "ds_rest (w_ds (rs_sendToPeer env now h buf w)) = ds_rest (w_ds w)"
      using sendSessionData_frame [of w "rs_peer_ingress_id (relay h w)" "rs_session_id (relay h w)" env now buf]
      by (simp add: rs_sendToPeer_def handler_frame_def)
    from ds_rest_fields(1) [OF this] show ?thesis by (simp add: resolveIngressKey_def)
  qed
  then show "resolveIngressKey (w_ds (rs_writeReply env now h rep w)) i = resolveIngressKey (w_ds w) i"
    by (simp add: rs_writeReply_def)
qed

lemma relay_gone_close:
  assumes "rs_state (relay h w) \<noteq> ST_CLOSED"
  shows "relay_gone h w (rs_close env now h w)"
proof -
  have "find_session (resolveIngressKey (w_ds v) i, s) (closeSession env now s i v) = None" for i s v
    by (simp add: closeSession_def Let_def split: option.split)
  from this [of "upd_rs h (\<lambda>s. s\<lparr>rs_remote_tcp := False\<rparr>) (upd_rs h (\<lambda>s. s\<lparr>rs_state := ST_CLOSED\<rparr>) w)"]
  show ?thesis
    using assms by (simp add: relay_gone_def relay_close)
      (simp add: rs_close_def outport_removeSession_def smap_find_erase Let_def)
qed

text \<open>C12: A request for another command than CONNECT is answered with reply 7, a connect that fails at once with
  reply 4; in both cases the relay closes, and its session is gone from the stream and from the table of the
  Outport.\<close>

theorem socks_refusals:
  assumes "rs_state (relay h w) = ST_AWAIT_REQUEST" and "rs_rx_buffer (relay h w) @ buf = client_request cmd a port @ rest"
    and "addr_ok a" and "w' = feedRx env now h buf w"
    and "cmd \<noteq> 1 \<and> rep = 7 \<or> cmd = 1 \<and> e_start_connect env now \<lparr>ep_host = addr_text a, ep_port = port\<rparr> < 0 \<and> rep = 4"
  shows "relay_gone h w w' \<and>
    (\<exists>f. (\<forall>s. rs_session_id (f s) = rs_session_id s \<and> rs_peer_ingress_id (f s) = rs_peer_ingress_id s) \<and>
      w' = rs_close env now h (upd_rs h f (rs_sendToPeer env now h [5, rep, 0, 1, 0, 0, 0, 0, 0, 0] w)))"
proof -
  let ?n = "length (client_request cmd a port)" and ?rx = "client_request cmd a port @ rest"
  let ?f = "if cmd = 1 then (\<lambda>s. s\<lparr>rs_rx_buffer := rest, rs_target_addr := addr_text a @ '':'' @ decimal (unat port),
      rs_state := ST_CONNECTING, rs_remote_tcp := True\<rparr>) else (\<lambda>s. s\<lparr>rs_rx_buffer := rest\<rparr>)"
  have feed: "w' = snd (tryParseRequest env now h (more_rx h buf w))"
    using assms(1,4) by (simp add: feedRx_more feed_request)
  have scan: "scan_request (rs_rx_buffer (relay h (more_rx h buf w))) = addressed cmd (addr_text a) port ?n"
    using assms(2) scan_client_request [OF assms(3)] by simp
  have w': "w' = rs_close env now h (upd_rs h ?f (rs_sendToPeer env now h [5, rep, 0, 1, 0, 0, 0, 0, 0, 0] w))"
  proof (cases "cmd = 1")
    case True
    then have "w' = rs_close env now h (rs_writeReply env now h rep (upd_rs h ?f w))"
      using assms(2,5) scan unfolding feed tryParseRequest_def more_rx_def upd_rs_twice
      by (simp add: addressed_def socks_defs rs_startConnect_def upd_rs_twice Let_def del: drop_append)
        (intro arg_cong [where f = "\<lambda>v. rs_close env now h (rs_writeReply env now h 4 v)"] upd_rs_cong, simp add: add_rx_def)
    then show ?thesis
      using True by (simp add: reply_upd_rs) (simp add: rs_writeReply_def socks_defs)
  next
    case False
    then have "w' = rs_close env now h (rs_writeReply env now h rep (upd_rs h ?f w))"
      using assms(2,5) scan unfolding feed tryParseRequest_def more_rx_def upd_rs_twice
      by (simp add: addressed_def socks_defs upd_rs_twice Let_def del: drop_append)
        (intro arg_cong [where f = "\<lambda>v. rs_close env now h (rs_writeReply env now h 7 v)"] upd_rs_cong, simp add: add_rx_def)
    then show ?thesis
      using False by (simp add: reply_upd_rs) (simp add: rs_writeReply_def socks_defs)
  qed
  moreover have f: "rs_session_id (?f s) = rs_session_id s \<and> rs_peer_ingress_id (?f s) = rs_peer_ingress_id s"
    "rs_state (?f (relay h w)) \<noteq> ST_CLOSED" for s
    using assms(1) by simp_all
  moreover have "relay_gone h w (rs_close env now h (upd_rs h g (rs_sendToPeer env now h b w)))"
    if "\<forall>s. rs_session_id (g s) = rs_session_id s \<and> rs_peer_ingress_id (g s) = rs_peer_ingress_id s"
      "rs_state (g (relay h w)) \<noteq> ST_CLOSED" for g b
    using that relay_gone_close [of h "upd_rs h g (rs_sendToPeer env now h b w)" env now] by (simp add: relay_gone_def)
  ultimately show ?thesis by blast
qed
theorem socks_refusals_witness:
  "relay_gone 0 (upd_rs 0 (\<lambda>s. s\<lparr>rs_state := ST_AWAIT_REQUEST\<rparr>) sample_relays)
     (feedRx open_env 0 0 [5, 2, 0, 1, 10, 0, 0, 1, 0, 80]
        (upd_rs 0 (\<lambda>s. s\<lparr>rs_state := ST_AWAIT_REQUEST\<rparr>) sample_relays))"
proof -
  let ?w = "upd_rs 0 (\<lambda>s. s\<lparr>rs_state := ST_AWAIT_REQUEST\<rparr>) sample_relays"
  have "rs_state (relay 0 ?w) = ST_AWAIT_REQUEST"
    "rs_rx_buffer (relay 0 ?w) @ [5, 2, 0, 1, 10, 0, 0, 1, 0, 80] = client_request 2 (IPv4 [10, 0, 0, 1]) 80 @ []"
    "addr_ok (IPv4 [10, 0, 0, 1])"
    by (simp_all add: new_FgwRelaySession_def client_request_def)
  from socks_refusals [OF this refl, of 7 open_env 0] show ?thesis by simp
qed

end
