(* ===== verification/Fgw_OutportRuns.thy ===== *)
theory Fgw_OutportRuns
  imports Fgw_Socks
begin

text \<open>
  Whole runs of an Outport gateway. The invariant ties each relay to the bytes the stream delivered to it:
  what the target was sent is what the client wrote behind its SOCKS request.
\<close>

declare split_paired_All [simp del] split_paired_Ex [simp del]

section \<open>What an operation of a relay may change\<close>

text \<open>The stream behind the relays: sessions may go, and the manager stays sound.\<close>

definition kept :: "outport world \<Rightarrow> outport world \<Rightarrow> bool" where
  "kept w w' \<longleftrightarrow> (mgr_inv (w_mgr w) \<longrightarrow> mgr_inv (w_mgr w')) \<and>
     (\<forall>k st'. find_session k w' = Some st' \<longrightarrow> (\<exists>st. find_session k w = Some st \<and>
       st_handler st' = st_handler st \<and> st_session_id st' = st_session_id st))"

lemma kept_refl [simp]: "kept w w" "kept w (upd_rs h f w)" "kept w (upd_app g w)"
  by (simp_all add: kept_def)

lemma kept_trans: "kept w w' \<Longrightarrow> kept w' w'' \<Longrightarrow> kept w w''"
  unfolding kept_def by (metis (no_types))

lemma keptD: "kept w w' \<Longrightarrow> find_session k w' = Some st' \<Longrightarrow>
    \<exists>st. find_session k w = Some st \<and> st_handler st' = st_handler st \<and> st_session_id st' = st_session_id st"
  unfolding kept_def by blast

definition relay_key :: "handler_ref \<Rightarrow> outport world \<Rightarrow> session_key" where
  "relay_key h w = (rs_peer_ingress_id (relay h w), rs_session_id (relay h w))"

text \<open>An ingress id that means itself on the wire; \<^verbatim>\<open>kFgwWireIngressUseLocal\<close> stands for the own one.\<close>

definition genuine :: "session_key \<Rightarrow> bool" where
  "genuine k \<longleftrightarrow> fst k \<noteq> kFgwWireIngressUseLocal"

definition sessions_stay :: "outport world \<Rightarrow> outport world \<Rightarrow> bool" where
  "sessions_stay w w' \<longleftrightarrow> (\<forall>k. find_session k w \<noteq> None \<longrightarrow> find_session k w' \<noteq> None)"

definition relay_frame :: "handler_ref \<Rightarrow> outport world \<Rightarrow> outport world \<Rightarrow> bool" where
  "relay_frame h w w' \<longleftrightarrow>
     w_trace w' = w_trace w \<and> op_next_ref (w_app w') = op_next_ref (w_app w) \<and>
     (\<forall>h'. h' \<noteq> h \<longrightarrow> relay h' w' = relay h' w) \<and>
     rs_peer_ingress_id (relay h w') = rs_peer_ingress_id (relay h w) \<and>
     rs_session_id (relay h w') = rs_session_id (relay h w) \<and>
     (rs_state (relay h w) = ST_CLOSED \<longrightarrow> rs_state (relay h w') = ST_CLOSED) \<and>
     op_sessions (w_app w') =
       (if rs_state (relay h w) \<noteq> ST_CLOSED \<and> rs_state (relay h w') = ST_CLOSED
        then smap_erase (rs_peer_ingress_id (relay h w), rs_session_id (relay h w)) (op_sessions (w_app w))
        else op_sessions (w_app w)) \<and>
     kept w w' \<and> (genuine (relay_key h w) \<longrightarrow> handler_frame (relay_key h w) w w') \<and>
     (rs_state (relay h w) = ST_CLOSED \<or> rs_state (relay h w') \<noteq> ST_CLOSED \<longrightarrow> sessions_stay w w') \<and>
     (genuine (relay_key h w) \<longrightarrow> rs_state (relay h w) \<noteq> ST_CLOSED \<longrightarrow> rs_state (relay h w') = ST_CLOSED \<longrightarrow>
        find_session (relay_key h w) w' = None)"

lemma sessions_stay_refl [simp]: "sessions_stay w w" "sessions_stay w (upd_rs h f w)" "sessions_stay w (upd_app g w)"
  by (simp_all add: sessions_stay_def)

lemma sessions_stay_trans: "sessions_stay w w' \<Longrightarrow> sessions_stay w' w'' \<Longrightarrow> sessions_stay w w''"
  by (simp add: sessions_stay_def)

lemma handler_frame_upd_rs [simp]: "handler_frame k w (upd_rs h f w)"
  by (simp add: upd_rs_def)

lemma relay_frame_refl [simp]: "relay_frame h w w"
  by (simp add: relay_frame_def)

lemma relay_frame_trans: "relay_frame h w w' \<Longrightarrow> relay_frame h w' w'' \<Longrightarrow> relay_frame h w w''"
proof -
  assume a: "relay_frame h w w'" and b: "relay_frame h w' w''"
  have key: "relay_key h w' = relay_key h w" using a by (simp add: relay_frame_def relay_key_def)
  have "genuine (relay_key h w) \<longrightarrow> handler_frame (relay_key h w) w w''"
    using a b handler_frame_trans unfolding relay_frame_def key by blast
  moreover have "rs_state (relay h w) = ST_CLOSED \<or> rs_state (relay h w'') \<noteq> ST_CLOSED \<longrightarrow> sessions_stay w w''"
    using a b sessions_stay_trans unfolding relay_frame_def by metis
  moreover have "find_session (relay_key h w) w'' = None" if "genuine (relay_key h w)" "rs_state (relay h w) \<noteq> ST_CLOSED"
      "rs_state (relay h w'') = ST_CLOSED"
  proof (cases "rs_state (relay h w') = ST_CLOSED")
    case True
    then have "find_session (relay_key h w) w' = None" using a that unfolding relay_frame_def by blast
    then show ?thesis using b unfolding relay_frame_def kept_def by (metis not_None_eq)
  next
    case False
    then show ?thesis using b that unfolding relay_frame_def key by blast
  qed
  ultimately show "relay_frame h w w''"
    using kept_trans [of w w' w''] a b unfolding relay_frame_def by (elim conjE, intro conjI) simp_all
qed

lemma relay_frame_upd:
  assumes "\<And>s. rs_peer_ingress_id (f s) = rs_peer_ingress_id s" "\<And>s. rs_session_id (f s) = rs_session_id s"
    and "rs_state (f (relay h w)) = ST_CLOSED \<longleftrightarrow> rs_state (relay h w) = ST_CLOSED"
  shows "relay_frame h w (upd_rs h f w)"
  using assms by (simp add: relay_frame_def)

lemma kept_send: "kept w (snd (sendSessionData env now sid buf key w))"
proof (cases "find_session (resolveIngressKey (w_ds w) key, sid) w")
  case (Some st)
  obtain ret seq m where loop: "send_loop env now (w_ds w) (st_wire_ingress_id st) sid buf 0 (st_next_send_seq st) (w_mgr w)
      = (ret, seq, m)" by (metis prod_cases3)
  have "mgr_inv (w_mgr w) \<Longrightarrow> mgr_inv m"
    using mgr_inv_send_loop [of "w_mgr w" env now "w_ds w"] loop by (metis snd_conv)
  then show ?thesis using Some loop by (simp add: sendSessionData_def Let_def kept_def)
qed (simp add: sendSessionData_def)

lemma kept_close: "kept w (closeSession env now sid key w)"
  using mgr_inv_sendSegment by (auto simp: kept_def closeSession_def Let_def split: option.splits if_splits)

lemma stream_trace [simp]: "w_trace (snd (sendSessionData env now sid buf key w)) = w_trace w"
  "w_trace (closeSession env now sid key w) = w_trace w"
  by (simp_all add: sendSessionData_def closeSession_def Let_def split: option.split prod.split)

lemma genuine_frames:
  assumes "genuine (relay_key h w)"
  shows "handler_frame (relay_key h w) w (rs_sendToPeer env now h buf w)"
    "handler_frame (relay_key h w) w (closeSession env now (rs_session_id (relay h w)) (rs_peer_ingress_id (relay h w)) w)"
proof -
  have "resolveIngressKey (w_ds w) (rs_peer_ingress_id (relay h w)) = rs_peer_ingress_id (relay h w)"
    using assms by (simp add: resolveIngressKey_def genuine_def relay_key_def)
  then show "handler_frame (relay_key h w) w (rs_sendToPeer env now h buf w)"
    "handler_frame (relay_key h w) w (closeSession env now (rs_session_id (relay h w)) (rs_peer_ingress_id (relay h w)) w)"
    using sendSessionData_frame [of w "rs_peer_ingress_id (relay h w)" "rs_session_id (relay h w)" env now buf]
      closeSession_frame [of w "rs_peer_ingress_id (relay h w)" "rs_session_id (relay h w)" env now]
    by (simp_all add: relay_key_def rs_sendToPeer_def)
qed

lemma sessions_stay_send: "sessions_stay w (rs_sendToPeer env now h buf w)"
  by (auto simp: sessions_stay_def rs_sendToPeer_def sendSessionData_def Let_def split: option.split prod.split)

lemma relay_frame_send: "relay_frame h w (rs_sendToPeer env now h buf w)" "relay_frame h w (rs_writeReply env now h rep w)"
proof -
  show "relay_frame h w (rs_sendToPeer env now h buf w)" for buf
    by (simp add: relay_frame_def genuine_frames sessions_stay_send) (simp add: rs_sendToPeer_def kept_send)
  then show "relay_frame h w (rs_writeReply env now h rep w)" by (simp add: rs_writeReply_def)
qed

lemma relay_frame_close: "relay_frame h w (rs_close env now h w)"
proof (cases "rs_state (relay h w) = ST_CLOSED")
  case False
  define w1 where "w1 = upd_rs h (\<lambda>s. s\<lparr>rs_remote_tcp := False\<rparr>) (upd_rs h (\<lambda>s. s\<lparr>rs_state := ST_CLOSED\<rparr>) w)"
  define w2 where "w2 = closeSession env now (rs_session_id (relay h w)) (rs_peer_ingress_id (relay h w)) w1"
  have "kept w w1" unfolding w1_def by (rule kept_trans [OF kept_refl(2) kept_refl(2)])
  then have "kept w (upd_app g w2)" for g
    unfolding w2_def by (rule kept_trans [OF kept_trans [OF _ kept_close] kept_refl(3)])
  moreover have w1: "relay_key h w1 = relay_key h w" "handler_frame k w w1" for k
    unfolding w1_def by (simp_all add: relay_key_def handler_frame_trans [OF handler_frame_upd_rs handler_frame_upd_rs])
  then have "genuine (relay_key h w) \<longrightarrow> handler_frame (relay_key h w) w w2"
    using genuine_frames(2) [of h w1 env now] handler_frame_trans [OF w1(2)]
    by (simp add: w2_def relay_key_def)
  then have "genuine (relay_key h w) \<longrightarrow> handler_frame (relay_key h w) w (upd_app g w2)" for g
    using handler_frame_trans handler_frame_app(1) by blast
  moreover have "genuine (relay_key h w) \<Longrightarrow> find_session (relay_key h w) w2 = None"
    unfolding w2_def closeSession_def Let_def
    by (simp add: w1_def relay_key_def genuine_def resolveIngressKey_def split: option.split)
  ultimately have "relay_frame h w (upd_app (outport_removeSession (rs_peer_ingress_id (relay h w)) (rs_session_id (relay h w))) w2)"
    using False unfolding relay_frame_def
    by (simp add: w2_def) (simp add: outport_removeSession_def w1_def)
  then show ?thesis using False by (simp add: rs_close_def Let_def w1_def w2_def)
qed (simp add: rs_close_def)

lemma relay_frame_connect: "relay_frame h w (rs_startConnect env now h host port w)"
proof -
  have "relay_frame h w (upd_rs h (\<lambda>s. s\<lparr>rs_remote_tcp := True\<rparr>) w)" by (rule relay_frame_upd) simp_all
  then show ?thesis
    unfolding rs_startConnect_def Let_def
    by (auto intro: relay_frame_trans [OF relay_frame_trans [OF _ relay_frame_send(2)] relay_frame_close])
qed

lemma relay_frame_methods:
  assumes "rs_state (relay h w) \<noteq> ST_CLOSED"
  shows "relay_frame h w (snd (tryParseMethods env now h w))"
proof -
  let ?w1 = "upd_rs h (\<lambda>s. s\<lparr>rs_rx_buffer := drop (2 + unat (rs_rx_buffer (relay h w) ! 1)) (rs_rx_buffer (relay h w))\<rparr>) w"
  have 1: "relay_frame h w ?w1" by (rule relay_frame_upd) simp_all
  have 2: "relay_frame h v (upd_rs h (\<lambda>s. s\<lparr>rs_state := ST_AWAIT_REQUEST\<rparr>) v)"
    if "rs_state (relay h v) \<noteq> ST_CLOSED" for v
    by (rule relay_frame_upd) (use that in simp_all)
  have "relay_frame h w (upd_rs h (\<lambda>s. s\<lparr>rs_state := ST_AWAIT_REQUEST\<rparr>) (rs_sendToPeer env now h [SOCKS5_VER, 0] ?w1))"
    by (rule relay_frame_trans [OF relay_frame_trans [OF 1 relay_frame_send(1)] 2]) (use assms in simp)
  then show ?thesis
    unfolding tryParseMethods_def Let_def by (auto intro: relay_frame_close)
qed

lemma relay_frame_request:
  assumes "rs_state (relay h w) \<noteq> ST_CLOSED"
  shows "relay_frame h w (snd (tryParseRequest env now h w))"
proof -
  have "relay_frame h w (upd_rs h (\<lambda>s. s\<lparr>rs_rx_buffer := drop n (rs_rx_buffer s)\<rparr>) w)"
    "relay_frame h w (upd_rs h (\<lambda>s. s\<lparr>rs_rx_buffer := drop n (rs_rx_buffer s), rs_target_addr := t,
       rs_state := ST_CONNECTING\<rparr>) w)" for n t
    by (rule relay_frame_upd; use assms in simp)+
  then show ?thesis
    unfolding tryParseRequest_def Let_def
    by (auto split: request.split intro: relay_frame_close relay_frame_trans [OF _ relay_frame_connect]
        relay_frame_trans [OF relay_frame_send(2) relay_frame_close]
        relay_frame_trans [OF relay_frame_trans [OF _ relay_frame_send(2)] relay_frame_close])
qed

lemma relay_frame_flush: "relay_frame h w (rs_flush env now counted h w)"
proof -
  have "relay_frame h w (upd_rs h (\<lambda>s. s\<lparr>rs_rx_buffer := []\<rparr>) w)" by (rule relay_frame_upd) simp_all
  moreover have "relay_frame h v (upd_rs h (\<lambda>s. s\<lparr>rs_remote_out := f s, rs_bytes_sent := g s\<rparr>) v)" for v f g
    by (rule relay_frame_upd) simp_all
  ultimately show ?thesis
    unfolding rs_flush_def Let_def by (auto intro: relay_frame_trans)
qed

lemma relay_frame_feed: "relay_frame h w (feedRx env now h b w)"
proof -
  let ?w1 = "more_rx h b w"
  have 1: "relay_frame h w ?w1" unfolding more_rx_def by (rule relay_frame_upd) simp_all
  have "relay_frame h ?w1 (feed_loop env now h (rs_state (relay h w)) ?w1)"
  proof (cases "rs_state (relay h w)")
    case ST_AWAIT_METHODS
    obtain ret w' where p: "tryParseMethods env now h ?w1 = (ret, w')" by fastforce
    have "relay_frame h ?w1 w'" using relay_frame_methods [of h ?w1 env now] p ST_AWAIT_METHODS by simp
    moreover have "0 < ret \<Longrightarrow> relay_frame h w' (snd (tryParseRequest env now h w'))"
      using methods_step [OF p] by (intro relay_frame_request) auto
    ultimately show ?thesis
      using ST_AWAIT_METHODS p by (auto simp: feed_methods intro: relay_frame_trans)
  next
    case ST_AWAIT_REQUEST
    then show ?thesis using relay_frame_request [of h ?w1] by (simp add: feed_request)
  next
    case ST_RELAYING
    then show ?thesis by (simp add: relay_frame_flush)
  qed simp_all
  with 1 show ?thesis unfolding feedRx_more by (rule relay_frame_trans)
qed

section \<open>Relays and the bytes they were given\<close>

definition relay_ok :: "FgwRelaySession \<Rightarrow> bytes \<Rightarrow> bool" where
  "relay_ok s d \<longleftrightarrow>
     (rs_remote_tcp s \<longleftrightarrow> rs_state s \<in> {ST_CONNECTING, ST_RELAYING}) \<and>
     (case rs_state s of
        ST_RELAYING \<Rightarrow> rs_rx_buffer s = [] \<and> socks_view d = (ST_CONNECTING, rs_target_addr s, concat (rs_remote_out s))
      | ST_CLOSED \<Rightarrow> rs_remote_out s = [] \<or>
          (\<exists>x n. socks_view d = (ST_CONNECTING, rs_target_addr s, x) \<and> concat (rs_remote_out s) = take n x)
      | st \<Rightarrow> rs_remote_out s = [] \<and> socks_view d = (st, rs_target_addr s, rs_rx_buffer s))"

lemma relay_ok_new: "relay_ok (new_FgwRelaySession i s ts) []"
  by (simp add: relay_ok_def new_FgwRelaySession_def socks_view_def)

lemma relay_ok_close: "relay_ok s d \<Longrightarrow> relay_ok (s\<lparr>rs_state := ST_CLOSED, rs_remote_tcp := False\<rparr>) d"
  by (cases "rs_state s") (auto simp: relay_ok_def intro: exI [of _ "length (concat (rs_remote_out s))"])

lemma view_request_append:
  assumes "socks_view d = (ST_AWAIT_REQUEST, t, x)"
  shows "socks_view (d @ b) = after_greeting (x @ b)" "t = []"
proof -
  have len: "2 \<le> length d" "d ! 0 = SOCKS5_VER" "2 + unat (d ! 1) \<le> length d"
    and x: "x = drop (2 + unat (d ! 1)) d" "t = []"
    using assms by (auto simp: socks_view_def after_greeting_def split: if_splits request.splits)
  have "(d @ b) ! 0 = d ! 0" "(d @ b) ! 1 = d ! 1" using len by (intro nth_append_front, linarith)+
  then show "socks_view (d @ b) = after_greeting (x @ b)" using len x by (simp add: socks_view_def)
  show "t = []" by (rule x)
qed

lemma view_methods: "socks_view d = (ST_AWAIT_METHODS, t, x) \<Longrightarrow> x = d \<and> t = []"
  by (auto simp: socks_view_def after_greeting_def split: if_splits request.splits)

lemma request_relay:
  assumes "rs_state (relay h w) = ST_AWAIT_REQUEST" and "\<not> rs_remote_tcp (relay h w)" and "rs_remote_out (relay h w) = []"
    and "rs_target_addr (relay h w) = []" and "socks_view d = after_greeting (rs_rx_buffer (relay h w))"
  shows "relay_ok (relay h (snd (tryParseRequest env now h w))) d"
  using assms
  by (simp add: tryParseRequest_def relay_ok_def relay_close after_greeting_def rs_startConnect_def Let_def
      split: request.split)

lemma relay_ok_flush:
  assumes "rs_state (relay h w) = ST_RELAYING" and "rs_remote_tcp (relay h w)" and "\<forall>m. m \<le> e_mb_space env now m"
    and "socks_view d = (ST_CONNECTING, rs_target_addr (relay h w), concat (rs_remote_out (relay h w)) @ rs_rx_buffer (relay h w))"
  shows "relay_ok (relay h (rs_flush env now c h w)) d"
  using assms by (simp add: relay_ok_def rs_flush_def Let_def)

lemma relay_ok_feed:
  assumes ok: "relay_ok (relay h w) d" and mem: "\<forall>m. m \<le> e_mb_space env now m"
  shows "relay_ok (relay h (feedRx env now h b w)) (d @ b)"
proof (cases "rs_state (relay h w)")
  case ST_AWAIT_METHODS
  let ?w1 = "more_rx h b w" and ?x = "rs_rx_buffer (relay h w) @ b"
  have s: "rs_remote_out (relay h w) = []" "\<not> rs_remote_tcp (relay h w)"
    "socks_view d = (ST_AWAIT_METHODS, rs_target_addr (relay h w), rs_rx_buffer (relay h w))"
    using ok ST_AWAIT_METHODS by (simp_all add: relay_ok_def)
  have d: "d @ b = ?x" "rs_target_addr (relay h w) = []" using view_methods [OF s(3)] by auto
  consider "length ?x < 2" | "2 \<le> length ?x" "?x ! 0 \<noteq> SOCKS5_VER"
    | "2 \<le> length ?x" "?x ! 0 = SOCKS5_VER" "length ?x < 2 + unat (?x ! 1)"
    | "2 \<le> length ?x" "?x ! 0 = SOCKS5_VER" "2 + unat (?x ! 1) \<le> length ?x" by linarith
  then show ?thesis
  proof cases
    case 4
    have "0 < 2 + uint (?x ! 1)" using uint_ge_0 [of "?x ! 1"] by linarith
    then have "feedRx env now h b w = snd (tryParseRequest env now h (snd (tryParseMethods env now h ?w1)))"
      using 4 ST_AWAIT_METHODS by (simp add: feedRx_more feed_methods tryParseMethods_def Let_def not_less)
    then show ?thesis
      using request_relay [of h "snd (tryParseMethods env now h ?w1)" "d @ b" env now] 4 s d
      by (simp add: tryParseMethods_def Let_def socks_view_def not_less add_rx_def)
  qed (use ST_AWAIT_METHODS s d in
      \<open>simp_all add: feedRx_more feed_methods tryParseMethods_def relay_ok_def relay_close socks_view_def add_rx_def Let_def\<close>)
next
  case ST_AWAIT_REQUEST
  then have s: "rs_remote_out (relay h w) = []" "\<not> rs_remote_tcp (relay h w)"
    "socks_view d = (ST_AWAIT_REQUEST, rs_target_addr (relay h w), rs_rx_buffer (relay h w))"
    using ok by (simp_all add: relay_ok_def)
  then show ?thesis
    using request_relay [of h "more_rx h b w" "d @ b" env now] ST_AWAIT_REQUEST view_request_append(1) [OF s(3), of b] view_request_append(2) [OF s(3)]
    by (simp add: feedRx_more feed_request) (simp add: add_rx_def)
next
  case ST_CONNECTING
  then show ?thesis
    using ok view_connecting_append [of d _ _ b] by (simp add: feedRx_more relay_ok_def) (simp add: add_rx_def)
next
  case ST_RELAYING
  then show ?thesis
    using ok view_connecting_append [of d _ _ b] mem
    by (auto simp: feedRx_more relay_ok_def [of "relay h w"] add_rx_def intro!: relay_ok_flush)
next
  case ST_CLOSED
  have "concat (rs_remote_out (relay h w)) = take n x \<Longrightarrow> \<exists>m. take n x = take m (x @ b)" for n x
    by (rule exI [of _ "min n (length x)"]) (simp add: min_def)
  then show ?thesis
    using ok view_connecting_append [of d _ _ b] ST_CLOSED
    by (simp add: feedRx_more relay_ok_def add_rx_def) fastforce
qed

section \<open>The invariant of an Outport\<close>

text \<open>The registered relays are open and filed under their own key; sessions name relays that were made for
  them; each relay is as the bytes it was given make it.\<close>

definition serves :: "outport world \<Rightarrow> handler_ref \<Rightarrow> session_key \<Rightarrow> bool" where
  "serves w h k \<longleftrightarrow> h < op_next_ref (w_app w) \<and> relay_key h w = k \<and> (genuine k \<longrightarrow> rs_state (relay h w) \<noteq> ST_CLOSED)"

definition outport_core :: "outport world \<Rightarrow> bool" where
  "outport_core w \<longleftrightarrow> mgr_inv (w_mgr w) \<and> smap_inv (op_sessions (w_app w)) \<and>
     (\<forall>k h. smap_find (op_sessions (w_app w)) k = Some h \<longrightarrow>
        h < op_next_ref (w_app w) \<and> relay_key h w = k \<and> rs_state (relay h w) \<noteq> ST_CLOSED) \<and>
     (\<forall>k st. find_session k w = Some st \<longrightarrow> st_session_id st = snd k \<and>
        (\<forall>h. st_handler st = Some h \<longrightarrow> serves w h k)) \<and>
     (\<forall>h. relay_ok (relay h w) (delivered h (w_trace w))) \<and>
     (\<forall>h \<ge> op_next_ref (w_app w). delivered h (w_trace w) = [])"

text \<open>Every open relay is registered.\<close>

definition filed :: "outport world \<Rightarrow> bool" where
  "filed w \<longleftrightarrow> (\<forall>h < op_next_ref (w_app w). rs_state (relay h w) \<noteq> ST_CLOSED \<longrightarrow>
     smap_find (op_sessions (w_app w)) (relay_key h w) = Some h)"

definition outport_inv :: "outport world \<Rightarrow> bool" where
  "outport_inv w \<longleftrightarrow> outport_core w \<and> filed w"

definition outport_gate :: "fgw_env \<Rightarrow> outport world \<Rightarrow> bool" where
  "outport_gate env w \<longleftrightarrow> (roomy env \<longrightarrow> outport_inv w)"

lemma relay_frame_key: "relay_frame h w w' \<Longrightarrow> relay_key h' w' = relay_key h' w"
  by (cases "h' = h") (auto simp: relay_frame_def relay_key_def)

lemma frame_state: "relay_frame h w w' \<Longrightarrow> rs_state (relay h' w) = ST_CLOSED \<Longrightarrow> rs_state (relay h' w') = ST_CLOSED"
  by (cases "h' = h") (auto simp: relay_frame_def)

lemma frame_find:
  assumes "relay_frame h w w'"
  shows "smap_find (op_sessions (w_app w')) k =
    (if k = relay_key h w \<and> rs_state (relay h w) \<noteq> ST_CLOSED \<and> rs_state (relay h w') = ST_CLOSED then None
     else smap_find (op_sessions (w_app w)) k)"
  using assms by (auto simp: relay_frame_def relay_key_def smap_find_erase)

lemma core_frame:
  assumes core: "outport_core w" and fr: "relay_frame h (w\<lparr>w_trace := w_trace w @ evs\<rparr>) w'" and h: "h < op_next_ref (w_app w)"
    and ok: "relay_ok (relay h w') (delivered h (w_trace w @ evs))"
    and evs: "\<And>h'. h' \<noteq> h \<Longrightarrow> delivered h' evs = []"
  shows "outport_core w'"
proof -
  let ?w = "w\<lparr>w_trace := w_trace w @ evs\<rparr>"
  have w: "relay h' ?w = relay h' w" "relay_key h' ?w = relay_key h' w" for h' by (simp_all add: relay_def relay_key_def)
  have same: "w_trace w' = w_trace w @ evs" "op_next_ref (w_app w') = op_next_ref (w_app w)"
    "relay h' w' = relay h' w" "kept ?w w'" if "h' \<noteq> h" for h'
    using fr that by (auto simp: relay_frame_def relay_def)
  have tr: "w_trace w' = w_trace w @ evs" "op_next_ref (w_app w') = op_next_ref (w_app w)" "kept ?w w'"
    using fr by (simp_all add: relay_frame_def)
  have table: "h1 < op_next_ref (w_app w') \<and> relay_key h1 w' = k \<and> rs_state (relay h1 w') \<noteq> ST_CLOSED"
    if f: "smap_find (op_sessions (w_app w')) k = Some h1" for k h1
  proof -
    from f have old: "smap_find (op_sessions (w_app w)) k = Some h1"
      and stay: "\<not> (k = relay_key h w \<and> rs_state (relay h w) \<noteq> ST_CLOSED \<and> rs_state (relay h w') = ST_CLOSED)"
      using frame_find [OF fr, of k] w by (auto split: if_splits)
    have "h1 < op_next_ref (w_app w) \<and> relay_key h1 w = k \<and> rs_state (relay h1 w) \<noteq> ST_CLOSED"
      using core old unfolding outport_core_def by blast
    moreover from this have "rs_state (relay h1 w') \<noteq> ST_CLOSED"
      using stay same(3) [of h1] by (cases "h1 = h") auto
    ultimately show ?thesis using tr(2) relay_frame_key [OF fr, of h1] w by simp
  qed
  have "smap_inv (op_sessions (w_app w'))"
    using core fr by (auto simp: outport_core_def relay_frame_def smap_inv_erase)
  moreover have "mgr_inv (w_mgr w')"
    using core tr(3) by (simp add: kept_def outport_core_def)
  moreover have "st_session_id st = snd k \<and> (\<forall>h. st_handler st = Some h \<longrightarrow> serves w' h k)"
    if f: "find_session k w' = Some st" for k st
  proof -
    obtain st0 where st0: "find_session k w = Some st0" "st_handler st = st_handler st0" "st_session_id st = st_session_id st0"
      using keptD [OF tr(3) f] by auto
    have "serves w' h1 k" if "serves w h1 k" for h1
    proof -
      have "rs_state (relay h1 w') \<noteq> ST_CLOSED" if "genuine k" "relay_key h1 w = k" "rs_state (relay h1 w) \<noteq> ST_CLOSED"
      proof (cases "h1 = h")
        case True
        have "genuine (relay_key h ?w) \<longrightarrow> rs_state (relay h ?w) \<noteq> ST_CLOSED \<longrightarrow> rs_state (relay h w') = ST_CLOSED \<longrightarrow>
            find_session (relay_key h ?w) w' = None" using fr unfolding relay_frame_def by blast
        then show ?thesis using True f that by (auto simp: w)
      qed (use that same(3) in simp)
      then show ?thesis using that tr(2) relay_frame_key [OF fr, of h1] by (simp add: serves_def w)
    qed
    with core st0 show ?thesis unfolding outport_core_def by metis
  qed
  moreover have "relay_ok (relay h1 w') (delivered h1 (w_trace w'))" for h1
    using ok core same(3) [of h1] evs [of h1] tr(1) by (cases "h1 = h") (auto simp: outport_core_def)
  moreover have "delivered h1 (w_trace w') = []" if "op_next_ref (w_app w') \<le> h1" for h1
    using that core tr evs [of h1] h by (auto simp: outport_core_def)
  ultimately show ?thesis
    using table unfolding outport_core_def by blast
qed

lemma filed_frame:
  assumes "filed w" and fr: "relay_frame h (w\<lparr>w_trace := w_trace w @ evs\<rparr>) w'" and h: "h < op_next_ref (w_app w)"
  shows "filed w'"
  unfolding filed_def
proof (intro allI impI)
  let ?w = "w\<lparr>w_trace := w_trace w @ evs\<rparr>"
  have w: "relay h' ?w = relay h' w" "relay_key h' ?w = relay_key h' w" for h' by (simp_all add: relay_def relay_key_def)
  fix h1 assume h1: "h1 < op_next_ref (w_app w')" and open1: "rs_state (relay h1 w') \<noteq> ST_CLOSED"
  have "h1 < op_next_ref (w_app w)" using h1 fr by (simp add: relay_frame_def)
  moreover have "rs_state (relay h1 w) \<noteq> ST_CLOSED" using frame_state [OF fr, of h1] open1 w by auto
  ultimately have old: "smap_find (op_sessions (w_app w)) (relay_key h1 w) = Some h1"
    using assms(1) by (simp add: filed_def)
  have "rs_state (relay h w) \<noteq> ST_CLOSED \<Longrightarrow> smap_find (op_sessions (w_app w)) (relay_key h w) = Some h"
    using assms(1) h by (simp add: filed_def)
  then show "smap_find (op_sessions (w_app w')) (relay_key h1 w') = Some h1"
    using frame_find [OF fr, of "relay_key h1 w"] relay_frame_key [OF fr, of h1] old open1 w by auto
qed

lemma inv_frame:
  assumes "outport_inv w" and "relay_frame h (w\<lparr>w_trace := w_trace w @ evs\<rparr>) w'" and "h < op_next_ref (w_app w)"
    and "relay_ok (relay h w') (delivered h (w_trace w @ evs))" and "\<And>h'. h' \<noteq> h \<Longrightarrow> delivered h' evs = []"
  shows "outport_inv w'"
  using assms core_frame filed_frame unfolding outport_inv_def by blast

lemma inv_relay_ok: "outport_inv w \<Longrightarrow> relay_ok (relay h w) (delivered h (w_trace w))"
  by (simp add: outport_inv_def outport_core_def)

section \<open>The receive path keeps it\<close>

lemma gate_relay:
  assumes "outport_gate env w" and "relay_frame h (w\<lparr>w_trace := w_trace w @ evs\<rparr>) w'" and "h < op_next_ref (w_app w)"
    and "roomy env \<Longrightarrow> relay_ok (relay h w) (delivered h (w_trace w)) \<Longrightarrow> relay_ok (relay h w') (delivered h (w_trace w @ evs))"
    and "\<And>h'. h' \<noteq> h \<Longrightarrow> delivered h' evs = []"
  shows "outport_gate env w'"
  using assms inv_frame inv_relay_ok unfolding outport_gate_def by blast

lemma outport_gate_same:
  assumes "outport_gate env w" and "w_app w' = w_app w" and "\<And>h. delivered h (w_trace w') = delivered h (w_trace w)"
    and "mgr_inv (w_mgr w) \<Longrightarrow> mgr_inv (w_mgr w')"
    and "\<And>k st. find_session k w' = Some st \<Longrightarrow> find_session k w = Some st"
  shows "outport_gate env w'"
proof -
  have same: "relay h w' = relay h w" "relay_key h w' = relay_key h w" for h using assms(2) by (simp_all add: relay_def relay_key_def)
  have "outport_core w'" if c: "outport_core w"
  proof -
    have "\<forall>k st. find_session k w' = Some st \<longrightarrow> st_session_id st = snd k \<and>
        (\<forall>h. st_handler st = Some h \<longrightarrow> serves w h k)"
      using assms(5) c unfolding outport_core_def by blast
    moreover have "serves w' h k = serves w h k" for h k by (simp add: serves_def assms(2) same)
    ultimately show ?thesis
      using c [unfolded outport_core_def] assms(4) unfolding outport_core_def by (intro conjI) (simp_all add: assms(2,3) same)
  qed
  moreover have "filed w'" if "filed w" using that by (simp add: filed_def assms(2) same)
  ultimately show ?thesis using assms(1) by (simp add: outport_gate_def outport_inv_def)
qed

lemma gate_quiet: "quiet w w' \<Longrightarrow> outport_gate env w \<Longrightarrow> outport_gate env w'"
  using neutral_find [of w w'] by (intro outport_gate_same [of env w w']) (auto simp: quiet_def neutral_def)

lemma gate_put:
  assumes "outport_gate env w" and "roomy env \<Longrightarrow> st_session_id st = snd k"
    and "\<And>h. st_handler st = Some h \<Longrightarrow> roomy env \<Longrightarrow> serves w h k"
  shows "outport_gate env (put_session k st w)"
proof -
  have "relay h (put_session k st w) = relay h w" "relay_key h (put_session k st w) = relay_key h w" for h
    by (simp_all add: relay_def relay_key_def)
  moreover from this have "serves (put_session k st w) h k' = serves w h k'" for h k' by (simp add: serves_def)
  ultimately show ?thesis
    using assms unfolding outport_gate_def outport_inv_def outport_core_def filed_def by (auto split: if_splits)
qed

lemma gate_erase:
  assumes "outport_gate env w"
  shows "outport_gate env (erase_session k w)"
proof (rule outport_gate_same [OF assms])
  fix k' st assume "find_session k' (erase_session k w) = Some st"
  then show "find_session k' w = Some st" by (simp split: if_splits)
qed simp_all

lemma gate_event:
  assumes "outport_gate env w" and "\<And>h. delivered h evs = []"
  shows "outport_gate env (w\<lparr>w_trace := w_trace w @ evs\<rparr>)"
  by (rule outport_gate_same [OF assms(1)]) (auto simp: assms(2))

lemma gate_unknown:
  assumes "outport_gate env w" and "outport_unknown ts i s w = (ho, w')"
  shows "outport_gate env w' \<and> (roomy env \<longrightarrow> (\<forall>h. ho = Some h \<longrightarrow> serves w' h (i, s)))"
proof (cases "smap_find (op_sessions (w_app w)) (i, s)")
  case (Some h)
  then have "ho = Some h" "w' = w" using assms(2) by (simp_all add: outport_unknown_def outport_ensureSession_def)
  then show ?thesis using assms(1) Some by (auto simp: outport_gate_def outport_inv_def outport_core_def serves_def)
next
  case None
  let ?h = "op_next_ref (w_app w)"
  have ho: "ho = Some ?h" and w': "w' = upd_app (\<lambda>op. op\<lparr>op_heap := (op_heap op)(?h := new_FgwRelaySession i s ts),
      op_next_ref := Suc ?h, op_sessions := smap_set (i, s) ?h (op_sessions op)\<rparr>) w"
    using assms(2) None by (simp_all add: outport_unknown_def outport_ensureSession_def Let_def upd_app_def)
  have fields: "w_trace w' = w_trace w" "w_mgr w' = w_mgr w" "op_next_ref (w_app w') = Suc ?h"
    "find_session k w' = find_session k w" "op_sessions (w_app w') = smap_set (i, s) ?h (op_sessions (w_app w))" for k
    by (simp_all add: w')
  have rel: "relay h w' = (if h = ?h then new_FgwRelaySession i s ts else relay h w)" for h
    by (simp add: w' relay_def)
  have key: "relay_key h w' = (if h = ?h then (i, s) else relay_key h w)" for h
    by (simp add: relay_key_def rel) (simp add: new_FgwRelaySession_def)
  have "outport_inv w'" if inv: "outport_inv w"
    unfolding outport_inv_def
  proof
    have ok: "relay_ok (relay h w') (delivered h (w_trace w'))" for h
      using inv relay_ok_new [of i s ts] by (auto simp: rel fields outport_inv_def outport_core_def)
    have state: "rs_state (new_FgwRelaySession i s ts) \<noteq> ST_CLOSED" by (simp add: new_FgwRelaySession_def)
    have table: "h < op_next_ref (w_app w') \<and> relay_key h w' = k \<and> rs_state (relay h w') \<noteq> ST_CLOSED"
      if "smap_find (op_sessions (w_app w')) k = Some h" for k h
    proof (cases "k = (i, s)")
      case False
      then have "h < ?h \<and> relay_key h w = k \<and> rs_state (relay h w) \<noteq> ST_CLOSED"
        using that inv by (auto simp: fields smap_find_set outport_inv_def outport_core_def)
      then show ?thesis by (simp add: rel key fields)
    qed (use that state in \<open>auto simp: fields smap_find_set rel key\<close>)
    have sess: "st_session_id st = snd k \<and>
        (\<forall>h. st_handler st = Some h \<longrightarrow> serves w' h k)" if "find_session k w' = Some st" for k st
    proof -
      have "st_session_id st = snd k \<and> (\<forall>h. st_handler st = Some h \<longrightarrow> serves w h k)"
        using that inv unfolding fields outport_inv_def outport_core_def by blast
      then show ?thesis by (auto simp: key fields rel serves_def)
    qed
    show "outport_core w'"
      using inv ok table sess unfolding outport_core_def outport_inv_def by (simp add: fields smap_inv_set)
    show "filed w'"
      unfolding filed_def
    proof (intro allI impI)
      fix h assume h: "h < op_next_ref (w_app w')" "rs_state (relay h w') \<noteq> ST_CLOSED"
      show "smap_find (op_sessions (w_app w')) (relay_key h w') = Some h"
      proof (cases "h = ?h")
        case False
        then have "smap_find (op_sessions (w_app w)) (relay_key h w) = Some h"
          using h inv by (auto simp: rel outport_inv_def filed_def) (simp add: fields)
        then show ?thesis using False None by (auto simp: key fields smap_find_set)
      qed (simp add: key fields smap_find_set)
    qed
  qed
  then show ?thesis
    using assms(1) by (simp add: outport_gate_def serves_def ho fields key rel) (simp add: new_FgwRelaySession_def)
qed

lemma gate_feed:
  assumes "outport_gate env w" and "h < op_next_ref (w_app w)"
  shows "outport_gate env (feedRx env now h b (w\<lparr>w_trace := w_trace w @ [EvData h sid b]\<rparr>))"
proof (rule gate_relay [OF assms(1) relay_frame_feed assms(2)])
  have "relay h (w\<lparr>w_trace := w_trace w @ [EvData h sid b]\<rparr>) = relay h w" by (simp add: relay_def)
  then show "relay_ok (relay h (feedRx env now h b (w\<lparr>w_trace := w_trace w @ [EvData h sid b]\<rparr>)))
      (delivered h (w_trace w @ [EvData h sid b]))" if "roomy env" "relay_ok (relay h w) (delivered h (w_trace w))"
    using relay_ok_feed [of h "w\<lparr>w_trace := w_trace w @ [EvData h sid b]\<rparr>" "delivered h (w_trace w)"] that
    by (simp add: roomy_def)
qed simp

lemma gate_close:
  assumes "outport_gate env w" and "h < op_next_ref (w_app w)" and "\<And>h'. delivered h' evs = []"
  shows "outport_gate env (rs_close env now h (w\<lparr>w_trace := w_trace w @ evs\<rparr>))"
proof (rule gate_relay [OF assms(1) relay_frame_close assms(2)])
  have "relay h (w\<lparr>w_trace := w_trace w @ evs\<rparr>) = relay h w" by (simp add: relay_def)
  then show "relay_ok (relay h (rs_close env now h (w\<lparr>w_trace := w_trace w @ evs\<rparr>))) (delivered h (w_trace w @ evs))"
    if "relay_ok (relay h w) (delivered h (w_trace w))"
    using that relay_ok_close by (simp add: relay_close assms(3))
qed (rule assms(3))

interpretation outport: handler_safety "outport_ops env now ts" "outport_gate env"
    "\<lambda>w h sid. roomy env \<longrightarrow> h < op_next_ref (w_app w)" for env now ts
proof (unfold_locales, goal_cases)
  case (1 w w')
  then show ?case by (rule gate_quiet)
next
  case (2 w k st0 st)
  then show ?case by (intro gate_put) (auto simp: outport_gate_def outport_inv_def outport_core_def)
next
  case (3 w h sid k st)
  then show ?case by simp
next
  case (4 w k)
  then show ?case by (simp add: outport_ops_def)
next
  case (5 w k cb ho w')
  then have "outport_unknown ts (fst k) (snd k) w = (ho, w')" by (simp add: outport_ops_def)
  from gate_unknown [OF 5(1) this] show ?case by (intro gate_put) (auto simp: SessionState_init_def)
next
  case (6 w k)
  then show ?case by (rule gate_erase)
next
  case (7 w k st h)
  show ?case
  proof (cases "roomy env")
    case True
    then have "outport_core w" using 7(1) by (simp add: outport_gate_def outport_inv_def)
    then have "serves w h k" using 7(2,3) unfolding outport_core_def by blast
    then have "h < op_next_ref (w_app w)" by (simp add: serves_def)
    then show ?thesis by simp
  qed simp
next
  case (8 w h sid b)
  show ?case
  proof (cases "roomy env")
    case True
    have "op_next_ref (w_app (feedRx env now h b v)) = op_next_ref (w_app v)" for v
      using relay_frame_feed [of h v env now b] by (simp add: relay_frame_def)
    then show ?thesis using 8 True gate_feed [of env w h now b sid] by (simp add: outport_ops_def)
  qed (simp add: outport_gate_def)
next
  case (9 w h sid)
  then show ?case using gate_event [of env w "[EvOpen h sid]"] by (simp add: outport_ops_def)
next
  case (10 w h sid)
  then show ?case
    using gate_close [of env w h "[EvClose h sid]" now] by (cases "roomy env") (simp_all add: outport_ops_def outport_gate_def)
qed

section \<open>The target's connection and the end\<close>

lemma gate_open:
  assumes "outport_gate env w" and "h < op_next_ref (w_app w)"
  shows "outport_gate env (remote_on_open env now h w)"
proof (cases "rs_remote_tcp (relay h w)")
  case True
  let ?w1 = "upd_rs h (\<lambda>s. s\<lparr>rs_state := ST_RELAYING\<rparr>) (rs_writeReply env now h SOCKS5_REP_OK w)"
  show ?thesis
  proof (cases "roomy env")
    case roomy: True
    have mem: "\<forall>m. m \<le> e_mb_space env now m" using roomy by (simp add: roomy_def)
    have ok: "relay_ok (relay h w) (delivered h (w_trace w))"
      using assms(1) roomy inv_relay_ok by (simp add: outport_gate_def)
    then have st: "rs_state (relay h w) \<in> {ST_CONNECTING, ST_RELAYING}" using True by (simp add: relay_ok_def)
    then have "relay_frame h w ?w1"
      by (intro relay_frame_trans [OF relay_frame_send(2) relay_frame_upd]) auto
    from relay_frame_trans [OF this relay_frame_flush [of h ?w1 env now False]]
    have fr: "relay_frame h (w\<lparr>w_trace := w_trace w @ []\<rparr>) (rs_flush env now False h ?w1)" by simp
    have "relay_ok (relay h (rs_flush env now False h ?w1)) (delivered h (w_trace w @ []))"
      using ok st True by (intro relay_ok_flush mem) (auto simp: relay_ok_def)
    from gate_relay [OF assms(1) fr assms(2) this] show ?thesis
      using True by (simp add: remote_on_open_def rs_onRemoteOpen_def Let_def)
  qed (simp add: outport_gate_def)
qed (simp add: remote_on_open_def assms(1))

lemma gate_target_bytes:
  assumes "outport_gate env w" and "h < op_next_ref (w_app w)"
  shows "outport_gate env (remote_on_read env now h buf w)"
proof -
  let ?w1 = "upd_rs h (\<lambda>s. s\<lparr>rs_bytes_recv := rs_bytes_recv s + of_nat (length buf)\<rparr>) w"
  have "relay_frame h w (rs_sendToPeer env now h buf ?w1)"
    by (rule relay_frame_trans [OF relay_frame_upd relay_frame_send(1)]) simp_all
  then have fr: "relay_frame h (w\<lparr>w_trace := w_trace w @ []\<rparr>) (rs_sendToPeer env now h buf ?w1)" by simp
  have "relay_ok (relay h w) d \<Longrightarrow> relay_ok (relay h (rs_sendToPeer env now h buf ?w1)) d" for d
    by (simp add: relay_ok_def cong: relay_state.case_cong)
  then have "outport_gate env (rs_sendToPeer env now h buf ?w1)"
    by (intro gate_relay [OF assms(1) fr assms(2)]) simp_all
  then show ?thesis
    using assms(1) by (simp add: remote_on_read_def rs_onRemoteBytes_def)
qed

lemma gate_target_close:
  assumes "outport_gate env w" and "h < op_next_ref (w_app w)"
  shows "outport_gate env (remote_on_close env now h w)"
  using gate_close [OF assms, of "[]" now] assms(1) by (simp add: remote_on_close_def)

lemma close_relays:
  assumes "outport_core w" and "\<forall>(k, h) \<in> set rs. h < op_next_ref (w_app w)"
    and "w' = foldl (\<lambda>w kv. rs_close env now (snd kv) w) w rs"
  shows "outport_core w' \<and> op_next_ref (w_app w') = op_next_ref (w_app w) \<and>
    (\<forall>h. rs_state (relay h w) = ST_CLOSED \<or> h \<in> snd ` set rs \<longrightarrow> rs_state (relay h w') = ST_CLOSED)"
  using assms
proof (induction rs arbitrary: w)
  case (Cons kv rs)
  let ?h = "snd kv" and ?w1 = "rs_close env now (snd kv) w"
  have h: "?h < op_next_ref (w_app w)" using Cons.prems(2) by auto
  have fr: "relay_frame ?h w ?w1" by (rule relay_frame_close)
  have "relay_ok (relay ?h ?w1) (delivered ?h (w_trace w))"
    using Cons.prems(1) relay_ok_close by (simp add: relay_close outport_core_def)
  then have "outport_core ?w1"
    using core_frame [of w ?h "[]" ?w1] Cons.prems(1) fr h by simp
  moreover have "op_next_ref (w_app ?w1) = op_next_ref (w_app w)" using fr by (simp add: relay_frame_def)
  moreover have "rs_state (relay ?h ?w1) = ST_CLOSED" by (simp add: relay_close)
  moreover have "rs_state (relay h w) = ST_CLOSED \<Longrightarrow> rs_state (relay h ?w1) = ST_CLOSED" for h
    by (rule frame_state [OF fr])
  ultimately show ?case
    using Cons.IH [of ?w1] Cons.prems(2,3) by auto
qed simp

lemma gate_stop_outport:
  assumes "outport_gate env w"
  shows "outport_gate env (outport_stop env now w)"
proof (cases "roomy env")
  case True
  then have inv: "outport_core w" "filed w" using assms by (simp_all add: outport_gate_def outport_inv_def)
  let ?rs = "op_sessions (w_app w)" and ?w1 = "upd_app (\<lambda>op. op\<lparr>op_sessions := []\<rparr>) w"
  have rel: "relay h ?w1 = relay h w" "relay_key h ?w1 = relay_key h w" for h by (simp_all add: relay_def relay_key_def)
  have "serves ?w1 h k = serves w h k" for h k by (simp add: serves_def rel)
  then have "outport_core ?w1" using inv(1) by (simp add: outport_core_def rel)
  moreover have "\<forall>(k, h) \<in> set ?rs. h < op_next_ref (w_app ?w1)"
  proof clarify
    fix k h assume "(k, h) \<in> set ?rs"
    then have "smap_find ?rs k = Some h"
      using inv(1) by (intro smap_in_set_find) (simp_all add: outport_core_def)
    then show "h < op_next_ref (w_app ?w1)" using inv(1) by (auto simp: outport_core_def)
  qed
  ultimately have c: "outport_core (outport_stop env now w)"
    "op_next_ref (w_app (outport_stop env now w)) = op_next_ref (w_app w)"
    "\<forall>h. rs_state (relay h w) = ST_CLOSED \<or> h \<in> snd ` set ?rs \<longrightarrow> rs_state (relay h (outport_stop env now w)) = ST_CLOSED"
    using close_relays [of ?w1 ?rs "outport_stop env now w" env now] by (simp_all add: outport_stop_def Let_def rel)
  have "h \<in> snd ` set ?rs" if "h < op_next_ref (w_app w)" "rs_state (relay h w) \<noteq> ST_CLOSED" for h
    using inv(2) that smap_find_in_set [of ?rs "relay_key h w" h] by (force simp: filed_def)
  then have "filed (outport_stop env now w)" using c(2,3) by (auto simp: filed_def)
  with c(1) show ?thesis by (simp add: outport_gate_def outport_inv_def)
qed (simp add: outport_gate_def)

section \<open>Runs\<close>

inductive outport_step :: "fgw_env \<Rightarrow> outport host \<Rightarrow> outport host \<Rightarrow> bool" for env where
  links: "mgr_step env (w_mgr (host_world hst)) m \<Longrightarrow>
    outport_step env hst (hst\<lparr>host_world := upd_mgr (\<lambda>_. m) (host_world hst)\<rparr>)"
| link_bytes: "outport_step env hst (tcp_on_read_data env now (outport_ops env now ts) r sock buf hst)"
| heartbeat: "outport_step env hst (hst\<lparr>host_world := onHeartbeatTick env now (host_world hst)\<rparr>)"
| target_open: "h < op_next_ref (w_app (host_world hst)) \<Longrightarrow>
    outport_step env hst (hst\<lparr>host_world := remote_on_open env now h (host_world hst)\<rparr>)"
| target_bytes: "h < op_next_ref (w_app (host_world hst)) \<Longrightarrow>
    outport_step env hst (hst\<lparr>host_world := remote_on_read env now h buf (host_world hst)\<rparr>)"
| target_close: "h < op_next_ref (w_app (host_world hst)) \<Longrightarrow>
    outport_step env hst (hst\<lparr>host_world := remote_on_close env now h (host_world hst)\<rparr>)"
| stop: "outport_step env hst (hst\<lparr>host_world := outport_stop env now (host_world hst)\<rparr>)"

definition outport_boot :: "u32 \<Rightarrow> u16 \<Rightarrow> u16 \<Rightarrow> bool \<Rightarrow> u32 \<Rightarrow> manager \<Rightarrow> outport host" where
  "outport_boot ingress_id segment_size recv_window crc route m =
     (case new_DataStream 0 ingress_id segment_size recv_window crc route m of
        (ds, m') \<Rightarrow> \<lparr>host_scratch = [], host_world = \<lparr>w_mgr = m', w_ds = ds, w_app = outport_init, w_trace = []\<rparr>\<rparr>)"

inductive outport_reachable :: "fgw_env \<Rightarrow> outport host \<Rightarrow> bool" for env where
  boot: "mgr_reachable env m \<Longrightarrow> outport_reachable env (outport_boot i seg win crc route m)"
| step: "outport_reachable env hst \<Longrightarrow> outport_step env hst hst' \<Longrightarrow> outport_reachable env hst'"

lemma outport_boot_inv:
  assumes "mgr_inv m"
  shows "outport_gate env (host_world (outport_boot i seg win crc route m))"
proof -
  have "mgr_inv (addBytesSubscriber 0 m)" by (rule mgr_step_inv [OF mgr_step.subscribe assms])
  then show ?thesis
    by (simp add: outport_boot_def new_DataStream_def outport_gate_def outport_inv_def outport_core_def filed_def
        find_session_def outport_init_def relay_def relay_ok_new)
qed

lemma outport_step_inv:
  "outport_step env hst hst' \<Longrightarrow> outport_gate env (host_world hst) \<Longrightarrow> outport_gate env (host_world hst')"
proof (induction rule: outport_step.induct)
  case (links hst m)
  then have "quiet (host_world hst) (upd_mgr (\<lambda>_. m) (host_world hst))"
    using mgr_step_inv mgr_step_wires by (intro quiet_upd_mgr)
  from gate_quiet [OF this links.prems] show ?case by simp
qed (simp_all add: outport.I_read outport.I_tick gate_open gate_target_bytes gate_target_close gate_stop_outport)

lemma outport_reachable_inv: "outport_reachable env hst \<Longrightarrow> roomy env \<Longrightarrow> outport_inv (host_world hst)"
proof -
  assume roomy: "roomy env"
  have "outport_reachable env hst \<Longrightarrow> outport_gate env (host_world hst)"
  proof (induction rule: outport_reachable.induct)
    case (boot m i seg win crc route)
    then show ?case by (intro outport_boot_inv mgr_reachable_inv)
  next
    case (step hst hst')
    then show ?case using outport_step_inv by blast
  qed
  then show "outport_reachable env hst \<Longrightarrow> outport_inv (host_world hst)" using roomy by (simp add: outport_gate_def)
qed

section \<open>What holds in every run\<close>

text \<open>C9: In every reachable state of an Outport gateway whose memory does not run out, its table names exactly
  the open relays, each under its own peer ingress and session id; a relay has a target connection exactly
  while it connects or relays and wrote to it only after that; and every session handler of the stream is a
  relay made for that session.\<close>

theorem outport_runs_safe:
  assumes "outport_reachable env hst" and "roomy env" and "w = host_world hst"
  shows "(\<forall>k h. smap_find (op_sessions (w_app w)) k = Some h \<longleftrightarrow>
      h < op_next_ref (w_app w) \<and> rs_state (relay h w) \<noteq> ST_CLOSED \<and>
      k = (rs_peer_ingress_id (relay h w), rs_session_id (relay h w))) \<and>
    (\<forall>h. (rs_remote_tcp (relay h w) \<longleftrightarrow> rs_state (relay h w) \<in> {ST_CONNECTING, ST_RELAYING}) \<and>
      (rs_remote_out (relay h w) \<noteq> [] \<longrightarrow> rs_state (relay h w) \<in> {ST_RELAYING, ST_CLOSED})) \<and>
    (\<forall>k st h. find_session k w = Some st \<longrightarrow> st_handler st = Some h \<longrightarrow> h < op_next_ref (w_app w) \<and>
      k = (rs_peer_ingress_id (relay h w), rs_session_id (relay h w)))"
proof -
  have inv: "outport_core w" "filed w"
    using outport_reachable_inv [OF assms(1,2)] by (simp_all add: outport_inv_def assms(3))
  have "smap_find (op_sessions (w_app w)) k = Some h \<longleftrightarrow>
      h < op_next_ref (w_app w) \<and> rs_state (relay h w) \<noteq> ST_CLOSED \<and> k = relay_key h w" for k h
    using inv unfolding outport_core_def filed_def by blast
  moreover have "relay_ok (relay h w) (delivered h (w_trace w))" for h
    using inv(1) by (simp add: outport_core_def)
  moreover have "relay_ok (relay h w) d \<Longrightarrow>
      (rs_remote_tcp (relay h w) \<longleftrightarrow> rs_state (relay h w) \<in> {ST_CONNECTING, ST_RELAYING}) \<and>
      (rs_remote_out (relay h w) \<noteq> [] \<longrightarrow> rs_state (relay h w) \<in> {ST_RELAYING, ST_CLOSED})" for h d
    by (cases "rs_state (relay h w)") (simp_all add: relay_ok_def)
  moreover have "serves w h k" if "find_session k w = Some st" "st_handler st = Some h" for k st h
    using that inv(1) unfolding outport_core_def by blast
  then have "h < op_next_ref (w_app w) \<and> k = relay_key h w" if "find_session k w = Some st" "st_handler st = Some h" for k st h
    using that unfolding serves_def by metis
  ultimately show ?thesis unfolding relay_key_def by blast
qed

text \<open>C8: In every reachable state of an Outport gateway whose memory does not run out: if the bytes the stream
  delivered to a relay are a SOCKS5 greeting, a CONNECT request and data (RFC 1928), then what the relay wrote
  to its target is a prefix of the data, all of it while the relay relays, and the target is the host and port
  of the request.\<close>

theorem target_gets_what_follows_the_request:
  assumes "outport_reachable env hst" and "roomy env" and "w = host_world hst"
    and "delivered h (w_trace w) = greeting methods @ client_request 1 a port @ data"
    and "length methods < 256" and "addr_ok a"
  shows "(\<exists>n. concat (rs_remote_out (relay h w)) = take n data) \<and>
    (rs_state (relay h w) = ST_RELAYING \<longrightarrow> concat (rs_remote_out (relay h w)) = data) \<and>
    (rs_remote_out (relay h w) \<noteq> [] \<or> rs_remote_tcp (relay h w) \<longrightarrow>
      rs_target_addr (relay h w) = addr_text a @ '':'' @ decimal (unat port))"
proof -
  have ok: "relay_ok (relay h w) (delivered h (w_trace w))"
    using outport_reachable_inv [OF assms(1,2)] inv_relay_ok by (simp add: assms(3))
  have view: "socks_view (delivered h (w_trace w)) = (ST_CONNECTING, addr_text a @ '':'' @ decimal (unat port), data)"
    unfolding assms(4) using view_of_client [OF assms(5,6), of port data] by (simp add: SOCKS5_CMD_CONNECT_def)
  show ?thesis
    using ok view by (cases "rs_state (relay h w)") (auto simp: relay_ok_def intro: exI [of _ 0] exI [of _ "length data"])
qed

section \<open>A run\<close>

text \<open>The first DATA segment of a session nobody opened makes a relay and feeds it.\<close>

lemma first_data:
  assumes new: "find_session k w = None" "smap_find (op_sessions (w_app w)) k = None"
    and k: "k = (rx_ingress_of hdr, hdr_session_id hdr)" and hdr: "has_data hdr" "\<not> isSyn hdr" "\<not> isFin hdr" "hdr_seq_num hdr = 0"
    and ds: "0 < ds_recv_window (w_ds w)" "\<not> smap_count (ds_dedup_map (w_ds w)) (segment_dedup_key hdr (fst k))"
    and mem: "length p \<le> e_mb_space env now (length p)" and p: "p \<noteq> []"
  shows "\<exists>w0. process_session_segment env now (outport_ops env now ts) r hdr p w = feedRx env now (op_next_ref (w_app w)) p w0 \<and>
    relay (op_next_ref (w_app w)) w0 = new_FgwRelaySession (fst k) (snd k) ts \<and>
    w_trace w0 = w_trace w @ [EvData (op_next_ref (w_app w)) (snd k) p] \<and> op_next_ref (w_app w0) = Suc (op_next_ref (w_app w)) \<and>
    find_session k w0 = Some (SessionState_init\<lparr>st_session_id := snd k, st_wire_ingress_id := fst k,
      st_handler := Some (op_next_ref (w_app w)), st_expected_rx_seq := 1\<rparr>) \<and>
    w_mgr w0 = w_mgr w \<and> ds_setup (w_ds w0) = ds_setup (w_ds w)"
proof -
  let ?H = "outport_ops env now ts" and ?h = "op_next_ref (w_app w)"
  define w1 where "w1 = note_fresh (segment_dedup_key hdr (rx_ingress_of hdr)) (peer_channel r w) w"
  have w1: "find_session k w1 = None" "w_app w1 = w_app w" "w_trace w1 = w_trace w" "w_mgr w1 = w_mgr w"
    "ds_setup (w_ds w1) = ds_setup (w_ds w)"
    using neutral_find [OF neutral_note(1) [of w], of k] new(1) neutral_note(1) [of w]
    by (simp_all add: w1_def neutral_def) (simp add: note_fresh_def Let_def)
  define op where "op = (w_app w)\<lparr>op_heap := (op_heap (w_app w))(?h := new_FgwRelaySession (fst k) (snd k) ts),
      op_next_ref := Suc ?h, op_sessions := smap_set k ?h (op_sessions (w_app w))\<rparr>"
  let ?st = "SessionState_init\<lparr>st_session_id := snd k, st_wire_ingress_id := fst k, st_handler := Some ?h\<rparr>"
  let ?w2 = "put_session k ?st (w1\<lparr>w_app := op\<rparr>)"
  have ensure: "ensure_session ?H k w1 = ?w2"
    using w1 new(2) by (simp add: ensure_session_def create_session_def outport_ops_def outport_unknown_def
        outport_ensureSession_def op_def Let_def)
  have win: "(ucast (ds_recv_window (w_ds w)) :: u32) \<noteq> 0"
    using ds(1) unat_ucast_u16 [of "ds_recv_window (w_ds w)"] by (metis less_irrefl unat_eq_zero)
  have out: "\<not> outside_window k 0 w"
    using new(1) win by (simp add: outside_window_def)
  define w3 where "w3 = put_session k (?st\<lparr>st_rx_buffer := [], st_expected_rx_seq := 1\<rparr>)
      (put_session k (?st\<lparr>st_rx_buffer := [(0, p)]\<rparr>) ?w2)"
  have "process_session_segment env now ?H r hdr p w = process_data env now ?H k 0 p w1"
    using hdr ds(2) out by (simp add: process_session_segment_alt w1_def k Let_def)
  also have "process_data env now ?H k 0 p w1 = feedRx env now ?h p (w3\<lparr>w_trace := w_trace w3 @ [EvData ?h (snd k) p]\<rparr>)"
    using mem p by (simp add: process_data_def ensure deliverInOrder_def call_data_def w3_def SessionState_init_def
        smap_emplace_def Let_def) (simp add: outport_ops_def)
  finally have run: "process_session_segment env now ?H r hdr p w = feedRx env now ?h p (w3\<lparr>w_trace := w_trace w3 @ [EvData ?h (snd k) p]\<rparr>)" .
  have "ds_setup (w_ds (put_session k s v)) = ds_setup (w_ds v)" for s and v :: "outport world"
    by (simp add: put_session_def upd_ds_def ds_setup_def)
  with run show ?thesis
    by (intro exI [of _ "w3\<lparr>w_trace := w_trace w3 @ [EvData ?h (snd k) p]\<rparr>"])
      (simp add: w3_def w1 relay_def op_def SessionState_init_def)
qed

definition sample_outport :: "outport host" where
  "sample_outport = outport_boot 1 1200 16 False 0 sample_manager"

definition sample_request :: bytes where
  "sample_request = greeting [0] @ client_request 1 (IPv4 [127, 0, 0, 1]) 80 @ [42]"

definition sample_first :: "FgwSegmentHeader \<times> bytes" where
  "sample_first = (segment_header (w_ds (host_world sample_outport)) 7 1 0 FLAG_DATA (length sample_request), sample_request)"

definition sample_connecting :: "outport host" where
  "sample_connecting = tcp_on_read_data open_env 0 (outport_ops open_env 0 0) 0 0 (wire_image [sample_first]) sample_outport"

lemma sample_first_arrives:
  "\<exists>w0 n. host_world sample_connecting = feedRx open_env 0 0 sample_request w0 \<and> relay 0 w0 = new_FgwRelaySession 7 1 0 \<and>
     w_trace w0 = [EvData 0 1 sample_request] \<and> op_next_ref (w_app w0) = 1 \<and>
     find_session (7, 1) w0 = Some (SessionState_init\<lparr>st_session_id := 1, st_wire_ingress_id := 7, st_handler := Some 0,
       st_expected_rx_seq := 1\<rparr>) \<and>
     w_mgr w0 = upd_chan 0 noteSegmentRecv (upd_chan 0 (addRecvBytes 0 n) (w_mgr (host_world sample_outport))) \<and>
     ds_setup (w_ds w0) = ds_setup (w_ds (host_world sample_outport))"
proof -
  let ?w = "host_world sample_outport"
  define w1 where "w1 = upd_mgr (upd_chan 0 (addRecvBytes 0 (of_nat (length (wire_image [sample_first]))))) ?w"
  define w2 where "w2 = upd_mgr (upd_chan 0 noteSegmentRecv) w1"
  have boot: "w_app ?w = outport_init" "w_trace ?w = []" "find_session k ?w = None" "ds_recv_window (w_ds ?w) = 16"
    "ds_dedup_map (w_ds ?w) = []" "ds_self (w_ds ?w) = 0" "m_bytes_subscribers (w_mgr ?w) = [0]"
    "ch_tcp_ptr (m_heap (w_mgr ?w) 0) = Some 0" "host_scratch sample_outport = []" for k
    by (simp_all add: sample_outport_def outport_boot_def new_DataStream_def find_session_def addBytesSubscriber_def
        sample_subscribers sample_manager_facts)
  have send: "sendable sample_first" by (simp add: sample_first_def sendable_def sample_request_def greeting_def
        client_request_def MAX_PAYLOAD_def)
  have first: "sample_first = (fst sample_first, sample_request)" "\<not> link_control (fst sample_first)"
    by (simp_all add: sample_first_def data_header_flags)
  have loop: "frame_loop step (wire_image [sample_first]) s = ([], step_segment step s sample_first)" for step and s :: "outport world"
    using frame_loop_images [of "[sample_first]" "[]" step s] send scan_frame_Nil by simp
  have "host_world sample_connecting = receive open_env 0 (outport_ops open_env 0 0) w1 (0, sample_first)"
    using boot by (simp add: sample_connecting_def tcp_on_read_data_def dispatchChannelBytes_def onChannelBytes_def
        upd_chan_def scratch_of_def receive_def w1_def loop) 
  also have "\<dots> = process_session_segment open_env 0 (outport_ops open_env 0 0) 0
      (decoded_header (fst sample_first) sample_request) sample_request w2"
    using send first receive_image [of "fst sample_first" sample_request open_env 0 "outport_ops open_env 0 0" w1 0]
    by (simp add: w2_def link_control_def Let_def)
  finally have run: "host_world sample_connecting = \<dots>" .
  let ?hdr = "decoded_header (fst sample_first) sample_request"
  have hdr: "rx_ingress_of ?hdr = 7" "hdr_session_id ?hdr = 1" "hdr_seq_num ?hdr = 0" "\<not> isSyn ?hdr" "\<not> isFin ?hdr"
    by (simp_all add: sample_first_def data_header_flags)
  have data: "has_data ?hdr" "sample_request \<noteq> []"
    using send by (simp_all add: decoded_has_data sendable_def sample_first_def data_header_flags)
      (simp_all add: sample_request_def greeting_def)
  have w2: "w_app w2 = outport_init" "w_trace w2 = []" "find_session k w2 = None" "ds_recv_window (w_ds w2) = 16"
    "ds_dedup_map (w_ds w2) = []" for k
    using boot by (simp_all add: w2_def w1_def)
  have "smap_find (op_sessions (w_app w2)) (7, 1) = None" "0 < ds_recv_window (w_ds w2)"
    "\<not> smap_count (ds_dedup_map (w_ds w2)) (segment_dedup_key ?hdr (fst (7, 1 :: u32)))"
    "length sample_request \<le> e_mb_space open_env 0 (length sample_request)" "(7, 1) = (rx_ingress_of ?hdr, hdr_session_id ?hdr)"
    by (simp_all only: w2 hdr) (simp_all add: outport_init_def smap_count_def open_env_def)
  from first_data [of "(7, 1)" w2 ?hdr sample_request open_env 0 0 0, OF w2(3) this(1,5) data(1) hdr(4,5,3) this(2,3,4) data(2)]
  show ?thesis
    unfolding run w2(1,2) by (auto simp: outport_init_def w2_def w1_def)
qed

lemma sample_connecting_facts:
  "delivered 0 (w_trace (host_world sample_connecting)) = sample_request"
  "op_next_ref (w_app (host_world sample_connecting)) = 1"
  "rs_remote_tcp (relay 0 (host_world sample_connecting))"
proof -
  from sample_first_arrives obtain w0 where w0: "host_world sample_connecting = feedRx open_env 0 0 sample_request w0"
    "relay 0 w0 = new_FgwRelaySession 7 1 0" "w_trace w0 = [EvData 0 1 sample_request]" "op_next_ref (w_app w0) = 1" by blast
  have fr: "relay_frame 0 w0 (host_world sample_connecting)" unfolding w0(1) by (rule relay_frame_feed)
  show "delivered 0 (w_trace (host_world sample_connecting)) = sample_request"
    "op_next_ref (w_app (host_world sample_connecting)) = 1"
    using fr w0(3,4) by (simp_all add: relay_frame_def)
  have "rs_state (relay 0 w0) = ST_AWAIT_METHODS" "rs_rx_buffer (relay 0 w0) = []"
    by (simp_all add: w0(2) new_FgwRelaySession_def)
  then show "rs_remote_tcp (relay 0 (host_world sample_connecting))"
    using handshake [of 0 w0 "[0]" "IPv4 [127, 0, 0, 1]" "[sample_request]" 80 "[42]" open_env 0]
    by (simp add: w0(1) sample_request_def) (simp add: open_env_def)
qed

definition sample_relaying :: "outport host" where
  "sample_relaying = sample_connecting\<lparr>host_world := remote_on_open open_env 1 0 (host_world sample_connecting)\<rparr>"

lemma sample_relaying_reachable: "outport_reachable open_env sample_relaying"
proof -
  have "outport_reachable open_env sample_outport"
    unfolding sample_outport_def by (rule outport_reachable.boot [OF sample_manager_reachable])
  then have "outport_reachable open_env sample_connecting"
    unfolding sample_connecting_def by (rule outport_reachable.step) (rule outport_step.link_bytes)
  then show ?thesis
    unfolding sample_relaying_def
    by (rule outport_reachable.step) (rule outport_step.target_open, simp add: sample_connecting_facts)
qed

lemma sample_relaying_facts:
  "delivered 0 (w_trace (host_world sample_relaying)) = sample_request"
  "rs_state (relay 0 (host_world sample_relaying)) = ST_RELAYING"
  "op_next_ref (w_app (host_world sample_relaying)) = 1"
proof -
  let ?w = "host_world sample_connecting"
  have eq: "host_world sample_relaying = rs_onRemoteOpen open_env 1 0 ?w"
    by (simp add: sample_relaying_def remote_on_open_def sample_connecting_facts)
  have tr: "w_trace (rs_flush env now c h v) = w_trace v" "op_next_ref (w_app (rs_flush env now c h v)) = op_next_ref (w_app v)"
    "rs_state (relay h (rs_flush env now c h v)) = rs_state (relay h v)" for env now c h v
    by (simp_all add: rs_flush_def Let_def)
  have "w_trace (rs_writeReply env now h rep v) = w_trace v"
    "op_next_ref (w_app (rs_writeReply env now h rep v)) = op_next_ref (w_app v)" for env now h rep v
    using relay_frame_send(2) [of h v env now rep] by (simp_all add: relay_frame_def)
  then show "delivered 0 (w_trace (host_world sample_relaying)) = sample_request"
    "rs_state (relay 0 (host_world sample_relaying)) = ST_RELAYING"
    "op_next_ref (w_app (host_world sample_relaying)) = 1"
    by (simp_all add: eq rs_onRemoteOpen_def tr sample_connecting_facts Let_def)
qed

theorem outport_runs_safe_witness:
  "smap_find (op_sessions (w_app (host_world sample_relaying))) (rs_peer_ingress_id (relay 0 (host_world sample_relaying)),
     rs_session_id (relay 0 (host_world sample_relaying))) = Some 0 \<and> rs_remote_tcp (relay 0 (host_world sample_relaying))"
  using outport_runs_safe [OF sample_relaying_reachable roomy_open_env refl] by (simp add: sample_relaying_facts)

theorem target_gets_what_follows_the_request_witness:
  "concat (rs_remote_out (relay 0 (host_world sample_relaying))) = [42]"
proof -
  have "delivered 0 (w_trace (host_world sample_relaying)) = greeting [0] @ client_request 1 (IPv4 [127, 0, 0, 1]) 80 @ [42]"
    by (simp add: sample_relaying_facts sample_request_def)
  from target_gets_what_follows_the_request [OF sample_relaying_reachable roomy_open_env refl this]
  show ?thesis by (simp add: sample_relaying_facts)
qed

section \<open>A relay that closes while the stream delivers\<close>

text \<open>\<^verbatim>\<open>deliverInOrder\<close> holds the plain handler pointer over all the blocks that are ready. When the first
  one makes the relay close, which removes it from the tables that own it, the second is handed to it all
  the same.\<close>

lemma released_relay_is_called:
  assumes st: "find_session k w = Some st" "st_handler st = Some h"
    and ready: "collect_ready (st_rx_buffer st) (st_expected_rx_seq st) = ([b1, b2], buf, e)"
    and s: "rs_state (relay h w) = ST_AWAIT_METHODS" "rs_rx_buffer (relay h w) = []"
    and b: "2 \<le> length b1" "b1 ! 0 \<noteq> 5" "b2 \<noteq> []"
  shows "\<exists>w0 w1. relay_gone h w0 w1 \<and> relay h w0 = relay h w \<and>
    deliverInOrder (outport_ops env now ts) k w =
      feedRx env now h b2 (w1\<lparr>w_trace := w_trace w1 @ [EvData h (st_session_id st) b2]\<rparr>)"
proof -
  let ?w = "put_session k (st\<lparr>st_rx_buffer := buf, st_expected_rx_seq := e\<rparr>) w"
  let ?w0 = "?w\<lparr>w_trace := w_trace ?w @ [EvData h (st_session_id st) b1]\<rparr>"
  have rel: "relay h ?w0 = relay h w" by (simp add: relay_def)
  have "feedRx env now h b1 ?w0 = rs_close env now h (more_rx h b1 ?w0)"
    using s b rel by (simp add: feedRx_more feed_methods tryParseMethods_def SOCKS5_VER_def)
  then have "relay_gone h ?w0 (feedRx env now h b1 ?w0)"
    using relay_gone_close [of h "more_rx h b1 ?w0" env now] s rel by (simp add: relay_gone_def) (simp add: more_rx_def)
  moreover have "b1 \<noteq> []" using b(1) by auto
  then have "deliverInOrder (outport_ops env now ts) k w = feedRx env now h b2 ((feedRx env now h b1 ?w0)
      \<lparr>w_trace := w_trace (feedRx env now h b1 ?w0) @ [EvData h (st_session_id st) b2]\<rparr>)"
    using st ready b(3) by (simp add: deliverInOrder_def call_data_def) (simp add: outport_ops_def)
  ultimately show ?thesis using rel by blast
qed

end
