(* ===== verification/Fgw_Transit.thy ===== *)
theory Fgw_Transit
  imports Fgw_Send Fgw_Receive
begin

text \<open>
  The relay gateway, \<^verbatim>\<open>src/src/zfgw_transit.{h,cpp}\<close>: \<^verbatim>\<open>TransitService\<close> forwards whole segments between
  links accepted from Inports and links dialed to Outports, without session state. Channels live
  on a heap as in \<open>Fgw_Manager\<close>, and a \<^verbatim>\<open>Link\<close>'s \<^verbatim>\<open>chan\<close> is the reference it is stored under. An
  object whose last \<^verbatim>\<open>SmartPtr\<close> goes away is destroyed, and its destructor closes it: \<open>destroy\<close>.
  One-shot timers are listed in \<open>t_timers\<close> with their delay and run by \<open>transit_timer\<close>.
\<close>

section \<open>Data\<close>

record Link =
  tl_outbound :: bool
  tl_buffer :: bytes

datatype transit_timer =
  TLinkClosed chan_ref
| TRedial u32

record transit =
  t_config :: FgwConfig
  t_acceptor :: bool
  t_heartbeat_timer :: "nat option"
  t_accepted_id_seq :: u32
  t_links :: "(chan_ref, Link) std_map"
  t_outbound_by_outport :: "(u32, chan_ref) std_map"
  t_inbound_by_ingress :: "(u32, chan_ref) std_map"
  t_heap :: "chan_ref \<Rightarrow> channel"
  t_next_ref :: chan_ref
  t_timers :: "(nat \<times> transit_timer) list"

definition transit_init :: "FgwConfig \<Rightarrow> transit" where
  "transit_init cfg =
     \<lparr>t_config = cfg, t_acceptor = False, t_heartbeat_timer = None, t_accepted_id_seq = 0x80000000,
      t_links = [], t_outbound_by_outport = [], t_inbound_by_ingress = [],
      t_heap = (\<lambda>_. new_channel 0 CHANNEL_TCP 0), t_next_ref = 0, t_timers = []\<rparr>"

definition t_upd_chan :: "chan_ref \<Rightarrow> (channel \<Rightarrow> channel) \<Rightarrow> transit \<Rightarrow> transit" where
  "t_upd_chan r f t = t\<lparr>t_heap := (t_heap t)(r := f (t_heap t r))\<rparr>"

definition destroy :: "chan_ref \<Rightarrow> transit \<Rightarrow> transit" where
  "destroy r t = t_upd_chan r chan_close t"

definition t_send :: "fgw_env \<Rightarrow> u32 \<Rightarrow> bytes \<Rightarrow> chan_ref \<Rightarrow> transit \<Rightarrow> transit" where
  "t_send env now buf r t = t_upd_chan r (\<lambda>c. snd (sendBytes env now buf c)) t"

section \<open>Operations\<close>

definition findOutbound :: "u32 \<Rightarrow> transit \<Rightarrow> chan_ref option" where
  "findOutbound outport_id t = smap_find (t_outbound_by_outport t) outport_id"

definition findInbound :: "u32 \<Rightarrow> transit \<Rightarrow> chan_ref option" where
  "findInbound ingress_id t = smap_find (t_inbound_by_ingress t) ingress_id"

definition scheduleOutportRedial :: "u32 \<Rightarrow> transit \<Rightarrow> transit" where
  "scheduleOutportRedial outport_id t =
     (let backoff = (if cfg_reconnect_max (t_config t) > 0 then unat (cfg_reconnect_max (t_config t)) else 30)
      in t\<lparr>t_timers := t_timers t @ [(backoff * 1000, TRedial outport_id)]\<rparr>)"

definition dialOneOutport :: "fgw_env \<Rightarrow> u32 \<Rightarrow> FgwChannelConfig \<Rightarrow> transit \<Rightarrow> transit" where
  "dialOneOutport env now ccfg t =
     (let r = t_next_ref t;
          stale = smap_find (t_outbound_by_outport t) (cc_channel_id ccfg);
          t = t\<lparr>t_heap := (t_heap t)(r := new_channel (cc_channel_id ccfg) CHANNEL_TCP (cc_priority ccfg)),
                t_next_ref := Suc r\<rparr>;
          t = (case stale of None \<Rightarrow> t | Some s \<Rightarrow> t\<lparr>t_links := smap_erase s (t_links t)\<rparr>);
          t = t\<lparr>t_links := smap_set r \<lparr>tl_outbound = True, tl_buffer = []\<rparr> (t_links t)\<rparr>;
          t = t\<lparr>t_outbound_by_outport := smap_set (cc_channel_id ccfg) r (t_outbound_by_outport t)\<rparr>;
          t = (case stale of None \<Rightarrow> t | Some s \<Rightarrow> destroy s t);
          (ret, c) = chan_connect env now (cc_remote ccfg) (t_heap t r);
          t = t_upd_chan r (\<lambda>_. c) t
      in if ret < 0 then scheduleOutportRedial (cc_channel_id ccfg) t else t)"

definition dialOutports :: "fgw_env \<Rightarrow> u32 \<Rightarrow> transit \<Rightarrow> transit" where
  "dialOutports env now t = foldl (\<lambda>t ccfg. dialOneOutport env now ccfg t) t (cfg_channels (t_config t))"

definition makeInboundChannel :: "transit \<Rightarrow> chan_ref \<times> transit" where
  "makeInboundChannel t =
     (let cid = t_accepted_id_seq t; r = t_next_ref t
      in (r, t\<lparr>t_accepted_id_seq := cid + 1,
               t_heap := (t_heap t)(r := markAccepted (new_channel cid CHANNEL_TCP 100)), t_next_ref := Suc r,
               t_links := smap_set r \<lparr>tl_outbound = False, tl_buffer = []\<rparr> (t_links t)\<rparr>))"

definition accept_inport :: "transit \<Rightarrow> chan_ref \<times> transit" where
  "accept_inport t = (case makeInboundChannel t of (r, t) \<Rightarrow> (r, t_upd_chan r createAcceptedHandler t))"

definition t_startHeartbeat :: "transit \<Rightarrow> transit" where
  "t_startHeartbeat t =
     (let interval = (if cfg_heartbeat_interval (t_config t) > 0
                      then unat (cfg_heartbeat_interval (t_config t)) else 5)
      in t\<lparr>t_heartbeat_timer := Some (interval * 1000)\<rparr>)"

definition t_sendHeartbeat :: "fgw_env \<Rightarrow> u32 \<Rightarrow> chan_ref \<Rightarrow> transit \<Rightarrow> transit" where
  "t_sendHeartbeat env now r t =
     (let hdr = FgwSegmentHeader_init\<lparr>hdr_flags := FLAG_HEARTBEAT, hdr_payload_len := 0,
                  hdr_session_id := 0, hdr_seq_num := 0, hdr_ingress_id := cfg_ingress_id (t_config t)\<rparr>
      in case encode_block 64 hdr None 0 of Inl e \<Rightarrow> t | Inr frame \<Rightarrow> t_send env now frame r t)"

definition t_onHeartbeatTick :: "fgw_env \<Rightarrow> u32 \<Rightarrow> transit \<Rightarrow> transit" where
  "t_onHeartbeatTick env now t =
     foldl (\<lambda>t r. if ch_connected (t_heap t r) then t_sendHeartbeat env now r t else t) t (map fst (t_links t))"

definition transit_start :: "fgw_env \<Rightarrow> u32 \<Rightarrow> transit \<Rightarrow> int \<times> transit" where
  "transit_start env now t =
     (let t = dialOutports env now t; ip = cfg_outport_listen_host (t_config t); port = cfg_outport_listen_port (t_config t)
      in if port \<noteq> 0 \<and> e_acceptor_listen env (if ip = [] then ''0.0.0.0'' else ip) port < 0
         then (errcode ERR_LISTENFAIL, t)
         else (0, t_startHeartbeat (if port \<noteq> 0 then t\<lparr>t_acceptor := True\<rparr> else t)))"

definition transit_stop :: "transit \<Rightarrow> transit" where
  "transit_stop t =
     (let links = t_links t;
          t = t\<lparr>t_heartbeat_timer := None, t_acceptor := False, t_links := [], t_outbound_by_outport := [],
                t_inbound_by_ingress := []\<rparr>
      in foldl (\<lambda>t r. t_upd_chan r chan_close t) t (map fst links))"

text \<open>One turn of the loop of \<^verbatim>\<open>onLinkBytes\<close>, once a whole frame is there.\<close>

definition relay_segment ::
  "fgw_env \<Rightarrow> u32 \<Rightarrow> chan_ref \<Rightarrow> bool \<Rightarrow> FgwSegmentHeader \<Rightarrow> nat \<Rightarrow> bytes \<Rightarrow> transit \<Rightarrow> transit" where
  "relay_segment env now r outbound hdr hr frame t =
     (if isHello hdr then
        (if \<not> outbound then
           (case zds_unpack_FgwHello (e_zds env) FgwHello_init (bslice hr (unat (hdr_payload_len hdr)) frame) True of
              (ret, hello) \<Rightarrow>
                if ret \<ge> 0 \<and> hello_proto_version hello = kFgwProtoVersion
                then t\<lparr>t_inbound_by_ingress := smap_set (hello_ingress_id hello) r (t_inbound_by_ingress t)\<rparr>
                else t)
         else t)
      else if isHeartbeat hdr \<or> isAck hdr then t
      else if \<not> outbound then
        (let t = t\<lparr>t_inbound_by_ingress := smap_set (hdr_ingress_id hdr) r (t_inbound_by_ingress t)\<rparr>
         in case findOutbound (hdr_outport_id hdr) t of
              None \<Rightarrow> t
            | Some out \<Rightarrow> t_send env now frame out t)
      else
        (case findInbound (hdr_ingress_id hdr) t of
           None \<Rightarrow> t
         | Some inb \<Rightarrow> t_send env now frame inb t))"

definition onLinkBytes :: "fgw_env \<Rightarrow> u32 \<Rightarrow> chan_ref \<Rightarrow> bytes \<Rightarrow> transit \<Rightarrow> transit" where
  "onLinkBytes env now r buf t =
     (case smap_find (t_links t) r of
        None \<Rightarrow> t
      | Some L \<Rightarrow>
          (case frame_loop (relay_segment env now r (tl_outbound L)) (tl_buffer L @ buf) t of
             (rest, t) \<Rightarrow> t\<lparr>t_links := smap_set r (L\<lparr>tl_buffer := rest\<rparr>) (t_links t)\<rparr>))"

definition onLinkClosed :: "chan_ref \<Rightarrow> transit \<Rightarrow> transit" where
  "onLinkClosed r t = t\<lparr>t_timers := t_timers t @ [(1, TLinkClosed r)]\<rparr>"

definition drop_ref :: "chan_ref \<Rightarrow> (u32, chan_ref) std_map \<Rightarrow> (u32, chan_ref) std_map" where
  "drop_ref r m = filter (\<lambda>kv. snd kv \<noteq> r) m"

text \<open>The deferred part of \<^verbatim>\<open>onLinkClosed\<close>. The outport id kept is the last one met in the loop.\<close>

definition link_closed :: "chan_ref \<Rightarrow> transit \<Rightarrow> transit" where
  "link_closed r t =
     (case smap_find (t_links t) r of
        None \<Rightarrow> t
      | Some L \<Rightarrow>
          let served = map fst (filter (\<lambda>kv. snd kv = r) (t_outbound_by_outport t));
              t = t\<lparr>t_outbound_by_outport := drop_ref r (t_outbound_by_outport t)\<rparr>;
              t = t\<lparr>t_inbound_by_ingress := drop_ref r (t_inbound_by_ingress t)\<rparr>;
              t = t\<lparr>t_links := smap_erase r (t_links t)\<rparr>;
              t = destroy r t
          in if tl_outbound L \<and> served \<noteq> [] then scheduleOutportRedial (last served) t else t)"

definition redial_outport :: "fgw_env \<Rightarrow> u32 \<Rightarrow> u32 \<Rightarrow> transit \<Rightarrow> transit" where
  "redial_outport env now outport_id t =
     (case find (\<lambda>c. cc_channel_id c = outport_id) (cfg_channels (t_config t)) of
        None \<Rightarrow> t
      | Some cfg \<Rightarrow> dialOneOutport env now cfg t)"

definition transit_timer :: "fgw_env \<Rightarrow> u32 \<Rightarrow> nat \<Rightarrow> transit \<Rightarrow> transit" where
  "transit_timer env now i t =
     (if i < length (t_timers t) then
        let t' = t\<lparr>t_timers := take i (t_timers t) @ drop (Suc i) (t_timers t)\<rparr>
        in case snd (t_timers t ! i) of TLinkClosed r \<Rightarrow> link_closed r t' | TRedial o' \<Rightarrow> redial_outport env now o' t'
      else t)"

text \<open>Events of the transport, as for the manager.\<close>

definition t_on_open :: "u32 \<Rightarrow> chan_ref \<Rightarrow> nat \<Rightarrow> transit \<Rightarrow> transit" where
  "t_on_open now r h t =
     (if ch_tcp_ptr (t_heap t r) = Some h then t_upd_chan r (\<lambda>c. snd (markConnected now True c)) t else t)"

definition t_on_close :: "chan_ref \<Rightarrow> nat \<Rightarrow> transit \<Rightarrow> transit" where
  "t_on_close r h t =
     (if ch_tcp_ptr (t_heap t r) = Some h then onLinkClosed r (t_upd_chan r markClosed t) else t)"

definition t_on_read_data :: "fgw_env \<Rightarrow> u32 \<Rightarrow> chan_ref \<Rightarrow> nat \<Rightarrow> bytes \<Rightarrow> transit \<Rightarrow> transit" where
  "t_on_read_data env now r h buf t =
     (if ch_tcp_ptr (t_heap t r) = Some h
      then onLinkBytes env now r buf (t_upd_chan r (addRecvBytes now (of_nat (length buf))) t) else t)"

section \<open>The routing tables\<close>

text \<open>Links are allocated objects; the outbound table maps an outport id to a dialed link that
  carries that id, the inbound table maps an ingress id to an accepted link.\<close>

definition transit_inv :: "transit \<Rightarrow> bool" where
  "transit_inv t \<longleftrightarrow> smap_inv (t_links t) \<and>
     (\<forall>r L. smap_find (t_links t) r = Some L \<longrightarrow> r < t_next_ref t) \<and>
     (\<forall>(cid, r) \<in> set (t_outbound_by_outport t). ch_channel_id (t_heap t r) = cid \<and>
        (\<exists>L. smap_find (t_links t) r = Some L \<and> tl_outbound L)) \<and>
     (\<forall>(ing, r) \<in> set (t_inbound_by_ingress t). \<exists>L. smap_find (t_links t) r = Some L \<and> \<not> tl_outbound L) \<and>
     smap_inv (t_outbound_by_outport t) \<and> (\<forall>r. chan_inv (t_heap t r))"

lemma transit_inv_init: "transit_inv (transit_init cfg)"
  by (simp add: transit_inv_def transit_init_def)

lemma t_upd_chan_simps [simp]:
  "t_links (t_upd_chan r f t) = t_links t" "t_outbound_by_outport (t_upd_chan r f t) = t_outbound_by_outport t"
  "t_inbound_by_ingress (t_upd_chan r f t) = t_inbound_by_ingress t" "t_next_ref (t_upd_chan r f t) = t_next_ref t"
  "t_config (t_upd_chan r f t) = t_config t" "t_timers (t_upd_chan r f t) = t_timers t"
  "t_heap (t_upd_chan r f t) = (t_heap t)(r := f (t_heap t r))"
  by (simp_all add: t_upd_chan_def)

lemma transit_inv_upd:
  assumes "transit_inv t" and "ch_channel_id (f (t_heap t r)) = ch_channel_id (t_heap t r)" "chan_inv (f (t_heap t r))"
  shows "transit_inv (t_upd_chan r f t)"
  using assms by (auto simp: transit_inv_def)

lemma chan_close_keeps: "ch_channel_id (chan_close c) = ch_channel_id c" "chan_inv c \<Longrightarrow> chan_inv (chan_close c)"
  using chan_inv_ops(7) by (simp_all add: chan_defs split: ZFGW_CHANNEL_KIND.splits)

lemma transit_inv_heap: "transit_inv t \<Longrightarrow> chan_inv (t_heap t r)"
  by (simp add: transit_inv_def)

lemma transit_inv_destroy: "transit_inv t \<Longrightarrow> transit_inv (destroy r t)"
  unfolding destroy_def by (intro transit_inv_upd) (simp_all add: chan_close_keeps transit_inv_heap)

lemma transit_inv_send: "transit_inv t \<Longrightarrow> transit_inv (t_send env now buf r t)"
  unfolding t_send_def
  using sendBytes_identity [of env now buf "t_heap t r"]
  by (intro transit_inv_upd) (simp_all add: same_identity_fields(1) chan_inv_identity [OF _ transit_inv_heap])

lemma transit_inv_timers: "transit_inv t \<Longrightarrow> transit_inv (t\<lparr>t_timers := ts\<rparr>)"
  by (simp add: transit_inv_def)

lemma transit_inv_redial: "transit_inv t \<Longrightarrow> transit_inv (scheduleOutportRedial o' t)"
  by (simp add: scheduleOutportRedial_def Let_def transit_inv_timers)

lemma transit_inv_learn:
  assumes "transit_inv t" and "smap_find (t_links t) r = Some L" "\<not> tl_outbound L"
  shows "transit_inv (t\<lparr>t_inbound_by_ingress := smap_set ing r (t_inbound_by_ingress t)\<rparr>)"
proof -
  have "x \<in> insert (ing, r) (set m)" if "x \<in> set (smap_set ing r m)" for x m
    using that by (induction ing r m rule: smap_set.induct) (auto split: if_splits)
  with assms show ?thesis
    by (fastforce simp: transit_inv_def)
qed

lemma transit_inv_relay:
  assumes "transit_inv t" and "smap_find (t_links t) r = Some L"
  shows "transit_inv (relay_segment env now r (tl_outbound L) hdr hr frame t) \<and>
    t_links (relay_segment env now r (tl_outbound L) hdr hr frame t) = t_links t"
  using assms transit_inv_learn [OF assms]
  by (auto simp: relay_segment_def Let_def transit_inv_send t_send_def [THEN arg_cong, of t_links]
      split: prod.splits option.splits)

lemma transit_inv_onLinkBytes: "transit_inv t \<Longrightarrow> transit_inv (onLinkBytes env now r buf t)"
proof (cases "smap_find (t_links t) r")
  case (Some L)
  assume inv: "transit_inv t"
  obtain rest t' where loop: "frame_loop (relay_segment env now r (tl_outbound L)) (tl_buffer L @ buf) t = (rest, t')"
    by fastforce
  have "transit_inv t' \<and> smap_find (t_links t') r = Some L"
    using frame_loop_inv [of "\<lambda>t. transit_inv t \<and> smap_find (t_links t) r = Some L" t
        "relay_segment env now r (tl_outbound L)" "tl_buffer L @ buf"] transit_inv_relay inv Some loop
    by simp
  then show ?thesis
    using Some loop by (auto simp: onLinkBytes_def transit_inv_def smap_inv_set smap_find_set split: if_splits)
qed (simp add: onLinkBytes_def)

lemma transit_inv_closed: "transit_inv t \<Longrightarrow> transit_inv (link_closed r t)"
proof (cases "smap_find (t_links t) r")
  case (Some L)
  assume inv: "transit_inv t"
  define t1 where "t1 = t\<lparr>t_outbound_by_outport := drop_ref r (t_outbound_by_outport t),
      t_inbound_by_ingress := drop_ref r (t_inbound_by_ingress t), t_links := smap_erase r (t_links t)\<rparr>"
  have "smap_inv (drop_ref r (t_outbound_by_outport t))"
    using inv by (simp add: transit_inv_def drop_ref_def smap_inv_def sorted_wrt_filter sorted_wrt_map)
  then have "transit_inv t1"
    using inv by (auto simp: t1_def transit_inv_def smap_inv_erase smap_find_erase drop_ref_def)
  then have "transit_inv (destroy r t1)" by (rule transit_inv_destroy)
  then show ?thesis
    using Some by (auto simp: link_closed_def Let_def t1_def transit_inv_redial)
qed (simp add: link_closed_def)

lemma smap_set_other: "smap_inv m \<Longrightarrow> (a, b) \<in> set (smap_set k v m) \<Longrightarrow> (a, b) = (k, v) \<or> (a \<noteq> k \<and> (a, b) \<in> set m)"
  by (induction k v m rule: smap_set.induct) (auto simp: smap_inv_Cons split: if_splits)

lemma transit_inv_dial: "transit_inv t \<Longrightarrow> transit_inv (dialOneOutport env now ccfg t)"
proof -
  assume inv: "transit_inv t"
  let ?cid = "cc_channel_id ccfg" and ?r = "t_next_ref t"
  let ?stale = "smap_find (t_outbound_by_outport t) ?cid"
  define links where "links = smap_set ?r \<lparr>tl_outbound = True, tl_buffer = []\<rparr>
      (case ?stale of None \<Rightarrow> t_links t | Some s \<Rightarrow> smap_erase s (t_links t))"
  define t1 where "t1 = t\<lparr>t_heap := (t_heap t)(?r := new_channel ?cid CHANNEL_TCP (cc_priority ccfg)), t_next_ref := Suc ?r,
      t_links := links, t_outbound_by_outport := smap_set ?cid ?r (t_outbound_by_outport t)\<rparr>"
  define t2 where "t2 = (case ?stale of None \<Rightarrow> t1 | Some s \<Rightarrow> destroy s t1)"
  have fresh: "smap_find (t_links t) ?r = None"
    using inv by (cases "smap_find (t_links t) ?r") (auto simp: transit_inv_def)
  have stale: "ch_channel_id (t_heap t s) = ?cid" "\<exists>L. smap_find (t_links t) s = Some L \<and> tl_outbound L"
    if "?stale = Some s" for s
    using inv smap_find_in_set [OF that] by (auto simp: transit_inv_def)
  have find: "smap_find links x = (if x = ?r then Some \<lparr>tl_outbound = True, tl_buffer = []\<rparr>
      else if ?stale = Some x then None else smap_find (t_links t) x)" for x
    by (auto simp: links_def smap_find_set smap_find_erase split: option.split)
  have l1: "smap_inv links"
    using inv by (auto simp: links_def transit_inv_def smap_inv_set smap_inv_erase split: option.split)
  have l2: "\<forall>r L. smap_find links r = Some L \<longrightarrow> r < Suc ?r"
    using inv by (auto simp: find transit_inv_def less_Suc_eq)
  have o1: "ch_channel_id (t_heap t1 x) = a \<and> (\<exists>L. smap_find links x = Some L \<and> tl_outbound L)"
    if "(a, x) \<in> set (smap_set ?cid ?r (t_outbound_by_outport t))" for a x
  proof -
    have "(a, x) = (?cid, ?r) \<or> (a \<noteq> ?cid \<and> (a, x) \<in> set (t_outbound_by_outport t))"
      using smap_set_other [OF _ that] inv by (simp add: transit_inv_def)
    then show ?thesis
    proof
      assume old: "a \<noteq> ?cid \<and> (a, x) \<in> set (t_outbound_by_outport t)"
      then have x: "ch_channel_id (t_heap t x) = a" "\<exists>L. smap_find (t_links t) x = Some L \<and> tl_outbound L"
        using inv by (auto simp: transit_inv_def)
      then have "x \<noteq> ?r" "?stale \<noteq> Some x" using fresh stale(1) old by auto
      with x show ?thesis by (simp add: find t1_def)
    qed (simp add: find t1_def new_channel_def)
  qed
  have i1: "\<exists>L. smap_find links x = Some L \<and> \<not> tl_outbound L" if "(ing, x) \<in> set (t_inbound_by_ingress t)" for ing x
  proof -
    have x: "\<exists>L. smap_find (t_links t) x = Some L \<and> \<not> tl_outbound L"
      using inv that by (auto simp: transit_inv_def)
    then have "x \<noteq> ?r" "?stale \<noteq> Some x" using fresh stale(2) by auto
    with x show ?thesis by (simp add: find)
  qed
  have fields: "t_links t1 = links" "t_outbound_by_outport t1 = smap_set ?cid ?r (t_outbound_by_outport t)"
    "t_inbound_by_ingress t1 = t_inbound_by_ingress t" "t_next_ref t1 = Suc ?r"
    by (simp_all add: t1_def)
  have "smap_inv (t_outbound_by_outport t1)" "\<forall>r. chan_inv (t_heap t1 r)"
    using inv by (simp_all add: transit_inv_def fields smap_inv_set) (simp add: t1_def)
  then have "transit_inv t1"
    unfolding transit_inv_def fields using l1 l2 o1 i1 by blast
  then have t2: "transit_inv t2"
    by (auto simp: t2_def transit_inv_destroy split: option.split)
  have "transit_inv (t_upd_chan ?r (\<lambda>_. snd (chan_connect env now (cc_remote ccfg) (t_heap t2 ?r))) t2)"
    using t2 chan_inv_ops(8) by (intro transit_inv_upd) (simp_all add: chan_connect_id transit_inv_heap)
  moreover have "dialOneOutport env now ccfg t =
      (let t3 = t_upd_chan ?r (\<lambda>_. snd (chan_connect env now (cc_remote ccfg) (t_heap t2 ?r))) t2
       in if fst (chan_connect env now (cc_remote ccfg) (t_heap t2 ?r)) < 0 then scheduleOutportRedial ?cid t3 else t3)"
    by (auto simp: dialOneOutport_def Let_def t2_def t1_def links_def split: option.split prod.split)
  ultimately show ?thesis
    by (simp add: Let_def transit_inv_redial)
qed

lemma transit_inv_accept: "transit_inv t \<Longrightarrow> transit_inv (snd (accept_inport t))"
proof -
  assume inv: "transit_inv t"
  have fresh: "smap_find (t_links t) (t_next_ref t) = None"
    using inv by (cases "smap_find (t_links t) (t_next_ref t)") (auto simp: transit_inv_def)
  have "transit_inv (snd (makeInboundChannel t))"
    using inv fresh chan_inv_ops(2) [OF chan_inv_new]
    by (auto simp: transit_inv_def makeInboundChannel_def Let_def smap_inv_set smap_find_set less_Suc_eq)
  then have "transit_inv (t_upd_chan (t_next_ref t) createAcceptedHandler (snd (makeInboundChannel t)))"
    using chan_inv_ops(9) by (intro transit_inv_upd)
      (simp_all add: transit_inv_heap createAcceptedHandler_def new_handler_def markAccepted_def)
  then show ?thesis
    by (simp add: accept_inport_def makeInboundChannel_def Let_def)
qed

lemma transit_inv_close_all:
  "transit_inv t \<Longrightarrow> transit_inv (foldl (\<lambda>t r. t_upd_chan r chan_close t) t rs)"
  by (rule foldl_inv [where P = transit_inv]) (auto intro: transit_inv_destroy [unfolded destroy_def])

lemma transit_inv_stop: "transit_inv t \<Longrightarrow> transit_inv (transit_stop t)"
  unfolding transit_stop_def Let_def
  by (rule transit_inv_close_all) (simp add: transit_inv_def)

lemma transit_inv_heartbeat: "transit_inv t \<Longrightarrow> transit_inv (t_onHeartbeatTick env now t)"
  unfolding t_onHeartbeatTick_def
  by (rule foldl_inv [where P = transit_inv])
    (auto simp: t_sendHeartbeat_def Let_def transit_inv_send split: sum.split)

lemma transit_inv_start: "transit_inv t \<Longrightarrow> transit_inv (snd (transit_start env now t))"
proof -
  assume "transit_inv t"
  then have "transit_inv (dialOutports env now t)"
    unfolding dialOutports_def by (rule foldl_inv [where P = transit_inv]) (rule transit_inv_dial)
  then show ?thesis
    by (simp add: transit_start_def Let_def t_startHeartbeat_def transit_inv_def)
qed

lemma transit_inv_timer: "transit_inv t \<Longrightarrow> transit_inv (transit_timer env now i t)"
  by (auto simp: transit_timer_def Let_def transit_inv_timers redial_outport_def
      intro: transit_inv_closed transit_inv_dial split: transit_timer.split option.split)

lemma transit_inv_events:
  assumes "transit_inv t"
  shows "ch_kind (t_heap t r) = CHANNEL_TCP \<Longrightarrow> transit_inv (t_on_open now r h t)"
    "transit_inv (t_on_close r h t)" "transit_inv (t_on_read_data env now r h buf t)"
proof -
  show "transit_inv (t_on_open now r h t)" if "ch_kind (t_heap t r) = CHANNEL_TCP"
    using assms that chan_inv_markConnected [OF transit_inv_heap [OF assms], of r now True]
    by (auto simp: t_on_open_def intro!: transit_inv_upd) (simp add: markConnected_def Let_def)
  have "transit_inv (t_upd_chan r markClosed t)"
    using assms chan_inv_ops(4) by (intro transit_inv_upd) (simp_all add: transit_inv_heap markClosed_def)
  then show "transit_inv (t_on_close r h t)"
    using assms by (simp add: t_on_close_def onLinkClosed_def transit_inv_timers)
  have "transit_inv (t_upd_chan r (addRecvBytes now (of_nat (length buf))) t)"
    using assms chan_inv_ops(5) by (intro transit_inv_upd) (simp_all add: transit_inv_heap addRecvBytes_def)
  then show "transit_inv (t_on_read_data env now r h buf t)"
    using assms by (simp add: t_on_read_data_def transit_inv_onLinkBytes)
qed

text \<open>Everything that can happen to a transit, in any order.\<close>

inductive transit_step :: "fgw_env \<Rightarrow> transit \<Rightarrow> transit \<Rightarrow> bool" for env where
  start: "transit_step env t (snd (transit_start env now t))"
| stop: "transit_step env t (transit_stop t)"
| accept: "t_acceptor t \<Longrightarrow> transit_step env t (snd (accept_inport t))"
| opened: "ch_kind (t_heap t r) = CHANNEL_TCP \<Longrightarrow> transit_step env t (t_on_open now r h t)"
| closed: "transit_step env t (t_on_close r h t)"
| read: "transit_step env t (t_on_read_data env now r h buf t)"
| timer: "transit_step env t (transit_timer env now i t)"
| heartbeat: "transit_step env t (t_onHeartbeatTick env now t)"

inductive transit_reachable :: "fgw_env \<Rightarrow> FgwConfig \<Rightarrow> transit \<Rightarrow> bool" for env cfg where
  init: "transit_reachable env cfg (transit_init cfg)"
| step: "transit_reachable env cfg t \<Longrightarrow> transit_step env t t' \<Longrightarrow> transit_reachable env cfg t'"

lemma transit_step_inv: "transit_step env t t' \<Longrightarrow> transit_inv t \<Longrightarrow> transit_inv t'"
  by (induction rule: transit_step.induct)
    (simp_all add: transit_inv_start transit_inv_stop transit_inv_accept transit_inv_events
      transit_inv_timer transit_inv_heartbeat)

lemma transit_reachable_inv: "transit_reachable env cfg t \<Longrightarrow> transit_inv t"
  by (induction rule: transit_reachable.induct) (auto intro: transit_inv_init transit_step_inv)

text \<open>After a link is gone, no table points at it.\<close>

lemma link_closed_forgets:
  assumes "transit_inv t"
  shows "smap_find (t_links (link_closed r t)) r = None"
    "r \<notin> snd ` set (t_outbound_by_outport (link_closed r t))"
    "r \<notin> snd ` set (t_inbound_by_ingress (link_closed r t))"
proof -
  have "\<forall>x \<in> set (t_outbound_by_outport t). snd x \<noteq> r" "\<forall>x \<in> set (t_inbound_by_ingress t). snd x \<noteq> r"
    if "smap_find (t_links t) r = None"
    using assms that by (auto simp: transit_inv_def)
  then show "smap_find (t_links (link_closed r t)) r = None"
    "r \<notin> snd ` set (t_outbound_by_outport (link_closed r t))"
    "r \<notin> snd ` set (t_inbound_by_ingress (link_closed r t))"
    by (auto simp: link_closed_def Let_def scheduleOutportRedial_def destroy_def drop_ref_def smap_find_erase
        split: option.splits)
qed

section \<open>Forwarding\<close>

text \<open>Where a segment goes: nowhere when it is hop-local, to the dialed link of its outport id when
  it came from an Inport, to the link its ingress id was learned on when it came from an Outport.\<close>

definition route :: "transit \<Rightarrow> bool \<Rightarrow> FgwSegmentHeader \<Rightarrow> chan_ref option" where
  "route t outbound hdr =
     (if link_control hdr then None
      else if outbound then findInbound (hdr_ingress_id hdr) t
      else findOutbound (if hdr_routed hdr then hdr_outport_id hdr else 0) t)"

text \<open>A link that takes writes: a TCP link that is connected. On any other a write is an error, which the Transit
  ignores.\<close>

definition link_ready :: "transit \<Rightarrow> chan_ref \<Rightarrow> bool" where
  "link_ready t r \<longleftrightarrow> ch_connected (t_heap t r) \<and> ch_kind (t_heap t r) = CHANNEL_TCP \<and> ch_tcp_ptr (t_heap t r) \<noteq> None"

definition forwarded :: "transit \<Rightarrow> bool \<Rightarrow> chan_ref \<Rightarrow> (FgwSegmentHeader \<times> bytes) list \<Rightarrow> (FgwSegmentHeader \<times> bytes) list" where
  "forwarded t outbound r segs = filter (\<lambda>seg. route t outbound (fst seg) = Some r \<and> link_ready t r) segs"

lemma link_ready_connected: "chan_inv (t_heap t r) \<Longrightarrow> link_ready t r \<longleftrightarrow> ch_connected (t_heap t r)"
  by (auto simp: link_ready_def chan_inv_def)

text \<open>The table the direction uses, which forwarding does not change.\<close>

definition same_route :: "bool \<Rightarrow> transit \<Rightarrow> transit \<Rightarrow> bool" where
  "same_route outbound t t' \<longleftrightarrow>
     (if outbound then t_inbound_by_ingress t' = t_inbound_by_ingress t
      else t_outbound_by_outport t' = t_outbound_by_outport t)"

lemma same_route_route: "same_route ob t t' \<Longrightarrow> route t' ob h = route t ob h"
  by (auto simp: same_route_def route_def findInbound_def findOutbound_def)

lemma t_send_effect:
  assumes "writes_ok env" and "buf \<noteq> []"
  shows "ch_wire (t_heap (t_send env now buf out t) r) =
      ch_wire (t_heap t r) @ (if r = out \<and> link_ready t out then [buf] else [])"
    "link_ready (t_send env now buf out t) r = link_ready t r"
proof -
  have "0 < fst (sendBytes env now buf (t_heap t out)) \<longleftrightarrow> link_ready t out"
    using assms unfolding writes_ok_def
    by (auto simp: link_ready_def sendBytes_def tcp_sendBytes_def utp_sendBytes_def errcode_def Let_def
        simp flip: not_le split: ZFGW_CHANNEL_KIND.split)
  then show "ch_wire (t_heap (t_send env now buf out t) r) =
      ch_wire (t_heap t r) @ (if r = out \<and> link_ready t out then [buf] else [])"
    using sendBytes_wire [of env now buf "t_heap t out"] by (simp add: t_send_def)
  note fields = same_identity_fields [OF sendBytes_identity [of env now buf "t_heap t out"]]
  show "link_ready (t_send env now buf out t) r = link_ready t r"
    by (simp add: t_send_def link_ready_def fields(2,4,10))
qed

lemma relay_one:
  assumes "writes_ok env" and "sendable (h, p)"
    and t'_def: "t' = step_segment (relay_segment env now r ob) t (h, p)"
  shows "ch_wire (t_heap t' x) = ch_wire (t_heap t x) @ (if route t ob h = Some x \<and> link_ready t x then [segment_image h p] else [])"
    "same_route ob t t'" "t_links t' = t_links t" "link_ready t' x = link_ready t x"
proof -
  have ne: "segment_image h p \<noteq> []"
    using wire_hdr_size_ge(1) [of h] length_segment_image [of h p] by (metis add_is_0 list.size(3) not_numeral_le_zero)
  have flags: "isHello (decoded_header h p) = isHello h" "isHeartbeat (decoded_header h p) = isHeartbeat h"
    "isAck (decoded_header h p) = isAck h" "hdr_ingress_id (decoded_header h p) = hdr_ingress_id h"
    "hdr_outport_id (decoded_header h p) = (if hdr_routed h then hdr_outport_id h else 0)"
    by simp_all (simp_all add: decoded_header_def)
  let ?learn = "if ob then t else t\<lparr>t_inbound_by_ingress := smap_set (hdr_ingress_id h) r (t_inbound_by_ingress t)\<rparr>"
  have learn: "route ?learn ob h = route t ob h" "ch_wire (t_heap ?learn x) = ch_wire (t_heap t x)"
    "link_ready ?learn x = link_ready t x" "t_links ?learn = t_links t" "same_route ob t ?learn" for x
    by (auto simp: route_def findOutbound_def same_route_def link_ready_def)
  have fwd: "t' = (case route ?learn ob h of None \<Rightarrow> ?learn | Some out \<Rightarrow> t_send env now (segment_image h p) out ?learn)"
    if "\<not> link_control h"
    using that flags
    by (auto simp: t'_def step_segment_def relay_segment_def route_def link_control_def Let_def split: option.split)
  have ctl: "ch_wire (t_heap t' x) = ch_wire (t_heap t x)" "same_route ob t t'" "t_links t' = t_links t"
    "link_ready t' x = link_ready t x" "route t ob h = None" if "link_control h" for x
    using that flags unfolding t'_def step_segment_def
    by (auto simp: relay_segment_def link_control_def route_def same_route_def link_ready_def split: prod.split)
  note send = t_send_effect [OF assms(1) ne, of now _ ?learn]
  have keep: "same_route ob t (t_send env now b out ?learn)" "t_links (t_send env now b out ?learn) = t_links t" for b out
    by (auto simp: t_send_def same_route_def)
  show "ch_wire (t_heap t' x) = ch_wire (t_heap t x) @ (if route t ob h = Some x \<and> link_ready t x then [segment_image h p] else [])"
    "same_route ob t t'" "t_links t' = t_links t" "link_ready t' x = link_ready t x"
    using ctl fwd send keep learn
    by (cases "link_control h"; cases "route t ob h"; simp)+
qed

lemma relay_all:
  assumes "writes_ok env" and "\<forall>seg \<in> set segs. sendable seg"
    and "t' = foldl (step_segment (relay_segment env now r ob)) t segs"
  shows "(\<forall>x. ch_wire (t_heap t' x) =
      ch_wire (t_heap t x) @ map (\<lambda>(h, p). segment_image h p) (forwarded t ob x segs)) \<and>
    t_links t' = t_links t \<and> same_route ob t t' \<and> (\<forall>x. link_ready t' x = link_ready t x)"
  using assms
proof (induction segs arbitrary: t)
  case Nil
  then show ?case by (simp add: forwarded_def same_route_def)
next
  case (Cons seg segs)
  obtain h p where seg: "seg = (h, p)" by fastforce
  let ?t1 = "step_segment (relay_segment env now r ob) t (h, p)"
  have h: "sendable (h, p)"
    using Cons.prems by (simp_all add: seg)
  note one = relay_one [where now = now and r = r and ob = ob and t = t, OF Cons.prems(1) h refl]
  have same: "route ?t1 ob k = route t ob k" "link_ready ?t1 x = link_ready t x" for k x
    using same_route_route [OF one(2)] one(4) by simp_all
  have "(\<forall>x. ch_wire (t_heap t' x) =
      ch_wire (t_heap ?t1 x) @ map (\<lambda>(h, p). segment_image h p) (forwarded ?t1 ob x segs)) \<and>
    t_links t' = t_links ?t1 \<and> same_route ob ?t1 t' \<and> (\<forall>x. link_ready t' x = link_ready ?t1 x)"
    by (rule Cons.IH) (use Cons.prems same one(4) in \<open>simp_all add: seg\<close>)
  moreover have "forwarded ?t1 ob x segs = forwarded t ob x segs" for x
    by (simp add: forwarded_def same)
  ultimately show ?case
    using one by (auto simp: seg forwarded_def same_route_def split: if_splits)
qed

text \<open>Bytes of one link, in chunks: the segments they make up are forwarded unchanged, in order.\<close>

lemma transit_chunks:
  assumes ok: "writes_ok env" and link: "smap_find (t_links t) r = Some L"
    and bytes: "tl_buffer L @ concat chunks = wire_image segs" "scan_frame (tl_buffer L) = NeedMore"
    and segs: "\<forall>seg \<in> set segs. sendable seg"
  shows "\<exists>t'. t' = foldl (\<lambda>t c. onLinkBytes env now r c t) t chunks \<and>
    (\<forall>x. ch_wire (t_heap t' x) =
       ch_wire (t_heap t x) @ map (\<lambda>(h, p). segment_image h p) (forwarded t (tl_outbound L) x segs)) \<and>
    smap_find (t_links t') r = Some (L\<lparr>tl_buffer := []\<rparr>)"
  using assms(2-)
proof (induction chunks arbitrary: t L segs)
  case Nil
  have "segs = []"
    by (rule wire_image_unfinished) (use Nil(2-4) in simp_all)
  then show ?case
    using Nil by (simp add: wire_image_def forwarded_def)
next
  case (Cons c chunks)
  let ?ob = "tl_outbound L"
  obtain rest t1 where loop: "frame_loop (relay_segment env now r ?ob) (tl_buffer L @ c) t = (rest, t1)" by fastforce
  have "(tl_buffer L @ c) @ concat chunks = wire_image segs @ []"
    using Cons.prems(2) by simp
  from frame_loop_prefix [OF Cons.prems(4) scan_frame_Nil this, of "relay_segment env now r ?ob" t] loop
  obtain pre todo where d: "segs = pre @ todo" "t1 = foldl (step_segment (relay_segment env now r ?ob)) t pre"
    "rest @ concat chunks = wire_image todo" "scan_frame rest = NeedMore" by auto
  have p: "\<forall>seg \<in> set pre. sendable seg"
    using Cons.prems(4) d(1) by auto
  note r1 = relay_all [OF ok p d(2)]
  let ?L = "L\<lparr>tl_buffer := rest\<rparr>"
  let ?t2 = "t1\<lparr>t_links := smap_set r ?L (t_links t1)\<rparr>"
  have step: "onLinkBytes env now r c t = ?t2"
    using Cons.prems(1) loop by (simp add: onLinkBytes_def)
  have same: "route ?t2 ?ob h = route t ?ob h" "link_ready ?t2 x = link_ready t x" for h x
  proof -
    have "route ?t2 ?ob h = route t1 ?ob h"
      by (simp add: route_def findInbound_def findOutbound_def)
    then show "route ?t2 ?ob h = route t ?ob h"
      using same_route_route [of ?ob t t1] r1 by simp
    show "link_ready ?t2 x = link_ready t x"
      using r1 by (simp add: link_ready_def)
  qed
  have "\<exists>t'. t' = foldl (\<lambda>t c. onLinkBytes env now r c t) ?t2 chunks \<and>
    (\<forall>x. ch_wire (t_heap t' x) =
       ch_wire (t_heap ?t2 x) @ map (\<lambda>(h, p). segment_image h p) (forwarded ?t2 (tl_outbound ?L) x todo)) \<and>
    smap_find (t_links t') r = Some (?L\<lparr>tl_buffer := []\<rparr>)"
    by (rule Cons.IH) (use d Cons.prems(4) in \<open>auto simp: smap_find_set\<close>)
  moreover have "forwarded ?t2 ?ob x todo = forwarded t ?ob x todo" for x
    using same by (simp add: forwarded_def)
  ultimately show ?case
    using r1 d(1) by (simp add: step forwarded_def)
qed

section \<open>The Transit as a whole\<close>

text \<open>A Transit with one Outport and one Inport link, both open.\<close>

definition sample_transit_config :: FgwConfig where
  "sample_transit_config = FgwConfig_init\<lparr>cfg_role := ZFGW_ROLE_TRANSIT, cfg_outport_listen_port := 7000,
     cfg_reconnect_max := 20,
     cfg_channels := [\<lparr>cc_channel_id = 3, cc_kind = 0, cc_remote = \<lparr>ep_host = ''out'', ep_port = 9000\<rparr>, cc_priority = 100\<rparr>]\<rparr>"

definition sample_dialed :: transit where
  "sample_dialed = snd (transit_start open_env 0 (transit_init sample_transit_config))"

definition sample_transit :: transit where
  "sample_transit = t_on_open 6 1 0 (snd (accept_inport (t_on_open 5 0 0 sample_dialed)))"

lemma sample_dialed_facts:
  "t_acceptor sample_dialed" "t_links sample_dialed = [(0, \<lparr>tl_outbound = True, tl_buffer = []\<rparr>)]"
  "t_outbound_by_outport sample_dialed = [(3, 0)]" "t_inbound_by_ingress sample_dialed = []"
  "ch_kind (t_heap sample_dialed 0) = CHANNEL_TCP" "ch_tcp_ptr (t_heap sample_dialed 0) = Some 0"
  "ch_wire (t_heap sample_dialed 0) = []" "t_next_ref sample_dialed = 1" "t_accepted_id_seq sample_dialed = 0x80000000"
  "t_timers sample_dialed = []" "t_config sample_dialed = sample_transit_config"
  by (simp_all add: sample_dialed_def transit_start_def dialOutports_def dialOneOutport_def transit_init_def
      sample_transit_config_def FgwConfig_init_def chan_defs open_env_def smap_find_def t_upd_chan_def
      t_startHeartbeat_def Let_def)

lemma sample_transit_facts:
  "smap_find (t_links sample_transit) 1 = Some \<lparr>tl_outbound = False, tl_buffer = []\<rparr>"
  "smap_find (t_links sample_transit) 0 = Some \<lparr>tl_outbound = True, tl_buffer = []\<rparr>"
  "t_outbound_by_outport sample_transit = [(3, 0)]" "ch_wire (t_heap sample_transit 0) = []"
  "ch_connected (t_heap sample_transit 0)" "t_timers sample_transit = []" "t_config sample_transit = sample_transit_config"
  by (simp_all add: sample_transit_def t_on_open_def sample_dialed_facts accept_inport_def makeInboundChannel_def
      t_upd_chan_def createAcceptedHandler_def chan_defs markConnected_def smap_find_set Let_def)
    (simp_all add: smap_find_def)

lemma sample_transit_reachable: "transit_reachable open_env sample_transit_config sample_transit"
proof -
  have 1: "transit_reachable open_env sample_transit_config sample_dialed"
    unfolding sample_dialed_def by (rule transit_reachable.step [OF transit_reachable.init transit_step.start])
  have 2: "transit_reachable open_env sample_transit_config (t_on_open 5 0 0 sample_dialed)"
    by (rule transit_reachable.step [OF 1 transit_step.opened]) (simp add: sample_dialed_facts)
  have 3: "transit_reachable open_env sample_transit_config (snd (accept_inport (t_on_open 5 0 0 sample_dialed)))"
    by (rule transit_reachable.step [OF 2 transit_step.accept])
      (simp add: t_on_open_def sample_dialed_facts t_upd_chan_def)
  show ?thesis
    unfolding sample_transit_def
    by (rule transit_reachable.step [OF 3 transit_step.opened])
      (simp add: t_on_open_def sample_dialed_facts t_upd_chan_def accept_inport_def makeInboundChannel_def
        createAcceptedHandler_def chan_defs)
qed

text \<open>C7: The segments that arrive at a link of the Transit, in whatever chunks, are written unchanged and in
  order to the links the routing tables name for them, as far as these are connected, and to no other link;
  segments routed to a link that is not connected are dropped, control segments stop there, and the link's
  buffer ends empty. Connected links accept writes, the link holds at most the beginning of a frame before.\<close>

theorem transit_forwards:
  assumes "writes_ok env" and "smap_find (t_links t) r = Some L" and "scan_frame (tl_buffer L) = NeedMore"
    and "tl_buffer L @ concat chunks = wire_image segs" and "\<forall>seg \<in> set segs. sendable seg"
    and "t' = foldl (\<lambda>t c. onLinkBytes env now r c t) t chunks"
  shows "(\<forall>x. ch_wire (t_heap t' x) =
      ch_wire (t_heap t x) @ map (\<lambda>(h, p). segment_image h p) (forwarded t (tl_outbound L) x segs)) \<and>
    smap_find (t_links t') r = Some (L\<lparr>tl_buffer := []\<rparr>)"
  using transit_chunks [OF assms(1,2,4,3,5), of now] assms(6) by blast

theorem transit_forwards_witness:
  "ch_wire (t_heap (foldl (\<lambda>t c. onLinkBytes open_env 9 1 c t) sample_transit
     [take 10 (segment_image sample_header [1, 2, 3]), drop 10 (segment_image sample_header [1, 2, 3])]) 0) =
   [segment_image sample_header [1, 2, 3]]"
proof -
  let ?chunks = "[take 10 (segment_image sample_header [1, 2, 3]), drop 10 (segment_image sample_header [1, 2, 3])]"
  let ?segs = "[(sample_header, [1, 2, 3 :: byte])]"
  have h: "\<not> link_control sample_header" "hdr_routed sample_header" "hdr_outport_id sample_header = 3"
    by (simp_all add: sample_header_def link_control_def hdr_routed_def flag_tests seg_flags FgwSegmentHeader_init_def)
  have inv: "transit_inv sample_transit" by (rule transit_reachable_inv [OF sample_transit_reachable])
  have r: "route sample_transit False sample_header = Some 0"
    using h by (simp add: route_def findOutbound_def sample_transit_facts smap_find_def)
  have "ch_wire (t_heap (foldl (\<lambda>t c. onLinkBytes open_env 9 1 c t) sample_transit ?chunks) 0) =
      ch_wire (t_heap sample_transit 0) @ map (\<lambda>(h, p). segment_image h p) (forwarded sample_transit False 0 ?segs)"
    using transit_forwards [where chunks = ?chunks and segs = ?segs, OF writes_ok_open_env sample_transit_facts(1) _ _ _ refl] r
    by (simp add: wire_image_def sendable_def MAX_PAYLOAD_def)
  then show ?thesis
    using r link_ready_connected [OF transit_inv_heap [OF inv], of 0]
    by (simp add: sample_transit_facts forwarded_def)
qed

text \<open>C16: In every state the Transit can reach, the outport table names outbound links under their own id, the
  ingress table inbound links, both only links that exist, and no segment is routed back to the link it came
  from.\<close>

theorem transit_tables_consistent:
  assumes "transit_reachable env cfg t"
  shows "(\<forall>outport r. findOutbound outport t = Some r \<longrightarrow> ch_channel_id (t_heap t r) = outport \<and>
      (\<exists>L. smap_find (t_links t) r = Some L \<and> tl_outbound L)) \<and>
    (\<forall>ingress r. findInbound ingress t = Some r \<longrightarrow> (\<exists>L. smap_find (t_links t) r = Some L \<and> \<not> tl_outbound L)) \<and>
    (\<forall>hdr r L x. smap_find (t_links t) r = Some L \<longrightarrow> route t (tl_outbound L) hdr = Some x \<longrightarrow> x \<noteq> r)"
proof -
  have inv: "transit_inv t" by (rule transit_reachable_inv [OF assms])
  have out: "ch_channel_id (t_heap t r) = outport \<and> (\<exists>L. smap_find (t_links t) r = Some L \<and> tl_outbound L)"
    if "findOutbound outport t = Some r" for outport r
    using inv smap_find_in_set [OF that [unfolded findOutbound_def]] by (auto simp: transit_inv_def)
  have inb: "\<exists>L. smap_find (t_links t) r = Some L \<and> \<not> tl_outbound L" if "findInbound ingress t = Some r" for ingress r
    using inv smap_find_in_set [OF that [unfolded findInbound_def]] by (auto simp: transit_inv_def)
  have "x \<noteq> r" if "smap_find (t_links t) r = Some L" "route t (tl_outbound L) hdr = Some x" for hdr r L x
  proof
    assume x: "x = r"
    show False
    proof (cases "tl_outbound L")
      case True
      then show False using that inb [of "hdr_ingress_id hdr" x] x by (auto simp: route_def split: if_splits)
    next
      case False
      then show False
        using that out [of "if hdr_routed hdr then hdr_outport_id hdr else 0" x] x
        by (auto simp: route_def split: if_splits)
    qed
  qed
  with out inb show ?thesis by blast
qed

theorem transit_tables_consistent_witness:
  "findOutbound 3 sample_transit = Some 0 \<and> ch_channel_id (t_heap sample_transit 0) = 3"
  using transit_tables_consistent [OF sample_transit_reachable]
  by (auto simp: findOutbound_def sample_transit_facts smap_find_def)

theorem closed_transit_link_forgotten:
  assumes "transit_reachable env cfg t" and "smap_find (t_links t) r = Some L" and "t' = link_closed r t"
  shows "smap_find (t_links t') r = None \<and> r \<notin> snd ` set (t_outbound_by_outport t') \<and>
    r \<notin> snd ` set (t_inbound_by_ingress t') \<and>
    (if tl_outbound L \<and> r \<in> snd ` set (t_outbound_by_outport t)
     then t_timers t' = t_timers t @
       [((if 0 < cfg_reconnect_max (t_config t) then unat (cfg_reconnect_max (t_config t)) else 30) * 1000,
         TRedial (ch_channel_id (t_heap t r)))]
     else t_timers t' = t_timers t)"
proof -
  have inv: "transit_inv t" by (rule transit_reachable_inv [OF assms(1)])
  let ?served = "map fst (filter (\<lambda>kv. snd kv = r) (t_outbound_by_outport t))"
  have ids: "\<forall>x \<in> set ?served. x = ch_channel_id (t_heap t r)"
    using inv by (auto simp: transit_inv_def)
  have "?served \<noteq> [] \<longleftrightarrow> r \<in> snd ` set (t_outbound_by_outport t)"
    by (force simp: filter_empty_conv)
  moreover have "?served \<noteq> [] \<Longrightarrow> last ?served = ch_channel_id (t_heap t r)"
    using ids last_in_set by blast
  ultimately have "if tl_outbound L \<and> r \<in> snd ` set (t_outbound_by_outport t)
     then t_timers t' = t_timers t @
       [((if 0 < cfg_reconnect_max (t_config t) then unat (cfg_reconnect_max (t_config t)) else 30) * 1000,
         TRedial (ch_channel_id (t_heap t r)))]
     else t_timers t' = t_timers t"
    using assms(2,3) by (auto simp: link_closed_def scheduleOutportRedial_def destroy_def Let_def)
  then show ?thesis
    using link_closed_forgets [OF inv, of r] assms(3) by simp
qed

theorem closed_transit_link_forgotten_witness:
  "0 \<notin> snd ` set (t_outbound_by_outport (link_closed 0 sample_transit)) \<and>
   t_timers (link_closed 0 sample_transit) = [(20000, TRedial 3)]"
proof -
  have "ch_channel_id (t_heap sample_transit 0) = 3"
    using transit_reachable_inv [OF sample_transit_reachable]
    by (simp add: transit_inv_def sample_transit_facts)
  with closed_transit_link_forgotten [OF sample_transit_reachable sample_transit_facts(2) refl] show ?thesis
    by (simp add: sample_transit_facts sample_transit_config_def)
qed

end
