(* ===== verification/Fgw_Vm.thy ===== *)
theory Fgw_Vm
  imports Fgw_Config Fgw_InportRuns Fgw_OutportRuns Fgw_Transit
begin

text \<open>
  The machine of \<^verbatim>\<open>src/src/zfgw_vm.cpp\<close>: it brings one of the three services up from its configuration, takes
  it down again, and answers the RPC methods. The host framework is a parameter: whether there is a stub and
  which directory it names, whether a reactor can be had, what \<^verbatim>\<open>sendResponse\<close> returns. The objects
  \<^verbatim>\<open>manager_\<close> and \<^verbatim>\<open>stream_\<close> are part of the host of the service that uses them; \<open>vm_manager\<close> is
  \<^verbatim>\<open>manager_\<close> while no service does. What a tear-down let go is kept in \<open>vm_released\<close>, in the state it was
  let go in. A method runs under the machine's lock and is one step.
\<close>

declare split_paired_All [simp del] split_paired_Ex [simp del]

section \<open>The machine\<close>

datatype vm_reply =
  ReplyStatus FgwStatus
| ReplyResult FgwStartResult
| ReplyError int

datatype released =
  ReleasedInport "inport host"
| ReleasedOutport "outport host"
| ReleasedTransit transit
| ReleasedManager manager

record vm_env =
  ve_env :: fgw_env
  ve_files :: file_env
  ve_reactor :: bool
  ve_host_dir :: "string option"
  ve_name :: string
  ve_send :: "vm_reply \<Rightarrow> int"

record vm =
  vm_config :: FgwConfig
  vm_manager :: "manager option"
  vm_inport :: "inport host option"
  vm_outport :: "outport host option"
  vm_transit :: "transit option"
  vm_running :: bool
  vm_files :: files
  vm_replies :: "vm_reply list"
  vm_released :: "released list"

definition vm_new :: "files \<Rightarrow> vm" where
  "vm_new files = \<lparr>vm_config = FgwConfig_init, vm_manager = None, vm_inport = None, vm_outport = None,
     vm_transit = None, vm_running = False, vm_files = files, vm_replies = [], vm_released = []\<rparr>"

section \<open>Tear-down\<close>

definition release_inport :: "fgw_env \<Rightarrow> u32 \<Rightarrow> inport host \<Rightarrow> inport host" where
  "release_inport env now hst = hst\<lparr>host_world := upd_mgr mgr_stop (inport_stop env now (host_world hst))\<rparr>"

definition release_outport :: "fgw_env \<Rightarrow> u32 \<Rightarrow> outport host \<Rightarrow> outport host" where
  "release_outport env now hst = hst\<lparr>host_world := upd_mgr mgr_stop (outport_stop env now (host_world hst))\<rparr>"

definition doTeardown :: "vm_env \<Rightarrow> u32 \<Rightarrow> vm \<Rightarrow> vm" where
  "doTeardown ve now v =
     v\<lparr>vm_inport := None, vm_outport := None, vm_transit := None, vm_manager := None, vm_running := False,
       vm_released := vm_released v
         @ (case vm_inport v of None \<Rightarrow> [] | Some h \<Rightarrow> [ReleasedInport (release_inport (ve_env ve) now h)])
         @ (case vm_outport v of None \<Rightarrow> [] | Some h \<Rightarrow> [ReleasedOutport (release_outport (ve_env ve) now h)])
         @ (case vm_transit v of None \<Rightarrow> [] | Some t \<Rightarrow> [ReleasedTransit (transit_stop t)])
         @ (case vm_manager v of None \<Rightarrow> [] | Some m \<Rightarrow> [ReleasedManager (mgr_stop m)])\<rparr>"

section \<open>Bring-up\<close>

definition bringup_transit :: "vm_env \<Rightarrow> u32 \<Rightarrow> vm \<Rightarrow> int \<times> vm" where
  "bringup_transit ve now v =
     (case transit_start (ve_env ve) now (transit_init (vm_config v)) of
        (tret, t) \<Rightarrow>
          if tret < 0 then (tret, doTeardown ve now (v\<lparr>vm_transit := Some t\<rparr>))
          else (0, v\<lparr>vm_transit := Some t, vm_running := True\<rparr>))"

text \<open>\<^verbatim>\<open>stream_ = new DataStream(...)\<close> and the service on it, over a manager that was started.\<close>

definition stream_inport :: "FgwConfig \<Rightarrow> manager \<Rightarrow> inport host" where
  "stream_inport cfg m = inport_boot (cfg_ingress_id cfg) (cfg_segment_size cfg) (cfg_recv_window cfg)
     (cfg_enable_crc cfg \<noteq> 0) (cfg_route_outport_id cfg) m"

definition stream_outport :: "FgwConfig \<Rightarrow> manager \<Rightarrow> outport host" where
  "stream_outport cfg m = outport_boot (cfg_ingress_id cfg) (cfg_segment_size cfg) (cfg_recv_window cfg)
     (cfg_enable_crc cfg \<noteq> 0) (cfg_route_outport_id cfg) m"

definition bringup_inport :: "vm_env \<Rightarrow> u32 \<Rightarrow> manager \<Rightarrow> vm \<Rightarrow> int \<times> vm" where
  "bringup_inport ve now m v =
     (let hst = stream_inport (vm_config v) m;
          (ret, ip) = inport_start (ve_env ve) ''127.0.0.1'' (cfg_inport_listen_port (vm_config v)) (w_app (host_world hst));
          v = v\<lparr>vm_inport := Some (hst\<lparr>host_world := upd_app (\<lambda>_. ip) (host_world hst)\<rparr>)\<rparr>
      in if ret < 0 then (ret, doTeardown ve now v) else (0, v\<lparr>vm_running := True\<rparr>))"

definition bringup_outport :: "vm_env \<Rightarrow> u32 \<Rightarrow> manager \<Rightarrow> vm \<Rightarrow> int \<times> vm" where
  "bringup_outport ve now m v =
     (let hst = stream_outport (vm_config v) m;
          v0 = v\<lparr>vm_outport := Some hst\<rparr>
      in if cfg_outport_listen_port (vm_config v) \<noteq> 0 then
           (case startLinkListener (ve_env ve) (cfg_outport_listen_host (vm_config v))
                  (cfg_outport_listen_port (vm_config v)) (w_mgr (host_world hst)) of
              (lret, m') \<Rightarrow>
                let v1 = v\<lparr>vm_outport := Some (hst\<lparr>host_world := upd_mgr (\<lambda>_. m') (host_world hst)\<rparr>)\<rparr>
                in if lret < 0 then (lret, doTeardown ve now v1) else (0, v1\<lparr>vm_running := True\<rparr>))
         else (0, v0\<lparr>vm_running := True\<rparr>))"

definition doBringup :: "vm_env \<Rightarrow> u32 \<Rightarrow> vm \<Rightarrow> int \<times> vm" where
  "doBringup ve now v =
     (if vm_running v then (0, v)
      else if \<not> ve_reactor ve then (errcode ERR_NOTRUNNING, v)
      else if cfg_role (vm_config v) = ZFGW_ROLE_TRANSIT then bringup_transit ve now v
      else
        case mgr_start (ve_env ve) now (vm_config v) manager_init of
          (ret, m) \<Rightarrow>
            if ret < 0 then (ret, v\<lparr>vm_manager := Some m\<rparr>)
            else if cfg_role (vm_config v) = ZFGW_ROLE_INPORT then bringup_inport ve now m v
            else if cfg_role (vm_config v) = ZFGW_ROLE_OUTPORT then bringup_outport ve now m v
            else (errcode ERR_INVALIDROLE,
                  doTeardown ve now (v\<lparr>vm_manager := Some (addBytesSubscriber 0 m)\<rparr>)))"

text \<open>\<^verbatim>\<open>ZfgwMachine::start\<close> and \<^verbatim>\<open>stop\<close>\<close>

definition vm_start :: "vm_env \<Rightarrow> u32 \<Rightarrow> vm \<Rightarrow> int \<times> vm" where
  "vm_start ve now v =
     (case ve_host_dir ve of
        None \<Rightarrow> doBringup ve now v
      | Some dir \<Rightarrow>
          (case zfgw_load_config (ve_files ve) (ve_env ve) now (vm_config v) dir (ve_name ve) [] (vm_files v) of
             (ret, config) \<Rightarrow>
               let v = v\<lparr>vm_config := config\<rparr>
               in if ret < 0 then (0, v) else doBringup ve now v))"

definition vm_stop :: "vm_env \<Rightarrow> u32 \<Rightarrow> vm \<Rightarrow> vm" where
  "vm_stop ve now v = doTeardown ve now v"

section \<open>The RPC methods\<close>

definition sendResponse :: "vm_env \<Rightarrow> vm_reply \<Rightarrow> vm \<Rightarrow> int \<times> vm" where
  "sendResponse ve r v = (ve_send ve r, v\<lparr>vm_replies := vm_replies v @ [r]\<rparr>)"

text \<open>The manager of the machine, wherever it is, and an operation on it.\<close>

definition manager_of :: "vm \<Rightarrow> manager option" where
  "manager_of v =
     (case vm_inport v of Some h \<Rightarrow> Some (w_mgr (host_world h))
      | None \<Rightarrow> (case vm_outport v of Some h \<Rightarrow> Some (w_mgr (host_world h)) | None \<Rightarrow> vm_manager v))"

definition on_manager :: "(manager \<Rightarrow> int \<times> manager) \<Rightarrow> vm \<Rightarrow> int \<times> vm" where
  "on_manager f v =
     (case vm_inport v of
        Some h \<Rightarrow> (case f (w_mgr (host_world h)) of (ret, m) \<Rightarrow>
          (ret, v\<lparr>vm_inport := Some (h\<lparr>host_world := upd_mgr (\<lambda>_. m) (host_world h)\<rparr>)\<rparr>))
      | None \<Rightarrow>
          (case vm_outport v of
             Some h \<Rightarrow> (case f (w_mgr (host_world h)) of (ret, m) \<Rightarrow>
               (ret, v\<lparr>vm_outport := Some (h\<lparr>host_world := upd_mgr (\<lambda>_. m) (host_world h)\<rparr>)\<rparr>))
           | None \<Rightarrow>
               (case vm_manager v of
                  Some m \<Rightarrow> (case f m of (ret, m) \<Rightarrow> (ret, v\<lparr>vm_manager := Some m\<rparr>))
                | None \<Rightarrow> (errcode ERR_NOTRUNNING, v))))"

definition inport_stat :: "u32 \<Rightarrow> FgwSession \<Rightarrow> FgwSessionStat" where
  "inport_stat ingress_id s =
     \<lparr>ss_session_id = fs_session_id s, ss_ingress_id = ingress_id, ss_client_addr = fs_client_addr s,
      ss_target_addr = [], ss_bytes_sent = fs_bytes_sent s, ss_bytes_recv = fs_bytes_recv s,
      ss_open_timestamp = fs_open_timestamp s\<rparr>"

definition outport_stat :: "FgwRelaySession \<Rightarrow> FgwSessionStat" where
  "outport_stat s =
     \<lparr>ss_session_id = rs_session_id s, ss_ingress_id = rs_peer_ingress_id s, ss_client_addr = [],
      ss_target_addr = rs_target_addr s, ss_bytes_sent = rs_bytes_sent s, ss_bytes_recv = rs_bytes_recv s,
      ss_open_timestamp = rs_open_timestamp s\<rparr>"

definition vm_status :: "vm \<Rightarrow> FgwStatus" where
  "vm_status v =
     (let links = (case manager_of v of None \<Rightarrow> [] | Some m \<Rightarrow> collectLinkQualities m);
          sessions =
            (case vm_inport v of
               Some h \<Rightarrow> map (inport_stat (cfg_ingress_id (vm_config v))) (inport_snapshotSessions (w_app (host_world h)))
             | None \<Rightarrow>
                 (case vm_outport v of
                    Some h \<Rightarrow> map outport_stat (outport_snapshotSessions (w_app (host_world h)))
                  | None \<Rightarrow> []))
      in \<lparr>fst_running = (if vm_running v then 1 else 0), fst_role = cfg_role (vm_config v),
          fst_session_count = of_nat (length sessions), fst_links = links, fst_sessions = sessions\<rparr>)"

definition mlfGetStatus :: "vm_env \<Rightarrow> FgwEmpty \<Rightarrow> vm \<Rightarrow> int \<times> vm" where
  "mlfGetStatus ve req v = sendResponse ve (ReplyStatus (vm_status v)) v"

definition mlfStart :: "vm_env \<Rightarrow> u32 \<Rightarrow> FgwStartRequest \<Rightarrow> vm \<Rightarrow> int \<times> vm" where
  "mlfStart ve now req v =
     (if vm_running v \<and> sreq_force_restart req = 0
      then sendResponse ve (ReplyResult \<lparr>sres_errcode = errcode ERR_BUSY, sres_message = ''already running''\<rparr>) v
      else
        let v = (if vm_running v \<and> sreq_force_restart req \<noteq> 0 then doTeardown ve now v else v);
            (ret, v) = doBringup ve now v
        in sendResponse ve (ReplyResult \<lparr>sres_errcode = ret, sres_message = (if ret < 0 then ''failed'' else ''ok'')\<rparr>) v)"

definition mlfStop :: "vm_env \<Rightarrow> u32 \<Rightarrow> FgwEmpty \<Rightarrow> vm \<Rightarrow> int \<times> vm" where
  "mlfStop ve now req v =
     sendResponse ve (ReplyResult \<lparr>sres_errcode = 0, sres_message = ''stopped''\<rparr>) (doTeardown ve now v)"

definition mlfSetConfig :: "vm_env \<Rightarrow> u32 \<Rightarrow> FgwSetConfigRequest \<Rightarrow> vm \<Rightarrow> int \<times> vm" where
  "mlfSetConfig ve now req v =
     (if \<not> fgwConfigVersionOk (cfg_config_version (creq_config req))
      then sendResponse ve
             (ReplyResult \<lparr>sres_errcode = errcode ERR_INVALIDCONFIG, sres_message = ''incompatible config_version''\<rparr>) v
      else
        let v = v\<lparr>vm_config := creq_config req\<rparr>;
            v = (case ve_host_dir ve of
                   None \<Rightarrow> v
                 | Some dir \<Rightarrow> v\<lparr>vm_files := snd (zfgw_save_config (ve_files ve) (ve_env ve) now (vm_config v) dir
                                  (ve_name ve) [] (vm_files v))\<rparr>)
        in sendResponse ve (ReplyResult \<lparr>sres_errcode = 0, sres_message = ''config updated''\<rparr>) v)"

definition mlfAddChannel :: "vm_env \<Rightarrow> u32 \<Rightarrow> FgwAddChannelRequest \<Rightarrow> vm \<Rightarrow> int \<times> vm" where
  "mlfAddChannel ve now req v =
     (let (ret, v) = on_manager (addChannel (ve_env ve) now (areq_channel req)) v;
          v = (if ret \<ge> 0
               then v\<lparr>vm_config := (vm_config v)\<lparr>cfg_channels := cfg_channels (vm_config v) @ [areq_channel req]\<rparr>\<rparr>
               else v)
      in sendResponse ve (ReplyResult \<lparr>sres_errcode = ret, sres_message = (if ret < 0 then ''failed'' else ''ok'')\<rparr>) v)"

definition mlfRemoveChannel :: "vm_env \<Rightarrow> FgwRemoveChannelRequest \<Rightarrow> vm \<Rightarrow> int \<times> vm" where
  "mlfRemoveChannel ve req v =
     (let (ret, v) = on_manager (removeChannel (rreq_channel_id req)) v;
          v = (if ret \<ge> 0
               then v\<lparr>vm_config := (vm_config v)\<lparr>cfg_channels :=
                      filter (\<lambda>c. cc_channel_id c \<noteq> rreq_channel_id req) (cfg_channels (vm_config v))\<rparr>\<rparr>
               else v)
      in sendResponse ve (ReplyResult \<lparr>sres_errcode = ret, sres_message = (if ret < 0 then ''failed'' else ''ok'')\<rparr>) v)"

text \<open>\<^verbatim>\<open>FGW_RPC_CALL_1\<close>: the argument is read into \<^verbatim>\<open>REQ arg{}\<close>; a negative length is the answer.\<close>

definition rpc_call_1 :: "int \<times> 'a \<Rightarrow> ('a \<Rightarrow> vm \<Rightarrow> int \<times> vm) \<Rightarrow> vm \<Rightarrow> int \<times> vm" where
  "rpc_call_1 unpacked f v =
     (case unpacked of (unpack_ret, arg) \<Rightarrow>
        if unpack_ret < 0 then (unpack_ret, v\<lparr>vm_replies := vm_replies v @ [ReplyError unpack_ret]\<rparr>)
        else f arg v)"

definition call_dblock :: "vm_env \<Rightarrow> u32 \<Rightarrow> string \<Rightarrow> bytes \<Rightarrow> vm \<Rightarrow> int \<times> vm" where
  "call_dblock ve now method buf v =
     (let z = e_zds (ve_env ve)
      in if method = ''mlfGetStatus'' then
           rpc_call_1 (zds_unpack_FgwEmpty z \<lparr>fe_placeholder = 0\<rparr> buf True) (mlfGetStatus ve) v
         else if method = ''mlfStart'' then
           rpc_call_1 (zds_unpack_FgwStartRequest z \<lparr>sreq_force_restart = 0\<rparr> buf True) (mlfStart ve now) v
         else if method = ''mlfStop'' then
           rpc_call_1 (zds_unpack_FgwEmpty z \<lparr>fe_placeholder = 0\<rparr> buf True) (mlfStop ve now) v
         else if method = ''mlfSetConfig'' then
           rpc_call_1 (zds_unpack_FgwSetConfigRequest z \<lparr>creq_config = FgwConfig_init\<rparr> buf True) (mlfSetConfig ve now) v
         else if method = ''mlfAddChannel'' then
           rpc_call_1 (zds_unpack_FgwAddChannelRequest z \<lparr>areq_channel = FgwChannelConfig_init\<rparr> buf True)
             (mlfAddChannel ve now) v
         else if method = ''mlfRemoveChannel'' then
           rpc_call_1 (zds_unpack_FgwRemoveChannelRequest z \<lparr>rreq_channel_id = 0\<rparr> buf True) (mlfRemoveChannel ve) v
         else (0, v\<lparr>vm_replies := vm_replies v @ [ReplyError (errcode ERR_INVALIDCONFIG)]\<rparr>))"

end
