(* ===== verification/Fgw_VmRuns.thy ===== *)
theory Fgw_VmRuns
  imports Fgw_Vm
begin

text \<open>
  Runs of the machine: whatever is started, stopped, called over RPC and whatever then happens to the service
  that runs, the machine either is idle or runs exactly one service, which is in a state the runs of that
  service reach; so what was shown of the Inport, the Outport and the Transit holds inside the machine.
\<close>

declare split_paired_All [simp del] split_paired_Ex [simp del]

section \<open>Steps\<close>

inductive vm_step :: "vm_env \<Rightarrow> vm \<Rightarrow> vm \<Rightarrow> bool" for ve where
  start: "vm_step ve v (snd (vm_start ve now v))"
| stop: "vm_step ve v (vm_stop ve now v)"
| rpc: "vm_step ve v (snd (call_dblock ve now method buf v))"
| inport: "vm_inport v = Some h \<Longrightarrow> inport_step (ve_env ve) h h' \<Longrightarrow> vm_step ve v (v\<lparr>vm_inport := Some h'\<rparr>)"
| outport: "vm_outport v = Some k \<Longrightarrow> outport_step (ve_env ve) k k' \<Longrightarrow> vm_step ve v (v\<lparr>vm_outport := Some k'\<rparr>)"
| transit: "vm_transit v = Some t \<Longrightarrow> transit_step (ve_env ve) t t' \<Longrightarrow> vm_step ve v (v\<lparr>vm_transit := Some t'\<rparr>)"

inductive vm_reachable :: "vm_env \<Rightarrow> vm \<Rightarrow> bool" for ve where
  init: "vm_reachable ve (vm_new files)"
| step: "vm_reachable ve v \<Longrightarrow> vm_step ve v v' \<Longrightarrow> vm_reachable ve v'"

section \<open>One service at a time\<close>

definition idle :: "vm \<Rightarrow> bool" where
  "idle v \<longleftrightarrow> \<not> vm_running v \<and> vm_inport v = None \<and> vm_outport v = None \<and> vm_transit v = None \<and> vm_manager v = None"

definition serves_inport :: "vm_env \<Rightarrow> vm \<Rightarrow> inport host \<Rightarrow> bool" where
  "serves_inport ve v h \<longleftrightarrow> vm_running v \<and> vm_inport v = Some h \<and> vm_outport v = None \<and> vm_transit v = None \<and>
     vm_manager v = None \<and> inport_reachable (ve_env ve) h"

definition serves_outport :: "vm_env \<Rightarrow> vm \<Rightarrow> outport host \<Rightarrow> bool" where
  "serves_outport ve v h \<longleftrightarrow> vm_running v \<and> vm_inport v = None \<and> vm_outport v = Some h \<and> vm_transit v = None \<and>
     vm_manager v = None \<and> outport_reachable (ve_env ve) h"

definition serves_transit :: "vm_env \<Rightarrow> vm \<Rightarrow> transit \<Rightarrow> bool" where
  "serves_transit ve v t \<longleftrightarrow> vm_running v \<and> vm_inport v = None \<and> vm_outport v = None \<and> vm_transit v = Some t \<and>
     vm_manager v = None \<and> (\<exists>cfg. transit_reachable (ve_env ve) cfg t)"

definition vm_inv :: "vm_env \<Rightarrow> vm \<Rightarrow> bool" where
  "vm_inv ve v \<longleftrightarrow> idle v \<or> (\<exists>h. serves_inport ve v h) \<or> (\<exists>h. serves_outport ve v h) \<or> (\<exists>t. serves_transit ve v t)"

lemmas serves_defs = idle_def serves_inport_def serves_outport_def serves_transit_def

lemma vm_inv_intros:
  "idle v \<Longrightarrow> vm_inv ve v" "serves_inport ve v h \<Longrightarrow> vm_inv ve v"
  "serves_outport ve v k \<Longrightarrow> vm_inv ve v" "serves_transit ve v t \<Longrightarrow> vm_inv ve v"
  unfolding vm_inv_def by blast+

lemma vm_inv_cases [consumes 1, case_names idle inport outport transit]:
  assumes "vm_inv ve v"
    and "idle v \<Longrightarrow> P" and "\<And>h. serves_inport ve v h \<Longrightarrow> P"
    and "\<And>h. serves_outport ve v h \<Longrightarrow> P" and "\<And>t. serves_transit ve v t \<Longrightarrow> P"
  shows P
  using assms unfolding vm_inv_def by blast

text \<open>Configuration, files and replies play no part.\<close>

lemma vm_inv_fields [simp]:
  "vm_inv ve (v\<lparr>vm_config := c\<rparr>) = vm_inv ve v" "vm_inv ve (v\<lparr>vm_files := f\<rparr>) = vm_inv ve v"
  "vm_inv ve (v\<lparr>vm_replies := r\<rparr>) = vm_inv ve v"
  "idle (v\<lparr>vm_config := c\<rparr>) = idle v" "idle (v\<lparr>vm_files := f\<rparr>) = idle v" "idle (v\<lparr>vm_replies := r\<rparr>) = idle v"
  by (simp_all add: vm_inv_def serves_defs)

lemma teardown_idle [simp]: "idle (doTeardown ve now v)"
  by (simp add: idle_def doTeardown_def)

lemma mgr_start_ok: "fst (mgr_start env now cfg m) = 0"
  by (simp add: mgr_start_def Let_def)

lemma mgr_started: "mgr_reachable env (snd (mgr_start env now cfg manager_init))"
  by (rule mgr_reachable.step [OF mgr_reachable.init mgr_step.start])

lemma bringup_inport_serves:
  assumes "idle v" and "mgr_reachable (ve_env ve) m"
  shows "case bringup_inport ve now m v of (ret, v') \<Rightarrow>
    vm_config v' = vm_config v \<and> (if ret = 0 then \<exists>h. serves_inport ve v' h else ret < 0 \<and> idle v')"
proof -
  let ?c = "vm_config v"
  define hst where "hst = stream_inport ?c m"
  obtain ret ip where start: "inport_start (ve_env ve) ''127.0.0.1'' (cfg_inport_listen_port ?c) (w_app (host_world hst)) = (ret, ip)"
    by fastforce
  have ip: "ip = snd (inport_start (ve_env ve) ''127.0.0.1'' (cfg_inport_listen_port ?c) (w_app (host_world hst)))"
    using start by simp
  have "inport_reachable (ve_env ve) hst"
    unfolding hst_def stream_inport_def by (rule inport_reachable.boot [OF assms(2)])
  from inport_reachable.step [OF this inport_step.listen [of _ _ "''127.0.0.1''" "cfg_inport_listen_port ?c"]]
  have reach: "inport_reachable (ve_env ve) (hst\<lparr>host_world := upd_app (\<lambda>_. ip) (host_world hst)\<rparr>)"
    by (simp add: ip upd_app_def)
  have "ret = 0 \<or> ret < 0" using start by (auto simp: inport_start_def split: if_splits)
  then show ?thesis
    using assms(1) reach start unfolding bringup_inport_def hst_def [symmetric]
    by (auto simp: serves_defs doTeardown_def Let_def)
qed

lemma bringup_outport_serves:
  assumes "idle v" and "mgr_reachable (ve_env ve) m"
  shows "case bringup_outport ve now m v of (ret, v') \<Rightarrow>
    vm_config v' = vm_config v \<and> (if ret = 0 then \<exists>h. serves_outport ve v' h else ret < 0 \<and> idle v')"
proof -
  let ?c = "vm_config v"
  define hst where "hst = stream_outport ?c m"
  obtain ret m' where start: "startLinkListener (ve_env ve) (cfg_outport_listen_host ?c) (cfg_outport_listen_port ?c)
      (w_mgr (host_world hst)) = (ret, m')"
    by fastforce
  have reach0: "outport_reachable (ve_env ve) hst"
    unfolding hst_def stream_outport_def by (rule outport_reachable.boot [OF assms(2)])
  have "mgr_step (ve_env ve) (w_mgr (host_world hst)) m'"
    using mgr_step.listen [of "ve_env ve" "w_mgr (host_world hst)" "cfg_outport_listen_host ?c" "cfg_outport_listen_port ?c"] start
    by simp
  then have reach: "outport_reachable (ve_env ve) (hst\<lparr>host_world := upd_mgr (\<lambda>_. m') (host_world hst)\<rparr>)"
    by (rule outport_reachable.step [OF reach0 outport_step.links])
  have "ret = 0 \<or> ret < 0" using start by (auto simp: startLinkListener_def split: if_splits)
  then show ?thesis
    using assms(1) reach0 reach start unfolding bringup_outport_def hst_def [symmetric]
    by (auto simp: serves_defs doTeardown_def Let_def)
qed

lemma bringup_transit_serves:
  assumes "idle v"
  shows "case bringup_transit ve now v of (ret, v') \<Rightarrow>
    vm_config v' = vm_config v \<and> (if ret = 0 then \<exists>t. serves_transit ve v' t else ret < 0 \<and> idle v')"
proof -
  obtain ret t where start: "transit_start (ve_env ve) now (transit_init (vm_config v)) = (ret, t)" by fastforce
  have "transit_reachable (ve_env ve) (vm_config v) t"
    using transit_reachable.step [OF transit_reachable.init transit_step.start [of _ _ now]] start
    by (metis snd_conv)
  moreover have "ret = 0 \<or> ret < 0" using start by (auto simp: transit_start_def Let_def split: if_splits)
  ultimately have "ret = 0 \<or> ret < 0" "serves_transit ve (v\<lparr>vm_transit := Some t, vm_running := True\<rparr>) t"
    using assms by (auto simp: serves_defs)
  then show ?thesis
    using start unfolding bringup_transit_def by (auto simp: doTeardown_def idle_def)
qed

text \<open>A bring-up that answers 0 runs the service of the configured role; any other answer is an error and
  leaves the machine idle.\<close>

lemma doBringup_serves:
  assumes "idle v"
  shows "case doBringup ve now v of (ret, v') \<Rightarrow>
    vm_config v' = vm_config v \<and>
    (if ret = 0
     then (cfg_role (vm_config v) = ZFGW_ROLE_INPORT \<and> (\<exists>h. serves_inport ve v' h)) \<or>
       (cfg_role (vm_config v) = ZFGW_ROLE_OUTPORT \<and> (\<exists>h. serves_outport ve v' h)) \<or>
       (cfg_role (vm_config v) = ZFGW_ROLE_TRANSIT \<and> (\<exists>t. serves_transit ve v' t))
     else ret < 0 \<and> idle v')"
proof -
  obtain m where m: "mgr_start (ve_env ve) now (vm_config v) manager_init = (0, m)" "mgr_reachable (ve_env ve) m"
    using mgr_start_ok mgr_started by (metis prod.collapse)
  have "\<not> vm_running v" using assms by (simp add: idle_def)
  then show ?thesis
    using bringup_inport_serves [OF assms m(2), of now] bringup_outport_serves [OF assms m(2), of now]
      bringup_transit_serves [OF assms, of ve now] assms m(1)
    unfolding doBringup_def
    by (auto simp: ZFGW_ROLE_INPORT_def ZFGW_ROLE_OUTPORT_def ZFGW_ROLE_TRANSIT_def doTeardown_def
        idle_def split: prod.splits if_splits)
qed

text \<open>Every step keeps the invariant.\<close>

lemma vm_inv_bringup: "idle v \<Longrightarrow> vm_inv ve (snd (doBringup ve now v))"
  using doBringup_serves [of v ve now]
  by (auto simp: vm_inv_def split: prod.splits if_splits)

lemma vm_inv_doBringup:
  assumes "vm_inv ve v"
  shows "vm_inv ve (snd (doBringup ve now v))"
proof (cases "vm_running v")
  case True
  then show ?thesis using assms by (simp add: doBringup_def)
next
  case False
  with assms have "idle v" by (auto simp: vm_inv_def serves_defs)
  then show ?thesis by (rule vm_inv_bringup)
qed

lemma vm_inv_teardown [simp]: "vm_inv ve (doTeardown ve now v)"
  by (rule vm_inv_intros(1)) simp

lemma vm_inv_start: "vm_inv ve v \<Longrightarrow> vm_inv ve (snd (vm_start ve now v))"
  using vm_inv_doBringup by (auto simp: vm_start_def Let_def split: option.split prod.split)

lemma vm_inv_on_manager:
  assumes "vm_inv ve v" and "\<And>m. mgr_step (ve_env ve) m (snd (f m))"
  shows "vm_inv ve (snd (on_manager f v))"
  using assms(1)
proof (cases rule: vm_inv_cases)
  case idle
  then show ?thesis using assms(1) by (simp add: on_manager_def idle_def)
next
  case (inport h)
  let ?m = "snd (f (w_mgr (host_world h)))"
  from inport have "inport_reachable (ve_env ve) (h\<lparr>host_world := upd_mgr (\<lambda>_. ?m) (host_world h)\<rparr>)"
    using inport_reachable.step [OF _ inport_step.links [OF assms(2)]] by (auto simp: serves_defs)
  with inport show ?thesis
    by (intro vm_inv_intros(2)) (auto simp: on_manager_def serves_defs split: prod.split)
next
  case (outport h)
  let ?m = "snd (f (w_mgr (host_world h)))"
  from outport have "outport_reachable (ve_env ve) (h\<lparr>host_world := upd_mgr (\<lambda>_. ?m) (host_world h)\<rparr>)"
    using outport_reachable.step [OF _ outport_step.links [OF assms(2)]] by (auto simp: serves_defs)
  with outport show ?thesis
    by (intro vm_inv_intros(3)) (auto simp: on_manager_def serves_defs split: prod.split)
next
  case (transit t)
  then show ?thesis using assms(1) by (simp add: on_manager_def serves_defs)
qed

lemma vm_inv_response [simp]: "vm_inv ve (snd (sendResponse ve r v)) = vm_inv ve v"
  by (simp add: sendResponse_def)

lemma vm_inv_mlfStart: "vm_inv ve v \<Longrightarrow> vm_inv ve (snd (mlfStart ve now req v))"
  using vm_inv_doBringup [of ve v now] vm_inv_doBringup [OF vm_inv_teardown, of ve now now v]
  by (auto simp: mlfStart_def Let_def split: prod.split)

lemma vm_inv_channels:
  "vm_inv ve v \<Longrightarrow> vm_inv ve (snd (mlfAddChannel ve now req v))"
  "vm_inv ve v \<Longrightarrow> vm_inv ve (snd (mlfRemoveChannel ve req' v))"
  using vm_inv_on_manager [of ve v "addChannel (ve_env ve) now (areq_channel req)", OF _ mgr_step.add]
    vm_inv_on_manager [of ve v "removeChannel (rreq_channel_id req')", OF _ mgr_step.remove]
  by (auto simp: mlfAddChannel_def mlfRemoveChannel_def Let_def split: prod.split)

lemma vm_inv_mlfSetConfig: "vm_inv ve v \<Longrightarrow> vm_inv ve (snd (mlfSetConfig ve now req v))"
  by (simp add: mlfSetConfig_def Let_def split: option.split)

lemma vm_inv_rpc_call: "(\<And>a. vm_inv ve (snd (f a v))) \<Longrightarrow> vm_inv ve v \<Longrightarrow> vm_inv ve (snd (rpc_call_1 u f v))"
  by (simp add: rpc_call_1_def split: prod.split)

lemma vm_inv_if: "vm_inv ve (snd x) \<Longrightarrow> vm_inv ve (snd y) \<Longrightarrow> vm_inv ve (snd (if c then x else y))"
  by simp

lemma vm_inv_rpc:
  assumes "vm_inv ve v"
  shows "vm_inv ve (snd (call_dblock ve now method buf v))"
  unfolding call_dblock_def Let_def mlfGetStatus_def mlfStop_def
  by (intro vm_inv_if vm_inv_rpc_call assms vm_inv_mlfStart vm_inv_channels vm_inv_mlfSetConfig) (simp_all add: assms)

lemma vm_step_inv: "vm_step ve v v' \<Longrightarrow> vm_inv ve v \<Longrightarrow> vm_inv ve v'"
proof (induction rule: vm_step.induct)
  case (inport v h h')
  then have "serves_inport ve (v\<lparr>vm_inport := Some h'\<rparr>) h'"
    using inport_reachable.step by (auto simp: vm_inv_def serves_defs)
  then show ?case by (rule vm_inv_intros(2))
next
  case (outport v k k')
  then have "serves_outport ve (v\<lparr>vm_outport := Some k'\<rparr>) k'"
    using outport_reachable.step by (auto simp: vm_inv_def serves_defs)
  then show ?case by (rule vm_inv_intros(3))
next
  case (transit v t t')
  then have "serves_transit ve (v\<lparr>vm_transit := Some t'\<rparr>) t'"
    by (auto simp: vm_inv_def serves_defs intro: transit_reachable.step)
  then show ?case by (rule vm_inv_intros(4))
qed (simp_all add: vm_inv_start vm_stop_def vm_inv_rpc)

lemma vm_reachable_inv: "vm_reachable ve v \<Longrightarrow> vm_inv ve v"
proof (induction rule: vm_reachable.induct)
  case (init files)
  show ?case by (rule vm_inv_intros(1)) (simp add: vm_new_def idle_def)
qed (rule vm_step_inv)

section \<open>What a tear-down leaves\<close>

lemma send_copies_channels: "m_channels (snd (send_copies env now frame live i ids best m)) = m_channels m"
  by (induction env now frame live i ids best m rule: send_copies.induct)
    (auto simp: chan_sendBytes_snd split: option.split prod.split, metis chan_sendBytes_snd snd_conv upd_chan_simps(1))

lemma sendSegment_channels: "m_channels (snd (sendSegment env now ds wi sid seq flags payload m)) = m_channels m"
proof -
  have "send_copies env now frame live i ids best (m\<lparr>m_selector := sel\<rparr>) = (b, m') \<Longrightarrow> m_channels m' = m_channels m"
    for frame live i ids best sel b m'
    using send_copies_channels [of env now frame live i ids best "m\<lparr>m_selector := sel\<rparr>"] by simp
  then show ?thesis
    by (auto simp: sendSegment_def Let_def split: sum.split prod.split)
qed

lemma closeSession_channels: "m_channels (w_mgr (closeSession env now sid key w)) = m_channels (w_mgr w)"
  by (simp add: closeSession_def Let_def sendSegment_channels split: option.split)

lemma fs_close_effect:
  "m_channels (w_mgr (fs_close env now h w)) = m_channels (w_mgr w)"
  "ip_acceptor (w_app (fs_close env now h w)) = ip_acceptor (w_app w)"
  "ip_sessions (w_app w) = [] \<Longrightarrow> ip_sessions (w_app (fs_close env now h w)) = []"
  "fs_closed (ip_heap (w_app (fs_close env now h w)) h') \<longleftrightarrow> h' = h \<or> fs_closed (ip_heap (w_app w) h')"
  by (auto simp: fs_close_def Let_def closeSession_channels inport_removeSession_def smap_erase_def upd_fs_def)

lemma fs_close_all:
  assumes "w' = foldl (\<lambda>w kv. fs_close env now (snd kv) w) w rs" and "ip_sessions (w_app w) = []"
  shows "m_channels (w_mgr w') = m_channels (w_mgr w) \<and> ip_acceptor (w_app w') = ip_acceptor (w_app w) \<and>
    ip_sessions (w_app w') = [] \<and>
    (\<forall>h. fs_closed (ip_heap (w_app w) h) \<or> h \<in> snd ` set rs \<longrightarrow> fs_closed (ip_heap (w_app w') h))"
  using assms by (induction rs arbitrary: w) (simp_all add: fs_close_effect)

lemma rs_close_effect:
  "m_channels (w_mgr (rs_close env now h w)) = m_channels (w_mgr w)"
  "op_sessions (w_app w) = [] \<Longrightarrow> op_sessions (w_app (rs_close env now h w)) = []"
  "rs_state (op_heap (w_app (rs_close env now h w)) h') = ST_CLOSED \<longleftrightarrow>
     h' = h \<or> rs_state (op_heap (w_app w) h') = ST_CLOSED"
  by (auto simp: rs_close_def Let_def closeSession_channels outport_removeSession_def smap_erase_def upd_rs_def
      relay_def)

lemma rs_close_all:
  assumes "w' = foldl (\<lambda>w kv. rs_close env now (snd kv) w) w rs" and "op_sessions (w_app w) = []"
  shows "m_channels (w_mgr w') = m_channels (w_mgr w) \<and> op_sessions (w_app w') = [] \<and>
    (\<forall>h. rs_state (op_heap (w_app w) h) = ST_CLOSED \<or> h \<in> snd ` set rs \<longrightarrow>
       rs_state (op_heap (w_app w') h) = ST_CLOSED)"
  using assms by (induction rs arbitrary: w) (simp_all add: rs_close_effect)

text \<open>A stopped manager listens, beats and subscribes no more, and every channel it had is down.\<close>

definition manager_quiet :: "manager \<Rightarrow> manager \<Rightarrow> bool" where
  "manager_quiet m m' \<longleftrightarrow> m_channels m' = [] \<and> \<not> m_link_acceptor m' \<and> m_heartbeat_timer m' = None \<and>
     m_bytes_subscribers m' = [] \<and> (\<forall>r \<in> snd ` set (m_channels m). \<not> ch_connected (m_heap m' r))"

lemma chan_close_down: "\<not> ch_connected (chan_close c)"
  by (simp add: chan_close_def tcp_close_def utp_close_def split: ZFGW_CHANNEL_KIND.split)

lemma mgr_stop_heap_at:
  "m_heap (mgr_stop m) r = (if r \<in> snd ` set (m_channels m) then chan_close (m_heap m r) else m_heap m r)"
  by (simp add: mgr_stop_def Let_def stopLinkListener_def mgr_stop_heap)

lemma mgr_stop_quiet: "m_channels m = m_channels m0 \<Longrightarrow> manager_quiet m0 (mgr_stop m)"
  using mgr_stop_channels [of m] by (simp add: manager_quiet_def mgr_stop_heap_at chan_close_down)

definition inport_quiet :: "inport host \<Rightarrow> inport host \<Rightarrow> bool" where
  "inport_quiet h h' \<longleftrightarrow> manager_quiet (w_mgr (host_world h)) (w_mgr (host_world h')) \<and>
     \<not> ip_acceptor (w_app (host_world h')) \<and> ip_sessions (w_app (host_world h')) = [] \<and>
     (\<forall>s \<in> snd ` set (ip_sessions (w_app (host_world h))). fs_closed (ip_heap (w_app (host_world h')) s))"

definition outport_quiet :: "outport host \<Rightarrow> outport host \<Rightarrow> bool" where
  "outport_quiet h h' \<longleftrightarrow> manager_quiet (w_mgr (host_world h)) (w_mgr (host_world h')) \<and>
     op_sessions (w_app (host_world h')) = [] \<and>
     (\<forall>s \<in> snd ` set (op_sessions (w_app (host_world h))). rs_state (op_heap (w_app (host_world h')) s) = ST_CLOSED)"

definition transit_quiet :: "transit \<Rightarrow> transit \<Rightarrow> bool" where
  "transit_quiet t t' \<longleftrightarrow> t_links t' = [] \<and> t_outbound_by_outport t' = [] \<and> t_inbound_by_ingress t' = [] \<and>
     \<not> t_acceptor t' \<and> t_heartbeat_timer t' = None \<and> (\<forall>r \<in> fst ` set (t_links t). \<not> ch_connected (t_heap t' r))"

lemma release_inport_quiet: "inport_quiet h (release_inport env now h)"
proof -
  define w where "w = inport_stop env now (host_world h)"
  have "w = foldl (\<lambda>w kv. fs_close env now (snd kv) w) (upd_app (\<lambda>ip. ip\<lparr>ip_acceptor := False, ip_sessions := []\<rparr>) (host_world h))
      (ip_sessions (w_app (host_world h)))"
    by (simp add: w_def inport_stop_def Let_def)
  from fs_close_all [OF this] have eff: "m_channels (w_mgr w) = m_channels (w_mgr (host_world h))"
    "\<not> ip_acceptor (w_app w)" "ip_sessions (w_app w) = []"
    "\<forall>s \<in> snd ` set (ip_sessions (w_app (host_world h))). fs_closed (ip_heap (w_app w) s)"
    by auto
  show ?thesis
    using eff mgr_stop_quiet [OF eff(1)]
    by (simp add: inport_quiet_def release_inport_def upd_mgr_def w_def [symmetric])
qed

lemma release_outport_quiet: "outport_quiet h (release_outport env now h)"
proof -
  define w where "w = outport_stop env now (host_world h)"
  have "w = foldl (\<lambda>w kv. rs_close env now (snd kv) w) (upd_app (\<lambda>op. op\<lparr>op_sessions := []\<rparr>) (host_world h))
      (op_sessions (w_app (host_world h)))"
    by (simp add: w_def outport_stop_def Let_def)
  from rs_close_all [OF this] have eff: "m_channels (w_mgr w) = m_channels (w_mgr (host_world h))"
    "op_sessions (w_app w) = []"
    "\<forall>s \<in> snd ` set (op_sessions (w_app (host_world h))). rs_state (op_heap (w_app w) s) = ST_CLOSED"
    by auto
  show ?thesis
    using eff mgr_stop_quiet [OF eff(1)]
    by (simp add: outport_quiet_def release_outport_def upd_mgr_def w_def [symmetric])
qed

lemma close_links:
  "t_links (foldl (\<lambda>t r. t_upd_chan r chan_close t) t rs) = t_links t"
  "t_outbound_by_outport (foldl (\<lambda>t r. t_upd_chan r chan_close t) t rs) = t_outbound_by_outport t"
  "t_inbound_by_ingress (foldl (\<lambda>t r. t_upd_chan r chan_close t) t rs) = t_inbound_by_ingress t"
  "t_acceptor (foldl (\<lambda>t r. t_upd_chan r chan_close t) t rs) = t_acceptor t"
  "t_heartbeat_timer (foldl (\<lambda>t r. t_upd_chan r chan_close t) t rs) = t_heartbeat_timer t"
  by (induction rs arbitrary: t) (simp_all add: t_upd_chan_def)

lemma close_links_down:
  "\<not> ch_connected (t_heap t r) \<or> r \<in> set rs \<Longrightarrow>
    \<not> ch_connected (t_heap (foldl (\<lambda>t r. t_upd_chan r chan_close t) t rs) r)"
  by (induction rs arbitrary: t) (auto simp: chan_close_down)

lemma transit_stop_quiet: "transit_quiet t (transit_stop t)"
  by (simp add: transit_quiet_def transit_stop_def Let_def close_links close_links_down)

section \<open>The machine as a whole\<close>

text \<open>C14: In every reachable state the machine runs exactly while one of the three services is there, never two
  of them, and no bare manager; the service is in a state its own runs reach, so what holds in those runs
  holds inside the machine.\<close>

theorem vm_runs_one_service:
  assumes "vm_reachable ve v"
  shows "(vm_running v \<longleftrightarrow> vm_inport v \<noteq> None \<or> vm_outport v \<noteq> None \<or> vm_transit v \<noteq> None) \<and>
    (vm_inport v = None \<or> vm_outport v = None) \<and> (vm_inport v = None \<or> vm_transit v = None) \<and>
    (vm_outport v = None \<or> vm_transit v = None) \<and> vm_manager v = None \<and>
    (\<forall>h. vm_inport v = Some h \<longrightarrow> inport_reachable (ve_env ve) h) \<and>
    (\<forall>h. vm_outport v = Some h \<longrightarrow> outport_reachable (ve_env ve) h) \<and>
    (\<forall>t. vm_transit v = Some t \<longrightarrow> (\<exists>cfg. transit_reachable (ve_env ve) cfg t))"
  using vm_reachable_inv [OF assms] by (cases rule: vm_inv_cases) (auto simp: serves_defs)

text \<open>C20: Bringing up an idle machine either answers 0 and runs the service of the configured role, or answers an
  error and leaves the machine idle; it does not change the configuration.\<close>

theorem bringup_all_or_nothing:
  assumes "vm_reachable ve v" and "\<not> vm_running v" and "doBringup ve now v = (ret, v')"
  shows "vm_config v' = vm_config v \<and>
    (if ret = 0
     then vm_running v' \<and>
       (cfg_role (vm_config v) = ZFGW_ROLE_INPORT \<and> vm_inport v' \<noteq> None \<or>
        cfg_role (vm_config v) = ZFGW_ROLE_OUTPORT \<and> vm_outport v' \<noteq> None \<or>
        cfg_role (vm_config v) = ZFGW_ROLE_TRANSIT \<and> vm_transit v' \<noteq> None)
     else ret < 0 \<and> \<not> vm_running v' \<and> vm_inport v' = None \<and> vm_outport v' = None \<and> vm_transit v' = None)"
proof -
  have "idle v"
    using vm_reachable_inv [OF assms(1)] assms(2) by (cases rule: vm_inv_cases) (auto simp: serves_defs)
  from doBringup_serves [OF this, of ve now] assms(3) show ?thesis
    by (auto simp: serves_defs split: if_splits)
qed

text \<open>C19: A tear-down leaves the machine idle, and what it let go is quiet: no listener, no heartbeat, no session
  or link in a table, every registered client session and relay closed, every link down.\<close>

theorem teardown_leaves_quiet:
  "idle (doTeardown ve now v) \<and>
   (\<forall>h. vm_inport v = Some h \<longrightarrow>
      (\<exists>h'. ReleasedInport h' \<in> set (vm_released (doTeardown ve now v)) \<and> inport_quiet h h')) \<and>
   (\<forall>h. vm_outport v = Some h \<longrightarrow>
      (\<exists>h'. ReleasedOutport h' \<in> set (vm_released (doTeardown ve now v)) \<and> outport_quiet h h')) \<and>
   (\<forall>t. vm_transit v = Some t \<longrightarrow>
      (\<exists>t'. ReleasedTransit t' \<in> set (vm_released (doTeardown ve now v)) \<and> transit_quiet t t'))"
proof -
  have "ReleasedInport (release_inport (ve_env ve) now h) \<in> set (vm_released (doTeardown ve now v))"
    if "vm_inport v = Some h" for h
    using that by (simp add: doTeardown_def)
  moreover have "ReleasedOutport (release_outport (ve_env ve) now h) \<in> set (vm_released (doTeardown ve now v))"
    if "vm_outport v = Some h" for h
    using that by (simp add: doTeardown_def)
  moreover have "ReleasedTransit (transit_stop t) \<in> set (vm_released (doTeardown ve now v))"
    if "vm_transit v = Some t" for t
    using that by (simp add: doTeardown_def)
  ultimately show ?thesis
    using release_inport_quiet release_outport_quiet transit_stop_quiet teardown_idle by blast
qed

text \<open>C15: A configuration of the supported schema version that a client packs for mlfSetConfig becomes the
  machine's configuration, whether or not it can be saved (another version is refused); if it was saved, a
  machine of the same name that starts later, after a restart of the host, brings itself up with exactly that
  configuration, as long as the file can be read and memory does not run out.\<close>

theorem configuration_outlives_the_host:
  assumes z: "zds_laws (e_zds (ve_env ve))" "header_stored (e_zds (ve_env ve))"
    and req: "zds_pack_FgwSetConfigRequest (e_zds (ve_env ve)) (Some room) \<lparr>creq_config = c\<rparr> True = (len, buf)" "0 \<le> len"
    and version: "fgwConfigVersionOk (cfg_config_version c)"
    and v': "v' = snd (call_dblock ve now ''mlfSetConfig'' buf v)"
  shows "vm_config v' = c \<and> last (vm_replies v') = ReplyResult \<lparr>sres_errcode = 0, sres_message = ''config updated''\<rparr> \<and>
    (\<forall>dir. ve_host_dir ve = Some dir \<longrightarrow>
       fst (zfgw_save_config (ve_files ve) (ve_env ve) now c dir (ve_name ve) [] (vm_files v)) = 0 \<longrightarrow>
       f_open_r (ve_files ve) (fgwConfigFilePath dir (ve_name ve) []) \<longrightarrow> (\<forall>n. f_fread (ve_files ve) n = n) \<longrightarrow>
       roomy (ve_env ve) \<longrightarrow>
       vm_start ve later (vm_new (vm_files v')) = doBringup ve later ((vm_new (vm_files v'))\<lparr>vm_config := c\<rparr>))"
proof (intro conjI allI impI)
  let ?z = "e_zds (ve_env ve)" and ?arg = "\<lparr>creq_config = FgwConfig_init\<rparr> :: FgwSetConfigRequest"
  have un: "zds_unpack_FgwSetConfigRequest ?z ?arg buf True = (len, \<lparr>creq_config = c\<rparr>)"
    using set_config_prim [OF z(1), of True ?arg] req unfolding prim_ok_def by (metis append_Nil2)
  then have v'_eq: "v' = snd (mlfSetConfig ve now \<lparr>creq_config = c\<rparr> v)"
    using req(2) by (simp add: v' call_dblock_def rpc_call_1_def Let_def)
  then show "vm_config v' = c" "last (vm_replies v') = ReplyResult \<lparr>sres_errcode = 0, sres_message = ''config updated''\<rparr>"
    using version by (simp_all add: mlfSetConfig_def sendResponse_def Let_def split: option.split)
  fix dir
  assume dir: "ve_host_dir ve = Some dir"
    and save: "fst (zfgw_save_config (ve_files ve) (ve_env ve) now c dir (ve_name ve) [] (vm_files v)) = 0"
    and read: "f_open_r (ve_files ve) (fgwConfigFilePath dir (ve_name ve) [])" "\<forall>n. f_fread (ve_files ve) n = n"
    and room: "roomy (ve_env ve)"
  obtain files' where files': "zfgw_save_config (ve_files ve) (ve_env ve) now c dir (ve_name ve) [] (vm_files v) = (0, files')"
    using save by (metis prod.collapse)
  have files: "vm_files v' = files'"
    using v'_eq version dir files' by (simp add: mlfSetConfig_def sendResponse_def Let_def)
  have stamped: "c\<lparr>cfg_config_version := kFgwConfigVersion\<rparr> = c"
    using version by (cases c) (simp add: fgwConfigVersionOk_def)
  have "zfgw_load_config (ve_files ve) (ve_env ve) later FgwConfig_init dir (ve_name ve) [] files' = (0, c)"
    using saved_is_loaded [OF z files' refl read(1), of later FgwConfig_init] read(2) room stamped
    by (simp add: roomy_def)
  then show "vm_start ve later (vm_new (vm_files v')) = doBringup ve later ((vm_new (vm_files v'))\<lparr>vm_config := c\<rparr>)"
    by (simp add: files vm_start_def dir vm_new_def Let_def)
qed

text \<open>C28: What the RPC interface refuses, and with which answer: an unknown method, a configuration that cannot
  be read or is of another schema version, a start while running that is not forced, a channel change while no
  manager is there. A refusal changes nothing but the replies.\<close>

theorem rpc_refusals:
  "(method \<notin> {''mlfGetStatus'', ''mlfStart'', ''mlfStop'', ''mlfSetConfig'', ''mlfAddChannel'', ''mlfRemoveChannel''} \<longrightarrow>
      call_dblock ve now method buf v = (0, v\<lparr>vm_replies := vm_replies v @ [ReplyError (errcode ERR_INVALIDCONFIG)]\<rparr>)) \<and>
   (fst (zds_unpack_FgwSetConfigRequest (e_zds (ve_env ve)) \<lparr>creq_config = FgwConfig_init\<rparr> buf True) = e \<longrightarrow> e < 0 \<longrightarrow>
      call_dblock ve now ''mlfSetConfig'' buf v = (e, v\<lparr>vm_replies := vm_replies v @ [ReplyError e]\<rparr>)) \<and>
   (\<not> fgwConfigVersionOk (cfg_config_version c) \<longrightarrow>
      snd (mlfSetConfig ve now \<lparr>creq_config = c\<rparr> v) = v\<lparr>vm_replies := vm_replies v @
        [ReplyResult \<lparr>sres_errcode = errcode ERR_INVALIDCONFIG, sres_message = ''incompatible config_version''\<rparr>]\<rparr>) \<and>
   (vm_running v \<longrightarrow> snd (mlfStart ve now \<lparr>sreq_force_restart = 0\<rparr> v) = v\<lparr>vm_replies := vm_replies v @
        [ReplyResult \<lparr>sres_errcode = errcode ERR_BUSY, sres_message = ''already running''\<rparr>]\<rparr>) \<and>
   (manager_of v = None \<longrightarrow> snd (mlfAddChannel ve now areq v) = v\<lparr>vm_replies := vm_replies v @
        [ReplyResult \<lparr>sres_errcode = errcode ERR_NOTRUNNING, sres_message = ''failed''\<rparr>]\<rparr> \<and>
      snd (mlfRemoveChannel ve rreq v) = v\<lparr>vm_replies := vm_replies v @
        [ReplyResult \<lparr>sres_errcode = errcode ERR_NOTRUNNING, sres_message = ''failed''\<rparr>]\<rparr>)"
proof (intro conjI impI)
  assume "method \<notin> {''mlfGetStatus'', ''mlfStart'', ''mlfStop'', ''mlfSetConfig'', ''mlfAddChannel'', ''mlfRemoveChannel''}"
  then show "call_dblock ve now method buf v = (0, v\<lparr>vm_replies := vm_replies v @ [ReplyError (errcode ERR_INVALIDCONFIG)]\<rparr>)"
    unfolding call_dblock_def Let_def insert_iff de_Morgan_disj by (simp only: if_False)
next
  assume "fst (zds_unpack_FgwSetConfigRequest (e_zds (ve_env ve)) \<lparr>creq_config = FgwConfig_init\<rparr> buf True) = e" "e < 0"
  then show "call_dblock ve now ''mlfSetConfig'' buf v = (e, v\<lparr>vm_replies := vm_replies v @ [ReplyError e]\<rparr>)"
    by (cases "zds_unpack_FgwSetConfigRequest (e_zds (ve_env ve)) \<lparr>creq_config = FgwConfig_init\<rparr> buf True")
      (simp add: call_dblock_def rpc_call_1_def Let_def)
next
  have none: "on_manager f v = (errcode ERR_NOTRUNNING, v)" if "manager_of v = None" for f
    using that by (simp add: on_manager_def manager_of_def split: option.splits)
  assume "manager_of v = None"
  then show "snd (mlfAddChannel ve now areq v) = v\<lparr>vm_replies := vm_replies v @
        [ReplyResult \<lparr>sres_errcode = errcode ERR_NOTRUNNING, sres_message = ''failed''\<rparr>]\<rparr>"
    "snd (mlfRemoveChannel ve rreq v) = v\<lparr>vm_replies := vm_replies v @
        [ReplyResult \<lparr>sres_errcode = errcode ERR_NOTRUNNING, sres_message = ''failed''\<rparr>]\<rparr>"
    by (simp_all add: mlfAddChannel_def mlfRemoveChannel_def none sendResponse_def)
qed (simp_all add: mlfSetConfig_def mlfStart_def sendResponse_def)

lemma map_by_key: "(\<And>k h. (k, h) \<in> set xs \<Longrightarrow> f h = k) \<Longrightarrow> map (\<lambda>x. f (snd x)) xs = map fst xs"
  by auto

lemma inport_sessions_listed:
  assumes "vm_reachable ve v" and "roomy (ve_env ve)" and h: "vm_inport v = Some h"
  shows "map ss_session_id (fst_sessions (vm_status v)) = map fst (ip_sessions (w_app (host_world h)))"
    and "distinct (map fst (ip_sessions (w_app (host_world h))))" and "mgr_inv (w_mgr (host_world h))"
proof -
  have "inport_reachable (ve_env ve) h"
    using vm_reachable_inv [OF assms(1)] h by (cases rule: vm_inv_cases) (auto simp: serves_defs)
  then have inv: "inport_inv (host_world h)"
    using inport_reachable_inv [of "ve_env ve" h] assms(2) by (simp add: inport_run.gate_inv_def inport_gate_def)
  then have "(sid, s) \<in> set (ip_sessions (w_app (host_world h))) \<Longrightarrow>
      fs_session_id (ip_heap (w_app (host_world h)) s) = sid" for sid s
    unfolding inport_inv_def by blast
  from map_by_key [OF this]
  show "map ss_session_id (fst_sessions (vm_status v)) = map fst (ip_sessions (w_app (host_world h)))"
    by (simp add: vm_status_def h Let_def inport_snapshotSessions_def inport_stat_def comp_def case_prod_unfold)
  show "distinct (map fst (ip_sessions (w_app (host_world h))))" "mgr_inv (w_mgr (host_world h))"
    using inv smap_inv_distinct unfolding inport_inv_def by blast+
qed

lemma outport_sessions_listed:
  assumes "vm_reachable ve v" and "roomy (ve_env ve)" and h: "vm_outport v = Some h"
  shows "map (\<lambda>s. (ss_ingress_id s, ss_session_id s)) (fst_sessions (vm_status v)) = map fst (op_sessions (w_app (host_world h)))"
    and "distinct (map fst (op_sessions (w_app (host_world h))))" and "mgr_inv (w_mgr (host_world h))"
proof -
  have none: "vm_inport v = None" and "outport_reachable (ve_env ve) h"
    using vm_reachable_inv [OF assms(1)] h by (cases rule: vm_inv_cases; auto simp: serves_defs)+
  then have inv: "outport_core (host_world h)"
    using outport_reachable_inv [of "ve_env ve" h] assms(2) by (simp add: outport_inv_def)
  have "relay_key s (host_world h) = k" if "(k, s) \<in> set (op_sessions (w_app (host_world h)))" for k s
    using inv smap_in_set_find [OF _ that] unfolding outport_core_def by blast
  from map_by_key [OF this]
  show "map (\<lambda>s. (ss_ingress_id s, ss_session_id s)) (fst_sessions (vm_status v)) = map fst (op_sessions (w_app (host_world h)))"
    by (simp add: vm_status_def h none Let_def outport_snapshotSessions_def outport_stat_def comp_def
        case_prod_unfold relay_key_def relay_def)
  show "distinct (map fst (op_sessions (w_app (host_world h))))" "mgr_inv (w_mgr (host_world h))"
    using inv smap_inv_distinct unfolding outport_core_def by blast+
qed

text \<open>C22: As long as memory does not run out, the status a reachable machine reports lists each session in the
  table of its service exactly once, under its id (an Outport also its peer's ingress id), and each channel of
  the manager once; the count and the running flag agree.\<close>

theorem status_is_truthful:
  assumes "vm_reachable ve v" and "roomy (ve_env ve)" and "st = vm_status v"
  shows "(fst_running st = 1 \<longleftrightarrow> vm_running v) \<and> fst_session_count st = of_nat (length (fst_sessions st)) \<and>
    (\<forall>h. vm_inport v = Some h \<longrightarrow> map ss_session_id (fst_sessions st) = map fst (ip_sessions (w_app (host_world h))) \<and>
      distinct (map ss_session_id (fst_sessions st))) \<and>
    (\<forall>h. vm_outport v = Some h \<longrightarrow>
      map (\<lambda>s. (ss_ingress_id s, ss_session_id s)) (fst_sessions st) = map fst (op_sessions (w_app (host_world h))) \<and>
      distinct (map (\<lambda>s. (ss_ingress_id s, ss_session_id s)) (fst_sessions st))) \<and>
    (\<forall>m. manager_of v = Some m \<longrightarrow> map flq_channel_id (fst_links st) = map fst (m_channels m))"
proof -
  note inp = inport_sessions_listed [OF assms(1,2)] and outp = outport_sessions_listed [OF assms(1,2)]
  have "mgr_inv m" if "manager_of v = Some m" for m
    using vm_reachable_inv [OF assms(1)]
    by (cases rule: vm_inv_cases) (use that inp(3) outp(3) in \<open>auto simp: serves_defs manager_of_def\<close>)
  then have "map flq_channel_id (collectLinkQualities m) = map fst (m_channels m)" if "manager_of v = Some m" for m
    using that by (fastforce simp: collectLinkQualities_def mgr_inv_def Let_def)
  then have "map flq_channel_id (fst_links st) = map fst (m_channels m)" if "manager_of v = Some m" for m
    using that by (simp add: assms(3) vm_status_def Let_def)
  moreover have "(fst_running st = 1 \<longleftrightarrow> vm_running v) \<and> fst_session_count st = of_nat (length (fst_sessions st))"
    by (simp add: assms(3) vm_status_def Let_def)
  ultimately show ?thesis
    unfolding assms(3) using inp(1,2) outp(1,2) by (intro conjI allI impI) simp_all
qed

text \<open>C27: Stopping a manager does not take back its reconnect timers: when one fires after the stop, the manager
  registers a channel again and dials the peer, while no stream listens to it any more.\<close>

theorem stopped_manager_redials:
  assumes "i < length (m_timers m)" and "snd (m_timers m ! i) = TReconnect cfg" and "cc_kind cfg = 0"
    and "m' = fire_timer env now i (mgr_stop m)"
  shows "findChannel m' (cc_channel_id cfg) = Some (m_next_ref m) \<and>
    ch_remote (m_heap m' (m_next_ref m)) = cc_remote cfg \<and> ch_tcp_ptr (m_heap m' (m_next_ref m)) = Some 0 \<and>
    m_bytes_subscribers m' = []"
proof -
  have "m_timers (foldl (\<lambda>m r. upd_chan r chan_close m) m0 rs) = m_timers m0"
    "m_next_ref (foldl (\<lambda>m r. upd_chan r chan_close m) m0 rs) = m_next_ref m0" for m0 rs
    by (induction rs arbitrary: m0) (simp_all add: upd_chan_def)
  then have "m_timers (mgr_stop m) = m_timers m" "m_next_ref (mgr_stop m) = m_next_ref m"
    by (simp_all add: mgr_stop_def Let_def stopLinkListener_def)
  then show ?thesis
    using assms(1-3) mgr_stop_channels [of m] unfolding assms(4)
    by (simp add: fire_timer_def run_timer_def removeChannel_def addChannel_def findChannel_def Let_def alloc_chan_def
        chan_defs smap_find_def smap_count_def smap_find_set)
qed

section \<open>A machine that runs\<close>

definition sample_ve :: vm_env where
  "sample_ve = \<lparr>ve_env = open_env, ve_files = open_files, ve_reactor = True, ve_host_dir = None, ve_name = ''gw'',
     ve_send = (\<lambda>_. 0)\<rparr>"

definition sample_booted :: "inport host" where
  "sample_booted = the (vm_inport (snd (doBringup sample_ve 0 (vm_new (\<lambda>_. None)))))"

definition sample_vm :: vm where
  "sample_vm = (snd (doBringup sample_ve 0 (vm_new (\<lambda>_. None))))
     \<lparr>vm_inport := Some (sample_booted\<lparr>host_world := snd (inport_accept open_env 1 1 ''client'' (host_world sample_booted))\<rparr>)\<rparr>"

lemma sample_idle: "vm_reachable sample_ve (vm_new (\<lambda>_. None))" "\<not> vm_running (vm_new (\<lambda>_. None))"
  by (rule vm_reachable.init) (simp add: vm_new_def)

lemma sample_bringup:
  "fst (doBringup sample_ve 0 (vm_new (\<lambda>_. None))) = 0"
  "vm_inport (snd (doBringup sample_ve 0 (vm_new (\<lambda>_. None)))) = Some sample_booted"
  "ip_sessions (w_app (host_world sample_booted)) = []" "ip_next_session_id (w_app (host_world sample_booted)) = 1"
  by (simp_all add: doBringup_def vm_new_def sample_ve_def FgwConfig_init_def ZFGW_ROLE_TRANSIT_def ZFGW_ROLE_INPORT_def
      bringup_inport_def stream_inport_def inport_boot_def new_DataStream_def inport_start_def inport_init_def
      open_env_def mgr_start_ok sample_booted_def upd_app_def Let_def mgr_start_def)

lemma sample_vm_reachable: "vm_reachable sample_ve sample_vm"
proof -
  have start: "snd (vm_start sample_ve 0 (vm_new (\<lambda>_. None))) = snd (doBringup sample_ve 0 (vm_new (\<lambda>_. None)))"
    by (simp add: vm_start_def sample_ve_def)
  have "vm_reachable sample_ve (snd (doBringup sample_ve 0 (vm_new (\<lambda>_. None))))"
    using vm_reachable.step [OF sample_idle(1) vm_step.start [of _ _ 0]] by (simp only: start)
  from vm_reachable.step [OF this vm_step.inport [OF sample_bringup(2) inport_step.accept [of _ _ 1 1 "''client''"]]]
  show ?thesis by (simp add: sample_vm_def sample_ve_def)
qed

lemma sample_vm_facts:
  "vm_running sample_vm" "vm_outport sample_vm = None" "vm_inport sample_vm \<noteq> None"
  "map fst (ip_sessions (w_app (host_world (the (vm_inport sample_vm))))) = [1]"
proof -
  show "vm_inport sample_vm \<noteq> None" by (simp add: sample_vm_def)
  then show "vm_running sample_vm" "vm_outport sample_vm = None"
    using vm_reachable_inv [OF sample_vm_reachable] by (auto simp: vm_inv_def serves_defs)
  show "map fst (ip_sessions (w_app (host_world (the (vm_inport sample_vm))))) = [1]"
    using sample_bringup(3,4)
    by (simp add: sample_vm_def inport_accept_def inport_allocateSessionId_def Let_def openSession_def upd_mgr_def)
qed

theorem vm_runs_one_service_witness:
  "vm_running sample_vm \<and> inport_reachable (ve_env sample_ve) (the (vm_inport sample_vm)) \<and> vm_transit sample_vm = None"
  using vm_runs_one_service [OF sample_vm_reachable] sample_vm_facts by auto

theorem bringup_all_or_nothing_witness:
  "vm_running (snd (doBringup sample_ve 0 (vm_new (\<lambda>_. None))))"
  using bringup_all_or_nothing [OF sample_idle prod.collapse [symmetric], of 0] sample_bringup(1) by simp

theorem teardown_leaves_quiet_witness:
  "\<exists>h'. ReleasedInport h' \<in> set (vm_released (doTeardown sample_ve 2 sample_vm)) \<and>
     inport_quiet (the (vm_inport sample_vm)) h'"
  using teardown_leaves_quiet [of sample_ve 2 sample_vm] sample_vm_facts(3) by (metis option.collapse)

theorem status_is_truthful_witness:
  "fst_running (vm_status sample_vm) = 1 \<and> map ss_session_id (fst_sessions (vm_status sample_vm)) = [1]"
proof -
  have "roomy (ve_env sample_ve)" using roomy_open_env by (simp add: sample_ve_def)
  from status_is_truthful [OF sample_vm_reachable this refl] sample_vm_facts show ?thesis by auto
qed

definition sample_hosted :: vm_env where
  "sample_hosted = sample_ve\<lparr>ve_host_dir := Some ''/etc''\<rparr>"

definition sample_wanted :: FgwConfig where
  "sample_wanted = sample_file_config\<lparr>cfg_config_version := kFgwConfigVersion\<rparr>"

theorem configuration_outlives_the_host_witness:
  "\<exists>buf files. vm_config (snd (call_dblock sample_hosted 1 ''mlfSetConfig'' buf (vm_new (\<lambda>_. None)))) = sample_wanted \<and>
     vm_start sample_hosted 7 (vm_new files) = doBringup sample_hosted 7 ((vm_new files)\<lparr>vm_config := sample_wanted\<rparr>)"
proof -
  have env: "ve_env sample_hosted = open_env" "ve_files sample_hosted = open_files" "ve_host_dir sample_hosted = Some ''/etc''"
    "ve_name sample_hosted = ''gw''" "vm_files (vm_new (\<lambda>_. None)) = (\<lambda>_. None)"
    by (simp_all add: sample_hosted_def sample_ve_def vm_new_def)
  obtain len buf where req: "zds_pack_FgwSetConfigRequest be_zds (Some 128) \<lparr>creq_config = sample_wanted\<rparr> True = (len, buf)"
    by fastforce
  have "0 \<le> fst (zds_pack_FgwSetConfigRequest be_zds (Some 128) \<lparr>creq_config = sample_wanted\<rparr> True)"
    by code_simp
  then have len: "0 \<le> len" using req by simp
  have saved: "fst (zfgw_save_config open_files open_env 1 sample_wanted ''/etc'' ''gw'' [] (\<lambda>_. None)) = 0"
    by code_simp
  have version: "fgwConfigVersionOk (cfg_config_version sample_wanted)" by (simp add: sample_wanted_def fgwConfigVersionOk_def)
  show ?thesis
    using configuration_outlives_the_host [of sample_hosted 128 sample_wanted len buf
        "snd (call_dblock sample_hosted 1 ''mlfSetConfig'' buf (vm_new (\<lambda>_. None)))" 1 "vm_new (\<lambda>_. None)" 7] req len
      be_zds_laws be_header_stored roomy_open_env open_files_facts saved version
    by (auto simp: env open_env_facts)
qed

theorem rpc_refusals_witness:
  "call_dblock sample_ve 3 ''reboot'' [] sample_vm =
     (0, sample_vm\<lparr>vm_replies := vm_replies sample_vm @ [ReplyError (errcode ERR_INVALIDCONFIG)]\<rparr>) \<and>
   snd (mlfStart sample_ve 3 \<lparr>sreq_force_restart = 0\<rparr> sample_vm) = sample_vm\<lparr>vm_replies := vm_replies sample_vm @
     [ReplyResult \<lparr>sres_errcode = errcode ERR_BUSY, sres_message = ''already running''\<rparr>]\<rparr>"
  using rpc_refusals [of "''reboot''" sample_ve 3 "[]" sample_vm] sample_vm_facts(1) by simp

theorem stopped_manager_redials_witness:
  "findChannel (fire_timer open_env 9 0 (mgr_stop (sample_manager\<lparr>m_timers := [(30000, TReconnect sample_channel)]\<rparr>))) 1 \<noteq> None"
  using stopped_manager_redials [of 0 "sample_manager\<lparr>m_timers := [(30000, TReconnect sample_channel)]\<rparr>" sample_channel _ open_env 9,
      OF _ _ _ refl]
  by (simp add: sample_channel_def)

end
