(* ===== verification/Fgw_Opening.thy ===== *)
theory Fgw_Opening
  imports Fgw_Receive
begin

text \<open>
  Sessions the peer starts. The locale \<open>opening_handler\<close> extends \<open>steady_handler\<close> by a callback for
  unknown sessions: a session nobody opened yet is made by the first of its segments that is
  accepted, a SYN or a DATA segment with any number, and from there on receives its stream.
\<close>

declare split_paired_All [simp del] split_paired_Ex [simp del]

text \<open>\<open>virgin k w\<close>: the application knows nothing of session \<open>k\<close>.\<close>

locale opening_handler = steady_handler +
  fixes virgin :: "session_key \<Rightarrow> 'a world \<Rightarrow> bool"
  assumes virgin_app: "w_app w' = w_app w \<Longrightarrow> virgin k w \<Longrightarrow> virgin k w'"
    and virgin_data: "virgin k w \<Longrightarrow> virgin k (so_data H h sid b w)"
    and virgin_open: "virgin k w \<Longrightarrow> virgin k (so_open H h sid w)"
    and virgin_close: "virgin k w \<Longrightarrow> virgin k (so_close H h sid w)"
    and virgin_unknown: "virgin k w \<Longrightarrow> so_unknown H = Some cb \<Longrightarrow> cb i s w = (ho, w') \<Longrightarrow> (i, s) \<noteq> k \<Longrightarrow> virgin k w'"
    and virgin_fresh: "virgin k w \<Longrightarrow> P w \<Longrightarrow> find_session k w = None \<Longrightarrow>
      \<exists>cb h w'. so_unknown H = Some cb \<and> cb (fst k) (snd k) w = (Some h, w') \<and> delivered h (w_trace w) = []"
begin

lemma virgin_same [simp]:
  "virgin k (put_session k' st w) = virgin k w" "virgin k (erase_session k' w) = virgin k w"
  "virgin k (upd_mgr f w) = virgin k w" "virgin k (w\<lparr>w_trace := tr\<rparr>) = virgin k w"
proof -
  have same: "virgin k w' = virgin k w" if "w_app w' = w_app w" for w w' :: "'a world"
    using that virgin_app [of w w' k] virgin_app [of w' w k] by auto
  show "virgin k (put_session k' st w) = virgin k w" "virgin k (erase_session k' w) = virgin k w"
    "virgin k (upd_mgr f w) = virgin k w" "virgin k (w\<lparr>w_trace := tr\<rparr>) = virgin k w"
    by (rule same, simp)+
qed

lemma virgin_neutral: "neutral w w' \<Longrightarrow> virgin k w \<Longrightarrow> virgin k w'"
  by (rule virgin_app) (simp_all add: neutral_def)

lemma virgin_deliver:
  assumes "virgin k w"
  shows "virgin k (deliverInOrder H k' w)"
proof -
  have "virgin k (foldl (call_data H h sid) v bs)" if "virgin k v" for h sid v bs
    using that by (induction bs arbitrary: v) (simp_all add: call_data_def virgin_data)
  then show ?thesis
    using assms by (simp add: deliverInOrder_def split: option.split prod.split)
qed

lemma virgin_ensure: "virgin k w \<Longrightarrow> k' \<noteq> k \<Longrightarrow> virgin k (ensure_session H k' w)"
  using virgin_unknown [of k w _ "fst k'" "snd k'"]
  by (auto simp: ensure_session_def create_session_def split: option.split prod.split)

lemma virgin_session_segment:
  assumes "virgin k w" and "(rx_ingress_of hdr, hdr_session_id hdr) \<noteq> k"
  shows "virgin k (process_session_segment env now H r hdr payload w)"
proof -
  let ?k = "(rx_ingress_of hdr, hdr_session_id hdr)"
  have syn: "virgin k v \<Longrightarrow> virgin k (process_syn H ?k v)" for v
    using virgin_ensure [of k v ?k] assms(2) by (auto simp: process_syn_def Let_def intro: virgin_open split: option.split)
  have fin: "virgin k v \<Longrightarrow> virgin k (process_fin H ?k v)" for v
    by (auto simp: process_fin_def Let_def intro: virgin_close split: option.split)
  have data: "virgin k v \<Longrightarrow> virgin k (process_data env now H ?k s p v)" for s p v
    using virgin_ensure [of k v ?k] assms(2)
    by (auto simp: process_data_def Let_def intro!: virgin_deliver split: option.split)
  show ?thesis
    using virgin_neutral [OF neutral_note(1) assms(1)] virgin_neutral [OF neutral_note(2) assms(1)] assms(1) syn fin data
    unfolding process_session_segment_alt Let_def by simp
qed

lemma virgin_receive:
  assumes "virgin k w" and "sendable seg" and seg: "seg = (hdr, p)"
    and "link_control hdr \<or> (hdr_ingress_id hdr, hdr_session_id hdr) \<noteq> k"
  shows "virgin k (receive env now H w (r, seg))"
proof -
  have w1: "virgin k (upd_mgr (upd_chan r noteSegmentRecv) w)" using assms(1) by simp
  show ?thesis
    using assms(2,4) virgin_neutral [OF neutral_hello w1] virgin_neutral [OF neutral_ack w1] w1
      virgin_session_segment [OF w1, of "decoded_header hdr p"]
    unfolding seg by (auto simp: receive_image link_control_def Let_def)
qed

section \<open>A session nobody opened\<close>

definition unopened :: "session_key \<Rightarrow> (nat \<Rightarrow> bytes) \<Rightarrow> nat \<Rightarrow> 'a world \<Rightarrow> bool" where
  "unopened k f N w \<longleftrightarrow> wired w \<and> P w \<and> find_session k w = None \<and> virgin k w \<and>
     N + unat (ds_recv_window (w_ds w)) \<le> 2 ^ 32 \<and> 0 < ds_recv_window (w_ds w) \<and>
     (\<forall>m \<le> N. good (concat (map f [0..<m])))"

lemma unopened_undisturbed:
  assumes "unopened k f N w" and "undisturbed k w w'" "P w'" "virgin k w'"
  shows "unopened k f N w'" and "covered k 0 w \<Longrightarrow> covered k 0 w'"
  using assms by (auto simp: unopened_def undisturbed_def covered_def got_def buffered_def)

lemma ensure_idem [simp]: "ensure_session H k (ensure_session H k w) = ensure_session H k w"
  by (auto simp: ensure_session_def create_session_def split: prod.split)

lemma syn_ensure: "process_syn H k w = process_syn H k (ensure_session H k w)"
  by (simp add: process_syn_def)

lemma data_ensure: "process_data env now H k s p w = process_data env now H k s p (ensure_session H k w)"
  by (simp add: process_data_def)

text \<open>Making the session starts its stream.\<close>

lemma unopened_ensure:
  assumes "unopened k f N w"
  shows "\<exists>h. recv_inv k h f N 0 (ensure_session H k w)" and "ds_dedup_map (w_ds (ensure_session H k w)) = ds_dedup_map (w_ds w)"
    and "ds_recv_window (w_ds (ensure_session H k w)) = ds_recv_window (w_ds w)"
proof -
  have u: "wired w" "P w" "find_session k w = None" "virgin k w"
    using assms by (simp_all add: unopened_def)
  obtain cb h w' where cb: "so_unknown H = Some cb" "cb (fst k) (snd k) w = (Some h, w')" "delivered h (w_trace w) = []"
    using virgin_fresh [OF u(4,2,3)] by blast
  have fr: "w_ds w' = w_ds w" "w_trace w' = w_trace w" using unknown_frame [OF cb(1,2)] by simp_all
  let ?st = "SessionState_init\<lparr>st_session_id := snd k, st_wire_ingress_id := fst k, st_handler := Some h\<rparr>"
  have e: "ensure_session H k w = put_session k ?st w'"
    using u(3) cb by (simp add: ensure_session_def create_session_def)
  have "wired (ensure_session H k w)" "P (ensure_session H k w)"
    using calm_wired [OF calm_ensure u(1)] P_ensure [OF u(2)] by blast+
  then have "recv_inv k h f N 0 (ensure_session H k w)"
    using assms cb(3) by (simp add: recv_inv_def unopened_def e fr) (simp add: SessionState_init_def put_session_def upd_ds_def fr)
  then show "\<exists>h. recv_inv k h f N 0 (ensure_session H k w)" by blast
  show "ds_dedup_map (w_ds (ensure_session H k w)) = ds_dedup_map (w_ds w)"
    "ds_recv_window (w_ds (ensure_session H k w)) = ds_recv_window (w_ds w)"
    by (simp_all add: e put_session_def upd_ds_def fr)
qed

text \<open>The outcome of segments for session \<open>k\<close>: nobody opened it yet, or it receives its stream; \<open>full\<close> says
  that nothing was lost on the way, \<open>came s\<close> that number \<open>s\<close> was among them.\<close>

definition opens :: "session_key \<Rightarrow> (nat \<Rightarrow> bytes) \<Rightarrow> nat \<Rightarrow> bool \<Rightarrow> (u32 \<Rightarrow> bool) \<Rightarrow> 'a world \<Rightarrow> bool" where
  "opens k f N full came w \<longleftrightarrow>
     unopened k f N w \<and> (full \<longrightarrow> covered k 0 w \<and> (\<forall>s. \<not> came s)) \<or>
     (\<exists>h n. recv_inv k h f N n w \<and> (full \<longrightarrow> covered k n w \<and> (\<forall>s. came s \<longrightarrow> got k n w s)))"

lemma opens_unopened: "unopened k f N w \<Longrightarrow> (full \<Longrightarrow> covered k 0 w) \<Longrightarrow> (\<And>s. full \<Longrightarrow> \<not> came s) \<Longrightarrow> opens k f N full came w"
  by (simp add: opens_def)

lemma opens_running: "recv_inv k h f N n w \<Longrightarrow> (full \<Longrightarrow> covered k n w) \<Longrightarrow> (\<And>s. full \<Longrightarrow> came s \<Longrightarrow> got k n w s) \<Longrightarrow>
    opens k f N full came w"
  unfolding opens_def by blast

lemma opening_segment:
  assumes u: "unopened k f N w" and k: "(rx_ingress_of hdr, hdr_session_id hdr) = k" and fin: "\<not> isFin hdr"
    and data: "isSyn hdr \<and> \<not> has_data hdr \<or>
      \<not> isSyn hdr \<and> has_data hdr \<and> unat (hdr_seq_num hdr) < N \<and> payload = f (unat (hdr_seq_num hdr))"
    and full: "full \<Longrightarrow> covered k 0 w \<and> (\<forall>m. m \<le> e_mb_space env now m) \<and> N \<le> unat (ds_recv_window (w_ds w))"
  shows "opens k f N full (\<lambda>s. \<not> isSyn hdr \<and> s = hdr_seq_num hdr) (process_session_segment env now H r hdr payload w)"
proof -
  let ?w' = "process_session_segment env now H r hdr payload w"
  let ?s = "hdr_seq_num hdr"
  let ?dk = "segment_dedup_key hdr (rx_ingress_of hdr)"
  let ?pc = "peer_channel r w"
  let ?w1 = "note_fresh ?dk ?pc w"
  let ?e = "ensure_session H k ?w1"
  have new: "find_session k w = None" and virgin: "virgin k w" and safe: "P w" using u by (simp_all add: unopened_def)
  have n1: "neutral w ?w1" by simp
  have dk: "?dk = DedupKey (fst k) (snd k) ?s (if isSyn hdr then 1 else 0)"
    using k fin by (auto simp: segment_dedup_key_def)
  have vacant: "\<not> got k 0 w x" "\<not> buffered k ?w1 x" for x
    using new neutral_find [OF n1, of k] by (simp_all add: got_def buffered_def)
  have "unopened k f N ?w1"
    using u n1 neutral_wired [OF n1] neutral_find [OF n1, of k] P_quiet [OF quiet_note(1) safe] virgin_neutral [OF n1]
    by (auto simp: unopened_def neutral_def)
  then obtain h where e: "recv_inv k h f N 0 ?e" "ds_dedup_map (w_ds ?e) = ds_dedup_map (w_ds ?w1)"
    using unopened_ensure by blast
  consider (dup) "smap_count (ds_dedup_map (w_ds w)) ?dk"
    | (out) "\<not> smap_count (ds_dedup_map (w_ds w)) ?dk" "has_data hdr" "outside_window k ?s w"
    | (syn) "\<not> smap_count (ds_dedup_map (w_ds w)) ?dk" "isSyn hdr" "\<not> has_data hdr"
    | (acc) "\<not> smap_count (ds_dedup_map (w_ds w)) ?dk" "\<not> isSyn hdr" "has_data hdr" "\<not> outside_window k ?s w"
    using data by blast
  then show ?thesis
  proof cases
    case dup
    then have w': "?w' = note_duplicate ?pc w"
      by (simp add: process_session_segment_alt Let_def)
    have und: "undisturbed k w ?w'" unfolding w' by (intro undisturbed_neutral) simp_all
    have "isSyn hdr" if full using full [OF that] dup dk vacant(1) by (cases "isSyn hdr") (auto simp: covered_def)
    then show ?thesis
      using unopened_undisturbed [OF u und P_session_segment [OF safe]] virgin_neutral [OF neutral_note(2) virgin] full
      by (intro opens_unopened) (auto simp: w')
  next
    case out
    then have w': "?w' = w" using k by (simp add: process_session_segment_alt Let_def)
    have "isSyn hdr" if full
    proof (rule ccontr)
      assume "\<not> isSyn hdr"
      then have "unat ?s < N" using data by blast
      then show False
        using full [OF that] out(3) new by (simp add: outside_window_def word_le_nat_alt unat_ucast_u16)
    qed
    then show ?thesis unfolding w' using u full by (intro opens_unopened) auto
  next
    case syn
    then have w': "?w' = process_syn H k ?e"
      using k fin syn_ensure [of k ?w1] by (simp add: process_session_segment_alt Let_def)
    have "covered k 0 ?w'" if full
    proof -
      have "smap_count (ds_dedup_map (w_ds w)) (DedupKey (fst k) (snd k) x 0) \<longrightarrow> False" for x
        using full [OF that] vacant(1) by (auto simp: covered_def)
      then show ?thesis
        unfolding covered_def w' syn_own(3) [OF e(1)] e(2) using dk syn(2) note_fresh_count [of ?dk ?pc w] by fastforce
    qed
    with syn_own(1) [OF e(1)] syn(2) show ?thesis unfolding w' by (intro opens_running) auto
  next
    case acc
    then have s: "unat ?s < N" "payload = f (unat ?s)" using data by blast+
    have w': "?w' = process_data env now H k ?s (f (unat ?s)) ?e"
      using acc k fin s data_ensure [of env now k ?s _ ?w1] by (simp add: process_session_segment_alt Let_def)
    from data_own [OF e(1) _ s(1), of env now] obtain n' where n': "recv_inv k h f N n' ?w'"
      "\<And>x. x = ?s \<and> length (f (unat ?s)) \<le> e_mb_space env now (length (f (unat ?s))) \<Longrightarrow> unat x < n' \<or> buffered k ?w' x"
      "ds_dedup_map (w_ds ?w') = ds_dedup_map (w_ds ?w1)"
      unfolding w' e(2) by blast
    have here: "got k n' ?w' ?s" if full using n'(2) full [OF that] by (simp add: got_def)
    moreover have "covered k n' ?w'" if full
      unfolding covered_def n'(3)
    proof (intro allI impI)
      fix x assume "smap_count (ds_dedup_map (w_ds ?w1)) (DedupKey (fst k) (snd k) x 0)"
      then have "x = ?s \<or> smap_count (ds_dedup_map (w_ds w)) (DedupKey (fst k) (snd k) x 0)"
        using note_fresh_count [of ?dk ?pc w] dk by fastforce
      then show "got k n' ?w' x"
        using here [OF that] full [OF that] vacant(1) by (auto simp: covered_def)
    qed
    ultimately show ?thesis using n'(1) by (intro opens_running) auto
  qed
qed

section \<open>Arrivals\<close>

lemma receive_opens:
  assumes st: "opens k f N full came w" and c: "carries k f N seg"
    and full: "full \<Longrightarrow> (\<forall>m. m \<le> e_mb_space env now m) \<and> N \<le> unat (ds_recv_window (w_ds w))"
  shows "opens k f N full (\<lambda>s. came s \<or> brings k s seg) (receive env now H w (r, seg))"
  using st unfolding opens_def [of _ _ _ _ came]
proof (elim disjE exE conjE)
  fix h n assume inv: "recv_inv k h f N n w" and got: "full \<longrightarrow> covered k n w \<and> (\<forall>s. came s \<longrightarrow> got k n w s)"
  from receive_step [OF inv c, of env now r] obtain n' where
    n': "advances k h f N n w n' (receive env now H w (r, seg))"
      "covered k n w \<longrightarrow> (\<forall>m. m \<le> e_mb_space env now m) \<longrightarrow> covered k n' (receive env now H w (r, seg)) \<and>
       (\<forall>s. brings k s seg \<longrightarrow> N \<le> n + unat (ds_recv_window (w_ds w)) \<longrightarrow> got k n' (receive env now H w (r, seg)) s)"
    by blast
  have "N \<le> n + unat (ds_recv_window (w_ds w))" if full using full [OF that] by simp
  then show ?thesis
    using n' got full by (intro opens_running [of k h f N n']) (auto simp: advances_def)
next
  assume u: "unopened k f N w" and got: "full \<longrightarrow> covered k 0 w \<and> (\<forall>s. \<not> came s)"
  obtain hdr p where seg: "seg = (hdr, p)" by fastforce
  have snd: "sendable seg" using c by (simp add: carries_def seg)
  have safe: "P w" and wired: "wired w" and virgin: "virgin k w" using u by (simp_all add: unopened_def)
  show ?thesis
  proof (cases "link_control hdr \<or> (hdr_ingress_id hdr, hdr_session_id hdr) \<noteq> k")
    case True
    have "P (receive env now H w (r, seg))"
      unfolding receive_def step_segment_def by (auto intro: P_segment [OF safe])
    moreover have "\<not> brings k s seg" for s using True by (auto simp: brings_def seg)
    ultimately show ?thesis
      using got unopened_undisturbed [OF u receive_other [OF wired snd seg True] _ virgin_receive [OF virgin snd seg True]]
      by (intro opens_unopened) auto
  next
    case False
    let ?w1 = "upd_mgr (upd_chan r noteSegmentRecv) w"
    have rec: "receive env now H w (r, seg) = process_session_segment env now H r (decoded_header hdr p) p ?w1"
      using False snd by (simp add: seg receive_image link_control_def Let_def)
    have len: "length p \<le> MAX_PAYLOAD" using snd by (simp add: seg sendable_def)
    have "P ?w1" by (rule P_quiet [OF quiet_segment_recv safe])
    then have u1: "unopened k f N ?w1" and cov: "covered k 0 w \<Longrightarrow> covered k 0 ?w1"
      using unopened_undisturbed [OF u undisturbed_note] virgin by simp_all
    have d: "isSyn hdr \<and> \<not> (isData hdr \<and> p \<noteq> []) \<or>
        \<not> isSyn hdr \<and> (isData hdr \<and> p \<noteq> []) \<and> unat (hdr_seq_num hdr) < N \<and> p = f (unat (hdr_seq_num hdr))"
      and fin: "\<not> isFin hdr"
      using c False by (auto simp: carries_def seg brings_def)
    from opening_segment [OF u1, of "decoded_header hdr p" p full env now r] False d fin full got cov
    have "opens k f N full (\<lambda>s. \<not> isSyn hdr \<and> s = hdr_seq_num hdr) (receive env now H w (r, seg))"
      unfolding rec by (simp add: decoded_has_data [OF len])
    moreover have "came s \<or> brings k s seg \<Longrightarrow> full \<Longrightarrow> \<not> isSyn hdr \<and> s = hdr_seq_num hdr" for s
      using got by (auto simp: brings_def seg)
    ultimately show ?thesis unfolding opens_def by blast
  qed
qed

lemma opens_wired: "opens k f N full came w \<Longrightarrow> wired w"
  by (auto simp: opens_def recv_inv_def unopened_def)

lemma receives_opens:
  assumes "opens k f N full came w" and "\<forall>ev \<in> set evs. carries k f N (snd ev)"
    and "full \<Longrightarrow> (\<forall>m. m \<le> e_mb_space env now m) \<and> N \<le> unat (ds_recv_window (w_ds w))"
  shows "opens k f N full (\<lambda>s. came s \<or> (\<exists>ev \<in> set evs. brings k s (snd ev))) (foldl (receive env now H) w evs)"
  using assms
proof (induction evs arbitrary: w came)
  case (Cons ev evs)
  obtain r seg where ev: "ev = (r, seg)" by fastforce
  let ?w1 = "receive env now H w (r, seg)"
  have win: "ds_recv_window (w_ds ?w1) = ds_recv_window (w_ds w)"
    using process_segment_wired(2) [OF opens_wired [OF Cons.prems(1)]] by (simp add: receive_def step_segment_def)
  have "opens k f N full (\<lambda>s. came s \<or> brings k s seg) ?w1"
    using receive_opens [OF Cons.prems(1) _ Cons.prems(3)] Cons.prems(2) ev by auto
  from Cons.IH [OF this] Cons.prems(2,3) win
  have "opens k f N full (\<lambda>s. (came s \<or> brings k s seg) \<or> (\<exists>ev \<in> set evs. brings k s (snd ev))) (foldl (receive env now H) ?w1 evs)"
    by auto
  then show ?case by (simp add: ev disj_assoc)
qed simp

text \<open>A stream whose segments all arrive has been delivered.\<close>

lemma opens_whole:
  assumes "opens k f N True came w" and "\<And>i. i < N \<Longrightarrow> came (of_nat i)" and "0 < N"
  shows "\<exists>h. recv_inv k h f N N w"
proof -
  obtain h n where h: "recv_inv k h f N n w" "\<And>s. came s \<Longrightarrow> got k n w s"
    using assms by (auto simp: opens_def)
  have "n = N" by (rule received_whole [OF h(1)]) (simp add: h(2) assms(2))
  with h(1) show ?thesis by blast
qed

lemma unopened_opens: "unopened k f N w \<Longrightarrow> (full \<Longrightarrow> covered k 0 w) \<Longrightarrow> opens k f N full (\<lambda>_. False) w"
  by (simp add: opens_def)

end

end
