(* ===== verification/Fgw_Relay_Stream.thy ===== *)
theory Fgw_Relay_Stream
  imports Fgw_OutportRuns Fgw_Opening
begin

text \<open>
  The stream of one session at an Outport. Its relays honour the contract of session handlers on keys
  whose ingress id is not \<^verbatim>\<open>kFgwWireIngressUseLocal\<close>: a relay sends and closes by its peer's ingress
  id, which that value would turn into the Outport's own. \<open>genuine_ops\<close> are the Outport's handlers
  with no relay made for such keys, or from a table that does not know its relays; in every state an
  Outport can be in, they are the Outport's own on the segments of all other keys.
\<close>

declare split_paired_All [simp del] split_paired_Ex [simp del]

section \<open>A relay keeps its session\<close>

text \<open>Connections to targets are started without an error.\<close>

definition connects :: "fgw_env \<Rightarrow> bool" where
  "connects env \<longleftrightarrow> (\<forall>now ep. 0 \<le> e_start_connect env now ep)"

text \<open>Bytes that do not make a relay close: no refusal in the SOCKS5 view of them.\<close>

definition acceptable :: "bytes \<Rightarrow> bool" where
  "acceptable d \<longleftrightarrow> fst (socks_view d) \<noteq> ST_CLOSED"

lemma request_state:
  assumes "rs_state (relay h w) = ST_AWAIT_REQUEST" and "connects env"
  shows "rs_state (relay h (snd (tryParseRequest env now h w))) = fst (after_greeting (rs_rx_buffer (relay h w)))"
proof -
  have "\<not> e_start_connect env now ep < 0" for ep using assms(2) by (simp add: connects_def not_less)
  then show ?thesis
    using assms(1) by (simp add: tryParseRequest_def after_greeting_def relay_close rs_startConnect_def Let_def split: request.split)
qed

lemma feed_stays_open:
  assumes ok: "relay_ok (relay h w) d" and good: "acceptable (d @ b)" and conn: "connects env"
    and st: "rs_state (relay h w) \<noteq> ST_CLOSED"
  shows "rs_state (relay h (feedRx env now h b w)) \<noteq> ST_CLOSED"
proof (cases "rs_state (relay h w)")
  case ST_AWAIT_METHODS
  let ?w1 = "more_rx h b w" and ?x = "rs_rx_buffer (relay h w) @ b"
  have "socks_view d = (ST_AWAIT_METHODS, rs_target_addr (relay h w), rs_rx_buffer (relay h w))"
    using ok ST_AWAIT_METHODS by (simp add: relay_ok_def)
  then have d: "d @ b = ?x" using view_methods by auto
  consider "length ?x < 2" | "2 \<le> length ?x" "?x ! 0 \<noteq> SOCKS5_VER"
    | "2 \<le> length ?x" "?x ! 0 = SOCKS5_VER" "length ?x < 2 + unat (?x ! 1)"
    | "2 \<le> length ?x" "?x ! 0 = SOCKS5_VER" "2 + unat (?x ! 1) \<le> length ?x" by linarith
  then show ?thesis
  proof cases
    case 2
    then show ?thesis using good unfolding acceptable_def d by (simp add: socks_view_def)
  next
    case 4
    have "0 < 2 + uint (?x ! 1)" using uint_ge_0 [of "?x ! 1"] by linarith
    then have "feedRx env now h b w = snd (tryParseRequest env now h (snd (tryParseMethods env now h ?w1)))"
      using 4 ST_AWAIT_METHODS by (simp add: feedRx_more feed_methods tryParseMethods_def Let_def not_less)
    then show ?thesis
      using request_state [of h "snd (tryParseMethods env now h ?w1)" env now] conn good 4 unfolding acceptable_def d
      by (simp add: tryParseMethods_def Let_def socks_view_def not_less add_rx_def)
  qed (use ST_AWAIT_METHODS in \<open>simp_all add: feedRx_more feed_methods tryParseMethods_def add_rx_def Let_def\<close>)
next
  case ST_AWAIT_REQUEST
  then have "socks_view d = (ST_AWAIT_REQUEST, rs_target_addr (relay h w), rs_rx_buffer (relay h w))"
    using ok by (simp add: relay_ok_def)
  then show ?thesis
    using request_state [of h "more_rx h b w" env now] conn ST_AWAIT_REQUEST view_request_append(1) [of d _ _ b] good
    by (simp add: feedRx_more feed_request acceptable_def)
next
  case ST_RELAYING
  then show ?thesis by (simp add: feedRx_more rs_flush_def Let_def add_rx_def)
qed (use st in \<open>simp_all add: feedRx_more add_rx_def\<close>)

section \<open>The contract\<close>

definition agreeable :: "fgw_env \<Rightarrow> bytes \<Rightarrow> bool" where
  "agreeable env d \<longleftrightarrow> connects env \<and> acceptable d"

definition in_order :: "session_key \<Rightarrow> outport world \<Rightarrow> bool" where
  "in_order k w \<longleftrightarrow> genuine k \<and> (case smap_find (op_sessions (w_app w)) k of None \<Rightarrow> True
     | Some h \<Rightarrow> h < op_next_ref (w_app w) \<and> relay_key h w = k)"

definition genuine_ops :: "fgw_env \<Rightarrow> u32 \<Rightarrow> u32 \<Rightarrow> outport session_ops" where
  "genuine_ops env now ts = (outport_ops env now ts)\<lparr>so_unknown := Some (\<lambda>i s w.
     if in_order (i, s) w then outport_unknown ts i s w else (None, w))\<rparr>"

definition outport_owns :: "outport world \<Rightarrow> handler_ref \<Rightarrow> session_key \<Rightarrow> bool" where
  "outport_owns w h k \<longleftrightarrow> h < op_next_ref (w_app w) \<and> relay_key h w = k \<and> genuine k"

definition outport_safe :: "fgw_env \<Rightarrow> outport world \<Rightarrow> bool" where
  "outport_safe env w \<longleftrightarrow> roomy env \<and> outport_gate env w"

definition outport_virgin :: "session_key \<Rightarrow> outport world \<Rightarrow> bool" where
  "outport_virgin k w \<longleftrightarrow> genuine k \<and> smap_find (op_sessions (w_app w)) k = None"

lemma genuine_ops_fields [simp]:
  "so_data (genuine_ops env now ts) h sid b w = feedRx env now h b w"
  "so_open (genuine_ops env now ts) h sid w = w"
  "so_close (genuine_ops env now ts) h sid w = rs_close env now h w"
  by (simp_all add: genuine_ops_def outport_ops_def)

lemma genuine_unknown: "so_unknown (genuine_ops env now ts) = Some cb \<Longrightarrow>
    cb i s w = (if in_order (i, s) w then outport_unknown ts i s w else (None, w))"
  by (auto simp: genuine_ops_def)

lemma outport_unknown_cases:
  "outport_unknown ts i s w = (case smap_find (op_sessions (w_app w)) (i, s) of Some h \<Rightarrow> (Some h, w)
     | None \<Rightarrow> (Some (op_next_ref (w_app w)), w\<lparr>w_app := (w_app w)\<lparr>
         op_heap := (op_heap (w_app w))(op_next_ref (w_app w) := new_FgwRelaySession i s ts),
         op_next_ref := Suc (op_next_ref (w_app w)),
         op_sessions := smap_set (i, s) (op_next_ref (w_app w)) (op_sessions (w_app w))\<rparr>\<rparr>))"
  by (simp add: outport_unknown_def outport_ensureSession_def Let_def split: option.split)

lemma unknown_ownership:
  assumes "outport_unknown ts i s w = (ho, w')" and "in_order (i, s) w"
  shows "(\<forall>h. ho = Some h \<longrightarrow> outport_owns w' h (i, s)) \<and> (\<forall>h k. outport_owns w h k \<longrightarrow> outport_owns w' h k)"
proof (cases "smap_find (op_sessions (w_app w)) (i, s)")
  case None
  then have ho: "ho = Some (op_next_ref (w_app w))" and w': "w' = w\<lparr>w_app := (w_app w)\<lparr>
         op_heap := (op_heap (w_app w))(op_next_ref (w_app w) := new_FgwRelaySession i s ts),
         op_next_ref := Suc (op_next_ref (w_app w)),
         op_sessions := smap_set (i, s) (op_next_ref (w_app w)) (op_sessions (w_app w))\<rparr>\<rparr>"
    using assms(1) by (simp_all add: outport_unknown_cases)
  have "genuine (i, s)" using assms(2) by (simp add: in_order_def)
  then show ?thesis
    by (auto simp: ho w' outport_owns_def relay_key_def relay_def new_FgwRelaySession_def)
next
  case (Some h)
  then show ?thesis using assms by (auto simp: outport_unknown_cases in_order_def outport_owns_def)
qed

lemma owns_frame: "relay_frame h w w' \<Longrightarrow> outport_owns w' h' k \<longleftrightarrow> outport_owns w h' k"
  using relay_frame_key [of h w w' h'] by (simp add: outport_owns_def relay_frame_def)

lemma relay_own_frame: "relay_frame h w w' \<Longrightarrow> outport_owns w h k \<Longrightarrow> handler_frame k w w'"
  by (auto simp: relay_frame_def outport_owns_def)

lemma outport_owns_app: "w_app w = w_app w' \<Longrightarrow> outport_owns w h k \<Longrightarrow> outport_owns w' h k"
  by (simp add: outport_owns_def relay_key_def relay_def)

lemma safe_unknown:
  assumes "outport_safe env w" and "outport_unknown ts (fst k) (snd k) w = (ho, w')"
  shows "outport_safe env (put_session k (SessionState_init\<lparr>st_session_id := snd k, st_wire_ingress_id := fst k,
    st_handler := ho\<rparr>) w')"
  using gate_unknown [of env w ts "fst k" "snd k" ho w'] assms by (auto simp: outport_safe_def intro!: gate_put)

lemma safe_none: "outport_safe env w \<Longrightarrow> outport_safe env (put_session k (SessionState_init\<lparr>st_session_id := snd k,
    st_wire_ingress_id := fst k, st_handler := None\<rparr>) w)"
  by (auto simp: outport_safe_def intro!: gate_put)

lemma virgin_frame:
  assumes "relay_frame h w w'" and "outport_virgin k w"
  shows "outport_virgin k w'"
  using assms frame_find [OF assms(1), of k] by (simp add: outport_virgin_def)

lemma safe_core: "outport_safe env w \<Longrightarrow> outport_core w" "outport_safe env w \<Longrightarrow> filed w"
  by (simp_all add: outport_safe_def outport_gate_def outport_inv_def)

lemma relay_keeps:
  assumes "outport_owns w h k" and "outport_safe env w" and "find_session k w = Some st"
    and "connects env" and "acceptable (delivered h (w_trace w) @ b)"
  shows "find_session k (feedRx env now h b (w\<lparr>w_trace := w_trace w @ [EvData h (snd k) b]\<rparr>)) \<noteq> None"
proof -
  let ?w = "w\<lparr>w_trace := w_trace w @ [EvData h (snd k) b]\<rparr>"
  have same: "relay h ?w = relay h w" by (simp add: relay_def)
  have "relay_ok (relay h w) (delivered h (w_trace w))"
    using safe_core(1) [OF assms(2)] by (simp add: outport_core_def)
  then have "rs_state (relay h ?w) = ST_CLOSED \<or> rs_state (relay h (feedRx env now h b ?w)) \<noteq> ST_CLOSED"
    using feed_stays_open [of h ?w] assms(4,5) unfolding same by blast
  then have "sessions_stay ?w (feedRx env now h b ?w)"
    using relay_frame_feed [of h ?w env now b] by (simp add: relay_frame_def)
  then show ?thesis using assms(3) by (auto simp: sessions_stay_def)
qed

interpretation tunnel: session_handler "genuine_ops env now ts" outport_owns for env now ts
proof (unfold_locales, goal_cases)
  case (1 w h k k')
  then show ?case by (simp add: outport_owns_def)
next
  case (2 w w' h k)
  then show ?case using outport_owns_app by blast
next
  case (8 w h k)
  then show ?case using relay_own_frame [OF relay_frame_close] by simp
next
  case (10 cb i s w ho w')
  then show ?case
    by (auto simp: genuine_unknown [OF 10(1)] outport_unknown_cases split: if_splits option.splits)
next
  case (11 cb i s w ho w')
  show ?case
  proof (cases "in_order (i, s) w")
    case True
    then show ?thesis using 11 unknown_ownership [of ts i s w ho w'] by (simp add: genuine_unknown)
  next
    case False
    then show ?thesis using 11 by (simp add: genuine_unknown)
  qed
qed (simp_all add: relay_own_frame [OF relay_frame_feed] owns_frame [OF relay_frame_feed] owns_frame [OF relay_frame_close])

interpretation tunnel: handler_safety "genuine_ops env now ts" "outport_safe env"
    "\<lambda>w h sid. roomy env \<longrightarrow> h < op_next_ref (w_app w)" for env now ts
proof (unfold_locales, goal_cases)
  case (1 w w')
  then show ?case using gate_quiet by (simp add: outport_safe_def)
next
  case (2 w k st0 st)
  then show ?case using outport.P_put by (simp add: outport_safe_def)
next
  case (4 w k)
  then show ?case by (simp add: genuine_ops_def)
next
  case (5 w k cb ho w')
  show ?case
  proof (cases "in_order k w")
    case True
    then show ?thesis using 5 safe_unknown [of env w ts k ho w'] by (simp add: genuine_unknown)
  next
    case False
    then show ?thesis using 5 safe_none by (simp add: genuine_unknown)
  qed
next
  case (6 w k)
  then show ?case using gate_erase by (simp add: outport_safe_def)
next
  case (7 w k st h)
  then show ?case using outport.P_valid [of env w k st h] by (simp add: outport_safe_def)
next
  case (8 w h sid b)
  then show ?case using outport.P_data [of env w h b now ts sid] by (simp add: outport_safe_def) (simp add: outport_ops_def)
next
  case (9 w h sid)
  then show ?case using gate_event [of env w "[EvOpen h sid]"] by (simp add: outport_safe_def)
next
  case (10 w h sid)
  then show ?case using gate_close [of env w h "[EvClose h sid]" now] by (simp add: outport_safe_def)
qed simp

interpretation tunnel: opening_handler "genuine_ops env now ts" outport_owns "outport_safe env"
    "\<lambda>w h sid. roomy env \<longrightarrow> h < op_next_ref (w_app w)" "agreeable env" outport_virgin
  for env now ts
proof (unfold_locales, goal_cases)
  case (1 w h k st b)
  then show ?case using relay_keeps by (simp add: agreeable_def)
next
  case (2 w' w k)
  then show ?case by (simp add: outport_virgin_def)
next
  case (3 k w h sid b)
  then show ?case using virgin_frame [OF relay_frame_feed] by simp
next
  case (4 k w h sid)
  then show ?case by simp
next
  case (5 k w h sid)
  then show ?case using virgin_frame [OF relay_frame_close] by simp
next
  case (6 k w cb i s ho w')
  then show ?case
    by (auto simp: genuine_unknown [OF 6(2)] outport_unknown_cases outport_virgin_def smap_find_set
        split: if_splits option.splits)
next
  case (7 k w)
  then have "in_order k w" "smap_find (op_sessions (w_app w)) k = None" by (simp_all add: outport_virgin_def in_order_def)
  moreover have "delivered (op_next_ref (w_app w)) (w_trace w) = []"
    using safe_core(1) [OF 7(2)] by (simp add: outport_core_def)
  ultimately show ?case by (simp add: genuine_ops_def outport_unknown_cases)
qed

section \<open>The Outport's own handlers\<close>

lemma safe_in_order: "outport_safe env w \<Longrightarrow> genuine k \<Longrightarrow> in_order k w"
  using safe_core(1) [of env w] unfolding in_order_def outport_core_def by (simp split: option.split)

lemma ensure_agrees:
  assumes "outport_safe env w" and "genuine k"
  shows "ensure_session (outport_ops env now ts) k w = ensure_session (genuine_ops env now ts) k w"
  using safe_in_order [OF assms]
  by (simp add: ensure_session_def create_session_def genuine_ops_def) (simp add: outport_ops_def)

lemma calls_agree:
  "so_open (outport_ops env now ts) = so_open (genuine_ops env now ts)"
  "so_close (outport_ops env now ts) = so_close (genuine_ops env now ts)"
  "call_data (outport_ops env now ts) = call_data (genuine_ops env now ts)"
  by (intro ext; simp add: genuine_ops_def call_data_def)+

lemma deliver_agrees: "deliverInOrder (outport_ops env now ts) = deliverInOrder (genuine_ops env now ts)"
  by (intro ext) (simp add: deliverInOrder_def calls_agree split: option.split prod.split)

lemma segment_agrees:
  assumes "outport_safe env w" and "genuine (rx_ingress_of hdr, hdr_session_id hdr)"
  shows "process_session_segment env now (outport_ops env now ts) r hdr p w =
    process_session_segment env now (genuine_ops env now ts) r hdr p w"
proof -
  let ?k = "(rx_ingress_of hdr, hdr_session_id hdr)"
  have syn: "process_syn (outport_ops env now ts) ?k v = process_syn (genuine_ops env now ts) ?k v" if "outport_safe env v" for v
    using ensure_agrees [OF that assms(2)] by (simp add: process_syn_def calls_agree Let_def split: option.split)
  have data: "process_data env now (outport_ops env now ts) ?k s p v = process_data env now (genuine_ops env now ts) ?k s p v"
    if "outport_safe env v" for s v
    using ensure_agrees [OF that assms(2)] by (simp add: process_data_def deliver_agrees)
  have fin: "process_fin (outport_ops env now ts) ?k v = process_fin (genuine_ops env now ts) ?k v" for v
    by (cases "session_handler_of ?k v") (simp_all add: process_fin_def calls_agree)
  have w1: "outport_safe env (note_fresh dk pc w)" for dk pc
    by (rule tunnel.P_quiet [OF quiet_note(1) assms(1)])
  show ?thesis
    using syn [OF w1] data [OF w1] data [OF tunnel.P_syn [OF w1]] fin
    by (simp add: process_session_segment_alt Let_def)
qed

text \<open>Segments a peer with an ingress id of its own sends.\<close>

definition genuine_segment :: "FgwSegmentHeader \<times> bytes \<Rightarrow> bool" where
  "genuine_segment seg \<longleftrightarrow> sendable seg \<and> (link_control (fst seg) \<or> hdr_ingress_id (fst seg) \<noteq> kFgwWireIngressUseLocal)"

lemma receive_agrees:
  assumes "outport_safe env w" and "genuine_segment (snd ev)"
  shows "receive env now (outport_ops env now ts) w ev = receive env now (genuine_ops env now ts) w ev"
proof -
  obtain r hdr p where ev: "ev = (r, hdr, p)" by (metis surj_pair)
  let ?w1 = "upd_mgr (upd_chan r noteSegmentRecv) w"
  have w1: "outport_safe env ?w1"
    by (rule tunnel.P_quiet [OF quiet_segment_recv assms(1)])
  have "sendable (hdr, p)" using assms(2) by (simp add: ev genuine_segment_def)
  moreover have "link_control hdr \<or> genuine (rx_ingress_of (decoded_header hdr p), hdr_session_id (decoded_header hdr p))"
    using assms(2) by (simp add: ev genuine_segment_def genuine_def)
  ultimately show ?thesis
    using segment_agrees [OF w1, of "decoded_header hdr p" now ts r p]
    unfolding ev by (auto simp: receive_image link_control_def Let_def)
qed

lemma receives_agree:
  assumes "outport_safe env w" and "\<forall>ev \<in> set evs. genuine_segment (snd ev)"
  shows "foldl (receive env now (outport_ops env now ts)) w evs = foldl (receive env now (genuine_ops env now ts)) w evs"
  using assms
proof (induction evs arbitrary: w)
  case (Cons ev evs)
  have "outport_safe env (receive env now (genuine_ops env now ts) w ev)"
    unfolding receive_def step_segment_def by (auto intro: tunnel.P_segment [OF Cons.prems(1)] split: prod.split)
  with Cons show ?case by (simp add: receive_agrees)
qed simp

section \<open>From the wire to the relay\<close>

text \<open>An Outport that has seen nothing of session \<open>k\<close>, and no peer with the reserved ingress id.\<close>

definition never_seen :: "session_key \<Rightarrow> outport world \<Rightarrow> bool" where
  "never_seen k w \<longleftrightarrow> find_session k w = None \<and> smap_find (op_sessions (w_app w)) k = None \<and>
     (\<forall>s. \<not> smap_count (ds_dedup_map (w_ds w)) (DedupKey (fst k) (snd k) s 0)) \<and>
     (\<forall>k'. find_session k' w \<noteq> None \<longrightarrow> genuine k')"

lemma never_seen_unopened:
  assumes "outport_safe env w" and "never_seen k w" and "genuine k" and "connects env" and "0 < ds_recv_window (w_ds w)"
    and "N + unat (ds_recv_window (w_ds w)) \<le> 2 ^ 32" and "\<forall>m \<le> N. acceptable (concat (map f [0..<m]))"
  shows "tunnel.unopened env k f N w" and "tunnel.covered k 0 w"
proof -
  have "wired_to outport_owns w"
    unfolding wired_to_def
  proof (intro allI impI)
    fix k' st assume f: "find_session k' w = Some st"
    then have "st_session_id st = snd k' \<and> (\<forall>h. st_handler st = Some h \<longrightarrow> serves w h k')"
      using safe_core(1) [OF assms(1)] unfolding outport_core_def by blast
    moreover have "genuine k'" using assms(2) f by (simp add: never_seen_def)
    ultimately show "st_session_id st = snd k' \<and> (\<forall>h. st_handler st = Some h \<longrightarrow> outport_owns w h k')"
      by (simp add: outport_owns_def serves_def)
  qed
  then show "tunnel.unopened env k f N w" "tunnel.covered k 0 w"
    using assms by (simp_all add: agreeable_def tunnel.unopened_def tunnel.covered_def never_seen_def outport_virgin_def)
qed

end
