(* ===== verification/Fgw_Setup.thy ===== *)
theory Fgw_Setup
  imports Fgw_OutportRuns
begin

text \<open>
  The sizes a stream is made with. The constructor of \<^verbatim>\<open>DataStream\<close> replaces sizes of zero and sizes
  too large for a segment; no operation of a gateway changes them, so they are sound in every
  reachable state of an Inport and of an Outport. With them the loop of \<^verbatim>\<open>sendSessionData\<close> ends, which is
  modelled here as the code has it: as a partial function, whose value is \<open>None\<close> when it does not return.
\<close>

declare split_paired_All [simp del] split_paired_Ex [simp del]

section \<open>Sound sizes\<close>

definition sized :: "'a world \<Rightarrow> bool" where
  "sized w \<longleftrightarrow> 0 < ds_segment_size (w_ds w) \<and> unat (ds_segment_size (w_ds w)) \<le> MAX_PAYLOAD \<and>
     0 < ds_recv_window (w_ds w)"

lemma sized_rest: "ds_rest (w_ds w') = ds_rest (w_ds w) \<Longrightarrow> sized w' = sized w"
  using ds_rest_fields(2,6) [of "w_ds w'" "w_ds w"] by (simp add: sized_def)

lemma sized_neutral: "neutral w w' \<Longrightarrow> sized w' = sized w"
  by (simp add: neutral_def ds_setup_def sized_def)

lemma sized_frame: "handler_frame k w w' \<Longrightarrow> sized w' = sized w"
  by (rule sized_rest) (simp add: handler_frame_def)

lemma sized_put [simp]: "sized (put_session k st w) = sized w" "sized (erase_session k w) = sized w"
  by (rule sized_rest, simp)+

lemma sized_same [simp]:
  "sized (upd_mgr f w) = sized w" "sized (w\<lparr>w_trace := tr\<rparr>) = sized w" "sized (upd_app g w) = sized w"
  "sized (w\<lparr>w_app := a\<rparr>) = sized w"
  by (simp_all add: sized_def)

lemma sized_stream [simp]:
  "sized (snd (sendSessionData env now sid buf key w)) = sized w" "sized (closeSession env now sid key w) = sized w"
  by (rule sized_frame, rule sendSessionData_frame closeSession_frame)+

lemma sized_upd [simp]: "sized (upd_fs h f v) = sized v" "sized (upd_rs h g w) = sized w"
  by (simp_all add: upd_fs_def upd_rs_def)

lemma sized_new: "ds = fst (new_DataStream self i seg win crc route m) \<Longrightarrow> w_ds w = ds \<Longrightarrow> sized w"
proof -
  have "0 < x" if "x \<noteq> 0" for x :: u16 using that by (simp add: word_gt_0)
  then show "ds = fst (new_DataStream self i seg win crc route m) \<Longrightarrow> w_ds w = ds \<Longrightarrow> sized w"
    by (simp add: sized_def new_DataStream_def MAX_PAYLOAD_def)
qed

section \<open>Inport\<close>

lemma sized_inport [simp]:
  "sized (fs_onSessionData env now h sid buf w) = sized w" "sized (fs_close env now h w) = sized w"
  "sized (client_on_read env now h buf w) = sized w" "sized (client_on_close env now h w) = sized w"
  "sized (snd (openSession env now sid ho w)) = sized w" "sized (snd (inport_accept env now ts addr w)) = sized w"
proof -
  have close: "sized (fs_close env now h w) = sized w" by (simp add: fs_close_def Let_def)
  have openS: "sized (snd (openSession env now sid ho w)) = sized w" for sid ho w by (simp add: openSession_def Let_def)
  show "sized (fs_close env now h w) = sized w" "sized (snd (openSession env now sid ho w)) = sized w"
    by (rule close openS)+
  show "sized (fs_onSessionData env now h sid buf w) = sized w" by (simp add: fs_onSessionData_def Let_def)
  show "sized (client_on_read env now h buf w) = sized w" by (simp add: client_on_read_def fs_onClientBytes_def Let_def)
  show "sized (client_on_close env now h w) = sized w" by (simp add: client_on_close_def close)
  show "sized (snd (inport_accept env now ts addr w)) = sized w"
    by (simp add: inport_accept_def openS Let_def split: prod.split)
qed

lemma sized_inport_stop [simp]: "sized (inport_stop env now w) = sized w"
proof -
  have "sized (foldl (\<lambda>w kv. fs_close env now (snd kv) w) v xs) = sized v" for v and xs :: "(u32 \<times> handler_ref) list"
    by (induction xs arbitrary: v) simp_all
  then show ?thesis by (simp add: inport_stop_def Let_def)
qed

interpretation inport_sizes: handler_safety "inport_ops env now" sized "\<lambda>_ _ _. True" for env now
  by unfold_locales
    (auto simp: inport_ops_def fs_onSessionClose_def quiet_def dest: sized_neutral)

lemma inport_sized: "inport_reachable env hst \<Longrightarrow> sized (host_world hst)"
proof (induction rule: inport_reachable.induct)
  case (boot m i seg win crc route)
  show ?case
    by (rule sized_new [of _ 0 i seg win crc route m]) (auto simp: inport_boot_def split: prod.split)
next
  case (step hst hst')
  from step(2,3) show ?case
    by (induction rule: inport_step.induct) (simp_all add: inport_sizes.I_read inport_sizes.I_tick)
qed

section \<open>Outport\<close>

lemma sized_relay [simp]:
  "sized (rs_sendToPeer env now h buf w) = sized w" "sized (rs_writeReply env now h rep w) = sized w"
  "sized (rs_close env now h w) = sized w" "sized (rs_startConnect env now h host port w) = sized w"
  "sized (rs_flush env now counted h w) = sized w"
  by (simp_all add: rs_sendToPeer_def rs_writeReply_def rs_close_def rs_startConnect_def rs_flush_def Let_def)

lemma sized_parse [simp]:
  "sized (snd (tryParseMethods env now h w)) = sized w" "sized (snd (tryParseRequest env now h w)) = sized w"
  by (simp_all add: tryParseMethods_def tryParseRequest_def Let_def split: request.split)

lemma sized_feed [simp]: "sized (feedRx env now h b w) = sized w"
proof -
  have more: "sized (more_rx h b w) = sized w" by (simp add: more_rx_def)
  show ?thesis
  proof (cases "rs_state (relay h w)")
    case ST_AWAIT_METHODS
    obtain ret w' where p: "tryParseMethods env now h (more_rx h b w) = (ret, w')" by fastforce
    then have "sized w' = sized w" using sized_parse(1) [of env now h "more_rx h b w"] more by simp
    then show ?thesis using ST_AWAIT_METHODS p by (simp add: feedRx_more feed_methods add_rx_def)
  qed (simp_all add: feedRx_more feed_request add_rx_def more)
qed

lemma sized_remote [simp]:
  "sized (remote_on_open env now h w) = sized w" "sized (remote_on_read env now h buf w) = sized w"
  "sized (remote_on_close env now h w) = sized w"
  by (simp_all add: remote_on_open_def remote_on_read_def remote_on_close_def rs_onRemoteOpen_def rs_onRemoteBytes_def Let_def)

lemma sized_outport_stop [simp]: "sized (outport_stop env now w) = sized w"
proof -
  have "sized (foldl (\<lambda>w kv. rs_close env now (snd kv) w) v xs) = sized v" for v and xs :: "(session_key \<times> handler_ref) list"
    by (induction xs arbitrary: v) simp_all
  then show ?thesis by (simp add: outport_stop_def Let_def)
qed

interpretation outport_sizes: handler_safety "outport_ops env now ts" sized "\<lambda>_ _ _. True" for env now ts
  by unfold_locales
    (auto simp: outport_ops_def outport_unknown_def outport_ensureSession_def quiet_def Let_def dest: sized_neutral split: option.splits)

lemma outport_sized: "outport_reachable env hst \<Longrightarrow> sized (host_world hst)"
proof (induction rule: outport_reachable.induct)
  case (boot m i seg win crc route)
  show ?case
    by (rule sized_new [of _ 0 i seg win crc route m]) (auto simp: outport_boot_def split: prod.split)
next
  case (step hst hst')
  from step(2,3) show ?case
    by (induction rule: outport_step.induct) (simp_all add: outport_sizes.I_read outport_sizes.I_tick)
qed

section \<open>The send loop\<close>

text \<open>The loop of \<^verbatim>\<open>sendSessionData\<close> with no other way out than the end of the buffer and a failed send.\<close>

partial_function (option) send_loop_code ::
  "fgw_env \<Rightarrow> u32 \<Rightarrow> datastream \<Rightarrow> u32 \<Rightarrow> u32 \<Rightarrow> bytes \<Rightarrow> nat \<Rightarrow> u32 \<Rightarrow> manager \<Rightarrow> (int \<times> u32 \<times> manager) option" where
  "send_loop_code env now ds wire_ingress session_id rest written seq m =
     (if rest = [] then Some (int written, seq, m)
      else
        let chunk = min (length rest) (unat (ds_segment_size ds))
        in case sendSegment env now ds wire_ingress session_id seq FLAG_DATA (Some (take chunk rest)) m of
             (ret, m') \<Rightarrow>
               if ret < 0 then Some (ret, seq + 1, m')
               else send_loop_code env now ds wire_ingress session_id (drop chunk rest) (written + chunk) (seq + 1) m')"

lemma send_loop_agrees:
  "0 < ds_segment_size ds \<Longrightarrow>
   send_loop_code env now ds wi sid rest written seq m = Some (send_loop env now ds wi sid rest written seq m)"
proof (induction env now ds wi sid rest written seq m rule: send_loop.induct)
  case (1 env now ds wi sid rest written seq m)
  show ?case
  proof (cases "rest = []")
    case True
    then show ?thesis by (simp add: send_loop_code.simps send_loop.simps)
  next
    case False
    let ?c = "min (length rest) (unat (ds_segment_size ds))"
    obtain r1 m1 where s: "sendSegment env now ds wi sid seq FLAG_DATA (Some (take ?c rest)) m = (r1, m1)" by fastforce
    have cond: "\<not> (rest = [] \<or> ds_segment_size ds = 0)" using False 1(2) by auto
    show ?thesis
      using "1.IH" [OF cond refl s [symmetric]] 1(2) s cond
      by (simp add: send_loop_code.simps [of env now ds wi sid rest] send_loop.simps [of env now ds wi sid rest] Let_def)
  qed
qed

text \<open>With a size of zero the loop sends empty segments for ever.\<close>

lemma send_loop_diverges:
  assumes "send_loop_code env now ds wi sid rest written seq m = Some res"
  shows "\<not> (ds_segment_size ds = 0 \<and> rest \<noteq> [] \<and> mgr_inv m \<and> sort_ok env \<and> writes_ok env \<and> liveChannels m \<noteq> [])"
  using assms
proof (rule send_loop_code.raw_induct [where P = "\<lambda>env now ds wi sid rest written seq m res.
    \<not> (ds_segment_size ds = 0 \<and> rest \<noteq> [] \<and> mgr_inv m \<and> sort_ok env \<and> writes_ok env \<and> liveChannels m \<noteq> [])", rotated])
  fix loop env now ds wi sid rest written seq m and res :: "int \<times> u32 \<times> manager"
  assume IH: "\<And>env now ds wi sid rest written seq m res. loop env now ds wi sid rest written seq m = Some res \<Longrightarrow>
      \<not> (ds_segment_size ds = 0 \<and> rest \<noteq> [] \<and> mgr_inv m \<and> sort_ok env \<and> writes_ok env \<and> liveChannels m \<noteq> [])"
    and step: "(if rest = [] then Some (int written, seq, m)
      else let chunk = min (length rest) (unat (ds_segment_size ds))
        in case sendSegment env now ds wi sid seq FLAG_DATA (Some (take chunk rest)) m of
             (ret, m') \<Rightarrow> if ret < 0 then Some (ret, seq + 1, m')
               else loop env now ds wi sid (drop chunk rest) (written + chunk) (seq + 1) m') = Some res"
  show "\<not> (ds_segment_size ds = 0 \<and> rest \<noteq> [] \<and> mgr_inv m \<and> sort_ok env \<and> writes_ok env \<and> liveChannels m \<noteq> [])"
  proof
    assume a: "ds_segment_size ds = 0 \<and> rest \<noteq> [] \<and> mgr_inv m \<and> sort_ok env \<and> writes_ok env \<and> liveChannels m \<noteq> []"
    obtain r1 m1 where s: "sendSegment env now ds wi sid seq FLAG_DATA (Some []) m = (r1, m1)" by fastforce
    from sendSegment_spec [OF _ _ _ _ _ s, of "[]"] a obtain S where
      S: "copies m m1 (segment_image (segment_header ds wi sid seq FLAG_DATA 0) []) S" "0 \<le> r1" by (auto simp: stream_flags_def)
    have fr: "mgr_frame m m1" using S(1) by (simp add: copies_def)
    have "loop env now ds wi sid rest written (seq + 1) m1 = Some res"
      using step a s S(2) by (simp split: if_splits)
    from IH [OF this] show False
      using a mgr_frame_inv [OF fr] mgr_frame_live [OF fr] by simp
  qed
qed

text \<open>C23: The loop of sendSessionData, taken as a partial function with no way out but the end of the buffer and
  a failed send, returns for the stream of every reachable Inport and Outport, every buffer, every state of
  the links and every outcome of the writes, because no operation undoes the size check of the constructor;
  with a segment size of 0, a non-empty buffer and a live link that accepts writes it would never return.\<close>

theorem send_loop_terminates:
  assumes "(\<exists>env hst. inport_reachable env hst \<and> ds = w_ds (host_world hst)) \<or>
    (\<exists>env hst. outport_reachable env hst \<and> ds = w_ds (host_world hst))"
  shows "send_loop_code env now ds wi sid buf written seq m = Some (send_loop env now ds wi sid buf written seq m) \<and>
    (buf \<noteq> [] \<longrightarrow> mgr_inv m \<longrightarrow> sort_ok env \<longrightarrow> writes_ok env \<longrightarrow> liveChannels m \<noteq> [] \<longrightarrow>
       send_loop_code env now (ds\<lparr>ds_segment_size := 0\<rparr>) wi sid buf written seq m = None)"
proof (intro conjI impI)
  have "0 < ds_segment_size ds" using assms inport_sized outport_sized by (auto simp: sized_def)
  then show "send_loop_code env now ds wi sid buf written seq m = Some (send_loop env now ds wi sid buf written seq m)"
    by (rule send_loop_agrees)
  assume a: "buf \<noteq> []" "mgr_inv m" "sort_ok env" "writes_ok env" "liveChannels m \<noteq> []"
  show "send_loop_code env now (ds\<lparr>ds_segment_size := 0\<rparr>) wi sid buf written seq m = None"
  proof (rule ccontr)
    assume "send_loop_code env now (ds\<lparr>ds_segment_size := 0\<rparr>) wi sid buf written seq m \<noteq> None"
    then show False using send_loop_diverges [of env now "ds\<lparr>ds_segment_size := 0\<rparr>" wi sid buf written seq m] a by auto
  qed
qed

theorem send_loop_terminates_witness:
  "send_loop_code open_env 0 (w_ds sample_receiver) 7 1 [1, 2, 3] 0 0 sample_manager \<noteq> None \<and>
   send_loop_code open_env 0 ((w_ds sample_receiver)\<lparr>ds_segment_size := 0\<rparr>) 7 1 [1, 2, 3] 0 0 sample_manager = None"
proof -
  have "(\<exists>env hst. inport_reachable env hst \<and> w_ds sample_receiver = w_ds (host_world hst)) \<or>
      (\<exists>env hst. outport_reachable env hst \<and> w_ds sample_receiver = w_ds (host_world hst))"
    using sample_receiver_reachable by fastforce
  from send_loop_terminates [OF this, of open_env 0 7 1 "[1, 2, 3]" 0 0 sample_manager] show ?thesis
    by (simp add: sample_manager_live mgr_reachable_inv [OF sample_manager_reachable] sort_ok_open_env writes_ok_open_env)
qed

end
