(* ===== verification/Fgw_Tunnel.thy ===== *)
theory Fgw_Tunnel
  imports Fgw_Relay_Stream Fgw_Setup
begin

text \<open>
  A whole tunnel: a client connects to an Inport and writes a SOCKS5 greeting, a CONNECT request and
  data; an Outport at the other end of the links connects to the requested target and writes the data
  to it. The session starts from nothing on both sides.
\<close>

declare split_paired_All [simp del] split_paired_Ex [simp del]

section \<open>The client's side\<close>

text \<open>Links that take writes, in a sound state.\<close>

definition links_ok :: "fgw_env \<Rightarrow> 'a world \<Rightarrow> bool" where
  "links_ok env w \<longleftrightarrow> sort_ok env \<and> writes_ok env \<and> liveChannels (w_mgr w) \<noteq> []"

definition can_send :: "fgw_env \<Rightarrow> 'a world \<Rightarrow> bool" where
  "can_send env w \<longleftrightarrow> mgr_inv (w_mgr w) \<and> sized w \<and> links_ok env w"

lemmas can_send_defs = can_send_def sized_def links_ok_def

lemma reachable_can_send:
  assumes "inport_reachable env hst" and "links_ok env (host_world hst)"
  shows "can_send env (host_world hst)"
proof -
  have roomy: "roomy env" using assms(2) by (simp add: links_ok_def writes_ok_def roomy_def)
  then have "inport_gate env (host_world hst)" using inport_reachable_inv [OF assms(1)] by (simp add: inport_run.gate_inv_def)
  then have "mgr_inv (w_mgr (host_world hst))" using roomy by (simp add: inport_gate_def inport_inv_def)
  then show ?thesis using inport_sized [OF assms(1)] assms(2) by (simp add: can_send_def)
qed

lemma send_all_upd_app:
  "send_all env now sid key bufs (upd_app f w) = upd_app f (send_all env now sid key bufs w)"
  unfolding send_all_def by (induction bufs arbitrary: w) (simp_all add: sendSessionData_upd_app)

lemma send_all_app: "w_app (send_all env now sid key bufs w) = w_app w"
  unfolding send_all_def by (induction bufs arbitrary: w) simp_all

text \<open>What the reads of a client's socket do: count bytes and send.\<close>

lemma client_reads:
  assumes "fs_attached (ip_heap (w_app w) h)" "\<not> fs_closed (ip_heap (w_app w) h)" "fs_session_id (ip_heap (w_app w) h) = sid"
  shows "\<exists>g. foldl (\<lambda>w buf. client_on_read env now h buf w) w bufs =
    upd_app g (send_all env now sid kFgwWireIngressUseLocal bufs w)"
  using assms
proof (induction bufs arbitrary: w)
  case Nil
  show ?case by (intro exI [of _ id]) (simp add: send_all_def upd_app_def)
next
  case (Cons b bufs)
  define g :: "inport \<Rightarrow> inport" where "g = (\<lambda>ip. ip\<lparr>ip_heap := (ip_heap ip)(h := (ip_heap ip h)\<lparr>fs_bytes_recv := fs_bytes_recv (ip_heap ip h) +
      of_nat (length b)\<rparr>)\<rparr>)"
  let ?w1 = "snd (sendSessionData env now sid b kFgwWireIngressUseLocal w)"
  have read: "client_on_read env now h b w = upd_app g ?w1"
    using Cons.prems by (simp add: client_on_read_def fs_onClientBytes_def upd_fs_def g_def sendSessionData_upd_app Let_def)
  have "fs_attached (ip_heap (w_app (upd_app g ?w1)) h)" "\<not> fs_closed (ip_heap (w_app (upd_app g ?w1)) h)"
    "fs_session_id (ip_heap (w_app (upd_app g ?w1)) h) = sid"
    using Cons.prems by (simp_all add: g_def)
  from Cons.IH [OF this] obtain g' where
    "foldl (\<lambda>w buf. client_on_read env now h buf w) (upd_app g ?w1) bufs =
     upd_app g' (send_all env now sid kFgwWireIngressUseLocal bufs (upd_app g ?w1))" by blast
  then show ?case
    by (intro exI [of _ "g' \<circ> g"]) (simp add: read send_all_upd_app, simp add: send_all_def upd_app_def)
qed

text \<open>A new client: its session, and a SYN on some links.\<close>

lemma accept_spec:
  assumes "can_send env w" and "find_session (ds_local_ingress_id (w_ds w), ip_next_session_id (w_app w)) w = None"
    and acc: "inport_accept env now ts addr w = (h, w1)"
  shows "\<exists>S st. copies (w_mgr w) (w_mgr w1)
      (segment_image (segment_header (w_ds w) (ds_local_ingress_id (w_ds w)) (ip_next_session_id (w_app w)) 0 FLAG_SYN 0) []) S \<and>
    S \<subseteq> set (liveChannels (w_mgr w)) \<and> S \<noteq> {} \<and> ds_rest (w_ds w1) = ds_rest (w_ds w) \<and>
    find_session (ds_local_ingress_id (w_ds w), ip_next_session_id (w_app w)) w1 = Some st \<and>
    st_wire_ingress_id st = ds_local_ingress_id (w_ds w) \<and> st_next_send_seq st = 0 \<and> \<not> st_closed st \<and>
    fs_attached (ip_heap (w_app w1) h) \<and> \<not> fs_closed (ip_heap (w_app w1) h) \<and>
    fs_session_id (ip_heap (w_app w1) h) = ip_next_session_id (w_app w)"
proof -
  let ?i = "ds_local_ingress_id (w_ds w)" and ?s = "ip_next_session_id (w_app w)" and ?h = "ip_next_ref (w_app w)"
  define ip where "ip = (w_app w)\<lparr>ip_next_session_id := ?s + 1,
      ip_heap := (ip_heap (w_app w))(?h := (bindClientTcp addr (new_FgwSession ?s ts))\<lparr>fs_attached := True\<rparr>),
      ip_next_ref := Suc ?h, ip_sessions := smap_set ?s ?h (ip_sessions (w_app w))\<rparr>"
  define st where "st = SessionState_init\<lparr>st_session_id := ?s, st_wire_ingress_id := ?i, st_handler := Some ?h, st_opened := True\<rparr>"
  define w0 where "w0 = put_session (?i, ?s) st (w\<lparr>w_app := ip\<rparr>)"
  obtain ret m where send: "sendSegment env now (w_ds w0) ?i ?s 0 FLAG_SYN None (w_mgr w) = (ret, m)" by fastforce
  have "\<not> smap_count (ds_sessions (w_ds w)) (?i, ?s)"
    using assms(2) by (simp add: smap_count_def find_session_def)
  then have "inport_accept env now ts addr w =
      (?h, upd_mgr (\<lambda>m. snd (sendSegment env now (w_ds w0) ?i ?s 0 FLAG_SYN None m)) w0)"
    by (simp add: inport_accept_def inport_allocateSessionId_def openSession_def ip_def st_def w0_def Let_def)
  with acc have w1: "h = ?h" "w1 = upd_mgr (\<lambda>m. snd (sendSegment env now (w_ds w0) ?i ?s 0 FLAG_SYN None m)) w0"
    by simp_all
  have hdr: "segment_header (w_ds w0) = segment_header (w_ds w)"
    by (rule segment_header_cong) (simp add: w0_def put_session_def upd_ds_def)
  have mgr: "w_mgr w0 = w_mgr w" by (simp add: w0_def)
  from sendSegment_spec [OF _ _ _ _ _ send, of "[]"] assms(1) obtain S where
    S: "copies (w_mgr w) m (segment_image (segment_header (w_ds w0) ?i ?s 0 FLAG_SYN 0) []) S" "S \<subseteq> set (liveChannels (w_mgr w))" "S \<noteq> {}"
    by (auto simp: stream_flags_def can_send_defs)
  then show ?thesis
    by (intro exI [of _ S] exI [of _ st])
      (simp add: w1 hdr mgr send, simp add: w0_def st_def SessionState_init_def ip_def bindClientTcp_def new_FgwSession_def)
qed

text \<open>All segments of a client that connects and writes \<open>bufs\<close>.\<close>

definition client_segments :: "inport world \<Rightarrow> bytes list \<Rightarrow> (FgwSegmentHeader \<times> bytes) list" where
  "client_segments w bufs = (let i = ds_local_ingress_id (w_ds w); s = ip_next_session_id (w_app w)
     in (segment_header (w_ds w) i s 0 FLAG_SYN 0, []) # data_segments (w_ds w) i s 0 (pieces_of w bufs))"

lemma client_carried:
  assumes send: "can_send env w" and new: "find_session (ds_local_ingress_id (w_ds w), ip_next_session_id (w_app w)) w = None"
    and acc: "inport_accept env now ts addr w = (h, w1)"
  shows "\<exists>T. carried (w_mgr w) (w_mgr (foldl (\<lambda>w buf. client_on_read env now h buf w) w1 bufs)) (client_segments w bufs) T \<and>
    (\<forall>i. T i \<subseteq> set (liveChannels (w_mgr w))) \<and> (\<forall>i < length (client_segments w bufs). T i \<noteq> {})"
proof -
  let ?i = "ds_local_ingress_id (w_ds w)" and ?s = "ip_next_session_id (w_app w)"
  let ?ps = "concat (map (cut (unat (ds_segment_size (w_ds w)))) bufs)"
  from accept_spec [OF assms] obtain S st where
    S: "copies (w_mgr w) (w_mgr w1) (segment_image (segment_header (w_ds w) ?i ?s 0 FLAG_SYN 0) []) S"
      "S \<subseteq> set (liveChannels (w_mgr w))" "S \<noteq> {}"
    and rest: "ds_rest (w_ds w1) = ds_rest (w_ds w)"
    and st: "find_session (?i, ?s) w1 = Some st" "st_wire_ingress_id st = ?i" "st_next_send_seq st = 0" "\<not> st_closed st"
    and fs: "fs_attached (ip_heap (w_app w1) h)" "\<not> fs_closed (ip_heap (w_app w1) h)" "fs_session_id (ip_heap (w_app w1) h) = ?s"
    by blast
  note fields = ds_rest_fields [OF rest]
  have fr: "mgr_frame (w_mgr w) (w_mgr w1)" using S(1) by (simp add: copies_def)
  have live: "liveChannels (w_mgr w1) = liveChannels (w_mgr w)" by (rule mgr_frame_live [OF fr])
  have st1: "find_session (resolveIngressKey (w_ds w1) kFgwWireIngressUseLocal, ?s) w1 = Some st"
    using st(1) fields(1) by simp
  then have ok: "sender_ok env ?s kFgwWireIngressUseLocal w1"
    using send st(4) live mgr_frame_inv [OF fr] fields(6) by (simp add: sender_ok_def can_send_defs)
  obtain g where reads: "foldl (\<lambda>w buf. client_on_read env now h buf w) w1 bufs =
      upd_app g (send_all env now ?s kFgwWireIngressUseLocal bufs w1)" using client_reads [OF fs] by blast
  from send_all_spec [OF ok st1, of now bufs] obtain T where
    T: "carried (w_mgr w1) (w_mgr (send_all env now ?s kFgwWireIngressUseLocal bufs w1)) (data_segments (w_ds w) ?i ?s 0 ?ps) T"
      "\<forall>i. T i \<subseteq> set (liveChannels (w_mgr w))" "\<forall>i < length ?ps. T i \<noteq> {}"
    unfolding st(2,3) fields(6) live by (auto simp: data_segments_cong [OF fields(7)])
  let ?U = "\<lambda>i. if i = 0 then S else T (i - 1)"
  have "carried (w_mgr w) (w_mgr (foldl (\<lambda>w buf. client_on_read env now h buf w) w1 bufs)) (client_segments w bufs) ?U"
    using carried_Cons [OF S(1) T(1)] by (simp add: client_segments_def pieces_of_def reads Let_def)
  moreover have "\<forall>i < length (client_segments w bufs). ?U i \<noteq> {}"
    using S(3) T(3) by (auto simp: client_segments_def pieces_of_def Let_def)
  ultimately show ?thesis using S(2) T(2) by (intro exI [of _ ?U]) simp
qed

lemma syn_header_flags:
  "isSyn (segment_header ds wi sid seq FLAG_SYN n)" "\<not> isData (segment_header ds wi sid seq FLAG_SYN n)"
  "\<not> isFin (segment_header ds wi sid seq FLAG_SYN n)" "\<not> link_control (segment_header ds wi sid seq FLAG_SYN n)"
  "hdr_ingress_id (segment_header ds wi sid seq FLAG_SYN n) = wi"
  "hdr_session_id (segment_header ds wi sid seq FLAG_SYN n) = sid"
  by (simp_all add: segment_header_def FgwSegmentHeader_init_def link_control_def flag_tests seg_flags Let_def)

lemma client_segments_carry:
  assumes "seg \<in> set (client_segments w bufs)" and "unat (ds_segment_size (w_ds w)) \<le> MAX_PAYLOAD"
    and "length (pieces_of w bufs) \<le> 2 ^ 32" and "k = (ds_local_ingress_id (w_ds w), ip_next_session_id (w_app w))"
  shows "carries k (\<lambda>i. pieces_of w bufs ! i) (length (pieces_of w bufs)) seg"
    and "genuine k \<Longrightarrow> genuine_segment seg"
proof -
  let ?i = "ds_local_ingress_id (w_ds w)" and ?s = "ip_next_session_id (w_app w)"
  have ps: "\<forall>p \<in> set (pieces_of w bufs). p \<noteq> [] \<and> length p \<le> MAX_PAYLOAD" using pieces_of_small [OF _ assms(2)] by blast
  consider "seg = (segment_header (w_ds w) ?i ?s 0 FLAG_SYN 0, [])" | "seg \<in> set (data_segments (w_ds w) ?i ?s 0 (pieces_of w bufs))"
    using assms(1) by (auto simp: client_segments_def Let_def)
  then have c: "carries k (\<lambda>i. pieces_of w bufs ! i) (length (pieces_of w bufs)) seg \<and>
      (link_control (fst seg) \<or> hdr_ingress_id (fst seg) = ?i)"
  proof cases
    case 1
    then show ?thesis by (simp add: carries_def sendable_def syn_header_flags)
  next
    case 2
    then obtain n where "n < length (pieces_of w bufs)" "seg = data_segments (w_ds w) ?i ?s 0 (pieces_of w bufs) ! n"
      by (auto simp: in_set_conv_nth)
    then have "hdr_ingress_id (fst seg) = ?i" by (simp add: data_segments_nth data_header_flags)
    then show ?thesis using data_segments_carry [OF 2 ps] assms(3,4) by simp
  qed
  then show "carries k (\<lambda>i. pieces_of w bufs ! i) (length (pieces_of w bufs)) seg" by blast
  have "sendable seg" using c by (auto simp: carries_def split: prod.splits)
  then show "genuine k \<Longrightarrow> genuine_segment seg"
    using c assms(4) by (auto simp: genuine_segment_def genuine_def)
qed

section \<open>The target's side\<close>

text \<open>What the Outport does with segments of a session it has never seen, all of which arrive.\<close>

lemma relay_made:
  assumes reach: "outport_reachable env hst" "roomy env" "connects env"
    and new: "never_seen k (host_world hst)" "genuine k" "\<forall>r. scratch_of r hst = []"
    and segs: "\<forall>r. \<forall>seg \<in> set (segs r). carries k f N seg \<and> genuine_segment seg"
      "\<forall>r. concat (on_link r evs) = wire_image (segs r)"
    and all: "\<forall>i < N. \<exists>r. \<exists>seg \<in> set (segs r). brings k (of_nat i) seg" "0 < N"
      "N \<le> unat (ds_recv_window (w_ds (host_world hst)))"
    and ok: "\<forall>m \<le> N. acceptable (concat (map f [0..<m]))"
    and w': "w' = host_world (foldl (arrive env now (outport_ops env now ts)) hst evs)"
  shows "\<exists>h st. find_session k w' = Some st \<and> st_handler st = Some h \<and> delivered h (w_trace w') = concat (map f [0..<N])"
proof -
  have safe: "outport_safe env (host_world hst)"
    using outport_reachable_inv [OF reach(1,2)] reach(2) by (simp add: outport_safe_def outport_gate_def)
  have "unat (ds_recv_window (w_ds (host_world hst))) < 2 ^ 16"
    using unsigned_less [of "ds_recv_window (w_ds (host_world hst))"] by simp
  then have N: "N + unat (ds_recv_window (w_ds (host_world hst))) \<le> 2 ^ 32" using all(3) by simp
  have "0 < ds_recv_window (w_ds (host_world hst))" using outport_sized [OF reach(1)] by (simp add: sized_def)
  note start = never_seen_unopened [OF safe new(1,2) reach(3) this N ok]
  have "\<forall>r. \<forall>hp \<in> set (segs r). sendable hp" using segs(1) by (auto simp: genuine_segment_def)
  then obtain ms where ms: "\<forall>r. on_link r ms = segs r" "w' = foldl (receive env now (outport_ops env now ts)) (host_world hst) ms"
    using links_merge [of segs hst evs env now "outport_ops env now ts"] segs(2) new(3) w' by auto
  have mem: "\<forall>m. m \<le> e_mb_space env now m" using reach(2) by (simp add: roomy_def)
  have "\<forall>ev \<in> set ms. carries k f N (snd ev)" "\<forall>ev \<in> set ms. genuine_segment (snd ev)"
    using segs(1) ms(1) by (simp_all add: on_link_members(1) [of ms "carries k f N"] on_link_members(1) [of ms genuine_segment])
  note members = this
  have "w' = foldl (receive env now (genuine_ops env now ts)) (host_world hst) ms"
    unfolding ms(2) by (rule receives_agree [OF safe members(2)])
  moreover have "tunnel.opens env k f N True (\<lambda>s. False \<or> (\<exists>ev \<in> set ms. brings k s (snd ev)))
      (foldl (receive env now (genuine_ops env now ts)) (host_world hst) ms)"
    by (rule tunnel.receives_opens [OF tunnel.unopened_opens [OF start(1)] members(1)]) (use start(2) mem all(3) in simp_all)
  moreover have "\<exists>ev \<in> set ms. brings k (of_nat i) (snd ev)" if "i < N" for i
    using all(1) that ms(1) by (simp add: on_link_members(2) [of ms "brings k _"])
  ultimately have o: "tunnel.opens env k f N True (\<lambda>s. False \<or> (\<exists>ev \<in> set ms. brings k s (snd ev))) w'"
    and came: "\<And>i. i < N \<Longrightarrow> False \<or> (\<exists>ev \<in> set ms. brings k (of_nat i) (snd ev))" by simp_all
  obtain h where "tunnel.recv_inv env k h f N N w'"
    using tunnel.opens_whole [OF o came all(2)] by blast
  then show ?thesis by (auto simp: tunnel.recv_inv_def)
qed

text \<open>What a client writes to get connected is never refused on the way.\<close>

lemma refused_stays:
  assumes "fst (socks_view d) = ST_CLOSED"
  shows "fst (socks_view (d @ b)) = ST_CLOSED"
proof -
  have len: "2 \<le> length d" using assms by (auto simp: socks_view_def split: if_splits)
  then have same: "(d @ b) ! 0 = d ! 0" "(d @ b) ! 1 = d ! 1" by (intro nth_append_front, linarith)+
  show ?thesis
  proof (cases "d ! 0 = SOCKS5_VER")
    case True
    have n: "2 + unat (d ! 1) \<le> length d" and g: "fst (after_greeting (drop (2 + unat (d ! 1)) d)) = ST_CLOSED"
      using assms len True by (auto simp: socks_view_def split: if_splits)
    let ?x = "drop (2 + unat (d ! 1)) d"
    have "scan_request ?x \<noteq> ReqMore" using g by (auto simp: after_greeting_def)
    then have "scan_request (?x @ b) = scan_request ?x" by (rule scan_request_stable)
    then have "fst (after_greeting (?x @ b)) = ST_CLOSED"
      using g by (simp add: after_greeting_def split: request.splits)
    then show ?thesis using len n True same by (simp add: socks_view_def)
  qed (use len same in \<open>simp add: socks_view_def\<close>)
qed

lemma client_acceptable:
  assumes "d @ b = greeting methods @ client_request 1 a port @ data" and "length methods < 256" and "addr_ok a"
  shows "acceptable d"
proof -
  have "socks_view (d @ b) = (ST_CONNECTING, addr_text a @ '':'' @ decimal (unat port), data)"
    unfolding assms(1) using view_of_client [OF assms(2,3), of port data] by (simp add: SOCKS5_CMD_CONNECT_def)
  then show ?thesis using refused_stays [of d b] by (auto simp: acceptable_def)
qed

lemma outport_arrive_gate:
  "outport_gate env (host_world hst) \<Longrightarrow>
   outport_gate env (host_world (foldl (arrive env now (outport_ops env now ts)) hst evs))"
  by (induction evs arbitrary: hst) (simp_all add: arrive_def outport.I_bytes)

text \<open>A relay that was given a whole request has a target, and opening the connection sends it the data.\<close>

lemma relay_opens:
  assumes gate: "outport_gate env w" and roomy: "roomy env"
    and st: "find_session k w = Some st" "st_handler st = Some h" "genuine k"
    and view: "socks_view (delivered h (w_trace w)) = (ST_CONNECTING, target, data)"
  shows "relay_key h w = k" and "rs_remote_tcp (relay h w)" and "rs_target_addr (relay h w) = target"
    and "concat (rs_remote_out (relay h (remote_on_open env now h w))) = data"
proof -
  have core: "outport_core w" using gate roomy by (simp add: outport_gate_def outport_inv_def)
  then have s: "serves w h k" using st unfolding outport_core_def by blast
  then show "relay_key h w = k" by (simp add: serves_def)
  have open_h: "rs_state (relay h w) \<noteq> ST_CLOSED" and h: "h < op_next_ref (w_app w)" using s st(3) by (simp_all add: serves_def)
  have ok: "relay_ok (relay h w) (delivered h (w_trace w))" using core by (simp add: outport_core_def)
  then show tcp: "rs_remote_tcp (relay h w)" and "rs_target_addr (relay h w) = target"
    using view open_h by (cases "rs_state (relay h w)"; simp add: relay_ok_def)+
  let ?w = "remote_on_open env now h w"
  have "relay_ok (relay h ?w) (delivered h (w_trace ?w))"
    using gate_open [OF gate h] roomy inv_relay_ok by (simp add: outport_gate_def)
  moreover have "rs_state (relay h ?w) = ST_RELAYING" "w_trace ?w = w_trace w"
    using tcp relay_frame_send(2) [of h w env now SOCKS5_REP_OK]
    by (simp_all add: remote_on_open_def rs_onRemoteOpen_def rs_flush_def relay_frame_def Let_def)
  ultimately show "concat (rs_remote_out (relay h ?w)) = data"
    using view by (simp add: relay_ok_def)
qed

section \<open>Client to target\<close>

text \<open>The wires of the Inport, cut into reads anywhere: on every link some of the client's segments, each segment
  on some link.\<close>

lemma client_on_wire:
  assumes "inport_reachable env hs" and "w0 = host_world hs" and "links_ok env w0"
    and "find_session (ds_local_ingress_id (w_ds w0), ip_next_session_id (w_app w0)) w0 = None"
    and "inport_accept env now ts addr w0 = (c, w1)" and "w2 = foldl (\<lambda>w buf. client_on_read env now c buf w) w1 bufs"
    and "sent_on links (w_mgr w0) (w_mgr w2) evs" and "\<forall>s \<in> set (liveChannels (w_mgr w0)). \<exists>r. links r = Some s"
  shows "can_send env w0" and "\<exists>segs. (\<forall>r. concat (on_link r evs) = wire_image (segs r)) \<and>
    (\<forall>r. set (segs r) \<subseteq> set (client_segments w0 bufs)) \<and> (\<forall>seg \<in> set (client_segments w0 bufs). \<exists>r. seg \<in> set (segs r))"
proof -
  show send: "can_send env w0" using reachable_can_send [OF assms(1)] assms(3) unfolding assms(2) by blast
  obtain T where T: "carried (w_mgr w0) (w_mgr w2) (client_segments w0 bufs) T" "\<forall>i. T i \<subseteq> set (liveChannels (w_mgr w0))"
    "\<forall>i < length (client_segments w0 bufs). T i \<noteq> {}"
    using client_carried [OF send assms(4,5), of bufs] unfolding assms(6) by blast
  from carried_on_links [OF T, of links] assms(8)
  show "\<exists>segs. (\<forall>r. concat (on_link r evs) = wire_image (segs r)) \<and>
    (\<forall>r. set (segs r) \<subseteq> set (client_segments w0 bufs)) \<and> (\<forall>seg \<in> set (client_segments w0 bufs). \<exists>r. seg \<in> set (segs r))"
    unfolding assms(7) [unfolded sent_on_def, rule_format, symmetric] by blast
qed

text \<open>An Outport that gets them connects the client to the target it asked for.\<close>

lemma request_served:
  assumes send: "can_send env w0" and k: "k = (ds_local_ingress_id (w_ds w0), ip_next_session_id (w_app w0))"
    and req: "concat bufs = greeting methods @ client_request 1 a port @ data" "length methods < 256" "addr_ok a"
    and reach: "outport_reachable env' hst" "roomy env'" "connects env'"
    and new: "never_seen k (host_world hst)" "genuine k" "\<forall>r. scratch_of r hst = []"
    and win: "length (pieces_of w0 bufs) \<le> unat (ds_recv_window (w_ds (host_world hst)))"
    and segs: "\<forall>r. concat (on_link r evs) = wire_image (segs r)" "\<forall>r. set (segs r) \<subseteq> set (client_segments w0 bufs)"
      "\<forall>seg \<in> set (client_segments w0 bufs). \<exists>r. seg \<in> set (segs r)"
    and w': "w' = host_world (foldl (arrive env' now' (outport_ops env' now' ts')) hst evs)"
  shows "\<exists>h. relay_key h w' = k \<and> rs_remote_tcp (relay h w') \<and>
    rs_target_addr (relay h w') = addr_text a @ '':'' @ decimal (unat port) \<and>
    concat (rs_remote_out (relay h (remote_on_open env' now'' h w'))) = data"
proof -
  let ?ps = "pieces_of w0 bufs" and ?N = "length (pieces_of w0 bufs)"
  have size: "unat (ds_segment_size (w_ds w0)) \<le> MAX_PAYLOAD" "concat ?ps = concat bufs"
    using send pieces_of_whole [of w0 bufs] by (simp_all add: can_send_defs)
  have "unat (ds_recv_window (w_ds (host_world hst))) < 2 ^ 16"
    using unsigned_less [of "ds_recv_window (w_ds (host_world hst))"] by simp
  then have N: "?N \<le> 2 ^ 32" using win by simp
  have carr: "\<forall>r. \<forall>seg \<in> set (segs r). carries k (\<lambda>i. ?ps ! i) ?N seg \<and> genuine_segment seg"
    using client_segments_carry [OF _ size(1) N k] segs(2) new(2) by blast
  have ps: "\<forall>p \<in> set ?ps. p \<noteq> []" using pieces_of_small [OF _ size(1)] by blast
  have "\<exists>seg \<in> set (client_segments w0 bufs). brings k (of_nat i) seg" if "i < ?N" for i
    using data_segments_bring [OF that ps, where s = 0, simplified] that unfolding k client_segments_def Let_def
    by (metis length_data_segments nth_mem list.set_intros(2))
  then have all: "\<forall>i < ?N. \<exists>r. \<exists>seg \<in> set (segs r). brings k (of_nat i) seg" using segs(3) by blast
  have take: "concat (map (\<lambda>i. ?ps ! i) [0..<m]) @ concat (drop m ?ps) = concat bufs" if "m \<le> ?N" for m
  proof -
    have "map (\<lambda>i. ?ps ! i) [0..<m] = take m ?ps" using that by (auto simp: list_eq_iff_nth_eq)
    then show ?thesis using size(2) by (simp flip: concat_append)
  qed
  then have ok: "\<forall>m \<le> ?N. acceptable (concat (map (\<lambda>i. ?ps ! i) [0..<m]))"
    using client_acceptable [OF _ req(2,3)] req(1) by metis
  have "0 < ?N" using size(2) req(1) by (cases "?ps = []") (simp_all add: greeting_def)
  from relay_made [OF reach new carr segs(1) all this win ok w'] take [of ?N] obtain h st where
    h: "find_session k w' = Some st" "st_handler st = Some h" "delivered h (w_trace w') = concat bufs" by auto
  have gate: "outport_gate env' w'"
    unfolding w' by (rule outport_arrive_gate) (use outport_reachable_inv [OF reach(1,2)] in \<open>simp add: outport_gate_def\<close>)
  have "socks_view (delivered h (w_trace w')) = (ST_CONNECTING, addr_text a @ '':'' @ decimal (unat port), data)"
    unfolding h(3) req(1) using view_of_client [OF req(2,3), of port data] by (simp add: SOCKS5_CMD_CONNECT_def)
  from relay_opens [OF gate reach(2) h(1,2) new(2) this] show ?thesis by blast
qed

text \<open>C2: The whole tunnel: a client that connects to a reachable Inport whose next session is new, and writes, in
  any pieces, a SOCKS5 greeting, a CONNECT request and data, gets a relay of its own at a reachable Outport
  that connects to the host and port of the request, and once the connection is up the target has been written
  exactly the data. Conditions: the Outport has never seen that session, its connects start and its memory
  lasts; the Inport has a live link, and the links accept writes, start between frames, all lead to the
  Outport and bring everything written on them and nothing else, so that segments come duplicated, cut and
  reordered between links; the bytes make no more segments than one receive window of the Outport (beyond it,
  early segments are dropped and never sent again); the ingress id is not the reserved one.\<close>

theorem client_reaches_the_target:
  assumes "inport_reachable env hs" and "w0 = host_world hs" and "links_ok env w0"
    and "find_session (ds_local_ingress_id (w_ds w0), ip_next_session_id (w_app w0)) w0 = None"
    and "inport_accept env now ts addr w0 = (c, w1)" and "w2 = foldl (\<lambda>w buf. client_on_read env now c buf w) w1 bufs"
    and "sent_on links (w_mgr w0) (w_mgr w2) evs" and "\<forall>s \<in> set (liveChannels (w_mgr w0)). \<exists>r. links r = Some s"
    and "k = (ds_local_ingress_id (w_ds w0), ip_next_session_id (w_app w0))"
    and "concat bufs = greeting methods @ client_request 1 a port @ data" and "length methods < 256" and "addr_ok a"
    and "outport_reachable env' hst" and "roomy env'" and "connects env'"
    and "never_seen k (host_world hst)" and "genuine k" and "\<forall>r. scratch_of r hst = []"
    and "length (pieces_of w0 bufs) \<le> unat (ds_recv_window (w_ds (host_world hst)))"
    and "w' = host_world (foldl (arrive env' now' (outport_ops env' now' ts')) hst evs)"
  shows "\<exists>h. relay_key h w' = k \<and> rs_remote_tcp (relay h w') \<and>
    rs_target_addr (relay h w') = addr_text a @ '':'' @ decimal (unat port) \<and>
    concat (rs_remote_out (relay h (remote_on_open env' now'' h w'))) = data"
proof -
  note wire = client_on_wire [OF assms(1-8)]
  from wire(2) obtain segs where "\<forall>r. concat (on_link r evs) = wire_image (segs r)"
    "\<forall>r. set (segs r) \<subseteq> set (client_segments w0 bufs)" "\<forall>seg \<in> set (client_segments w0 bufs). \<exists>r. seg \<in> set (segs r)" by blast
  from request_served [OF wire(1) assms(9-19) this assms(20)] show ?thesis .
qed

section \<open>A tunnel\<close>

text \<open>An Inport with one link, whose client asks for port 80 of the Outport's own host and sends a byte.\<close>

definition sample_ingress :: "u32 \<Rightarrow> inport host" where
  "sample_ingress route = inport_boot 7 2 16 True route sample_manager"

definition sample_client :: "u32 \<Rightarrow> inport world" where
  "sample_client route = foldl (\<lambda>w buf. client_on_read open_env 0 0 buf w)
     (snd (inport_accept open_env 0 0 ''client'' (host_world (sample_ingress route)))) [sample_request]"

definition sample_uplink :: "chan_ref \<Rightarrow> u32 \<Rightarrow> (chan_ref \<times> bytes) list" where
  "sample_uplink r route = [(r, concat (drop (length (ch_wire (m_heap (w_mgr (host_world (sample_ingress route))) 0)))
     (ch_wire (m_heap (w_mgr (sample_client route)) 0))))]"

lemma sample_ingress_facts:
  "inport_reachable open_env (sample_ingress route)" "links_ok open_env (host_world (sample_ingress route))"
  "ds_local_ingress_id (w_ds (host_world (sample_ingress route))) = 7" "find_session k (host_world (sample_ingress route)) = None"
  "ip_next_session_id (w_app (host_world (sample_ingress route))) = 1"
  "ds_segment_size (w_ds (host_world (sample_ingress route))) = 2"
  "ds_route_outport_id (w_ds (host_world (sample_ingress route))) = route"
  "liveChannels (w_mgr (host_world (sample_ingress route))) = [0]"
  "fst (inport_accept open_env 0 0 ''client'' (host_world (sample_ingress route))) = 0"
proof -
  show "inport_reachable open_env (sample_ingress route)"
    unfolding sample_ingress_def by (rule inport_reachable.boot [OF sample_manager_reachable])
  have "liveChannels (addBytesSubscriber 0 sample_manager) = liveChannels sample_manager"
    by (simp add: liveChannels_def addBytesSubscriber_def)
  then show live: "liveChannels (w_mgr (host_world (sample_ingress route))) = [0]"
    by (simp add: sample_ingress_def inport_boot_def new_DataStream_def sample_manager_live)
  show "links_ok open_env (host_world (sample_ingress route))"
    using live by (simp add: links_ok_def sort_ok_open_env writes_ok_open_env)
  show "ds_local_ingress_id (w_ds (host_world (sample_ingress route))) = 7" "find_session k (host_world (sample_ingress route)) = None"
    "ip_next_session_id (w_app (host_world (sample_ingress route))) = 1"
    "ds_segment_size (w_ds (host_world (sample_ingress route))) = 2"
    "ds_route_outport_id (w_ds (host_world (sample_ingress route))) = route"
    "fst (inport_accept open_env 0 0 ''client'' (host_world (sample_ingress route))) = 0"
    by (simp_all add: sample_ingress_def inport_boot_def new_DataStream_def inport_init_def find_session_def MAX_PAYLOAD_def
        inport_accept_def inport_allocateSessionId_def Let_def)
qed

lemma sample_accept: "inport_accept open_env 0 0 ''client'' (host_world (sample_ingress route)) =
    (0, snd (inport_accept open_env 0 0 ''client'' (host_world (sample_ingress route))))"
  using sample_ingress_facts(9) [of route] by (metis prod.collapse)

lemma sample_uplink_sent: "sent_on (\<lambda>x. if x = r then Some 0 else None) (w_mgr (host_world (sample_ingress route)))
    (w_mgr (sample_client route)) (sample_uplink r route)"
  by (simp add: sent_on_def written_on_def sample_uplink_def)

lemma sample_uplink_ends: "\<forall>s \<in> set (liveChannels (w_mgr (host_world (sample_ingress route)))).
    \<exists>x. (if x = r then Some (0 :: chan_ref) else None) = Some s"
  by (simp add: sample_ingress_facts(8))

lemma sample_request_pieces: "length (pieces_of (host_world (sample_ingress route)) [sample_request]) = 7"
  by (simp add: pieces_of_def sample_ingress_facts(6) cut.simps sample_request_def greeting_def client_request_def)

lemma sample_egress_facts:
  "outport_reachable open_env sample_outport" "never_seen (7, 1) (host_world sample_outport)" "connects open_env"
  "genuine (7, 1)" "\<forall>r. scratch_of r sample_outport = []" "ds_recv_window (w_ds (host_world sample_outport)) = 16"
proof -
  show "outport_reachable open_env sample_outport"
    unfolding sample_outport_def by (rule outport_reachable.boot [OF sample_manager_reachable])
  show "never_seen (7, 1) (host_world sample_outport)" "\<forall>r. scratch_of r sample_outport = []"
    "ds_recv_window (w_ds (host_world sample_outport)) = 16"
    by (simp_all add: sample_outport_def outport_boot_def new_DataStream_def never_seen_def find_session_def outport_init_def
        smap_count_def scratch_of_def)
  show "connects open_env" "genuine (7, 1)" by (simp_all add: connects_def open_env_def genuine_def kFgwWireIngressUseLocal_def)
qed

definition sample_egress :: "(chan_ref \<times> bytes) list \<Rightarrow> outport world" where
  "sample_egress evs = host_world (foldl (arrive open_env 0 (outport_ops open_env 0 0)) sample_outport evs)"

theorem client_reaches_the_target_witness:
  "\<exists>h. rs_target_addr (relay h (sample_egress (sample_uplink 0 0))) = ''127.0.0.1:80'' \<and>
     concat (rs_remote_out (relay h (remote_on_open open_env 1 h (sample_egress (sample_uplink 0 0))))) = [42]"
proof -
  have req: "concat [sample_request] = greeting [0] @ client_request 1 (IPv4 [127, 0, 0, 1]) 80 @ [42]"
    by (simp add: sample_request_def)
  have "\<exists>h. relay_key h (sample_egress (sample_uplink 0 0)) = (7, 1) \<and>
      rs_remote_tcp (relay h (sample_egress (sample_uplink 0 0))) \<and>
      rs_target_addr (relay h (sample_egress (sample_uplink 0 0))) = addr_text (IPv4 [127, 0, 0, 1]) @ '':'' @ decimal (unat (80 :: u16)) \<and>
      concat (rs_remote_out (relay h (remote_on_open open_env 1 h (sample_egress (sample_uplink 0 0))))) = [42]"
    by (rule client_reaches_the_target [OF sample_ingress_facts(1) refl sample_ingress_facts(2,4) sample_accept _
          sample_uplink_sent sample_uplink_ends _ req _ _ sample_egress_facts(1) roomy_open_env sample_egress_facts(3,2,4,5) _
          sample_egress_def])
      (simp_all add: sample_client_def sample_ingress_facts sample_request_pieces sample_egress_facts)
  then show ?thesis by (auto simp: ipv4_text_def decimal.simps char_of_def bit_0)
qed

end
