(* ===== verification/Fgw_Relayed_Tunnel.thy ===== *)
theory Fgw_Relayed_Tunnel
  imports Fgw_Tunnel Fgw_Transit
begin

text \<open>
  The tunnel over a Transit: the Inport's links end at the Transit, which writes what belongs to the
  Outport on its link to it. The reads of the Transit's links interleave in any order.
\<close>

declare split_paired_All [simp del] split_paired_Ex [simp del]

section \<open>Several links of a Transit\<close>

definition t_arrive :: "fgw_env \<Rightarrow> u32 \<Rightarrow> transit \<Rightarrow> chan_ref \<times> bytes \<Rightarrow> transit" where
  "t_arrive env now t ev = onLinkBytes env now (fst ev) (snd ev) t"

definition t_scratch :: "transit \<Rightarrow> chan_ref \<Rightarrow> bytes" where
  "t_scratch t r = (case smap_find (t_links t) r of None \<Rightarrow> [] | Some L \<Rightarrow> tl_buffer L)"

text \<open>The links of one direction bring whole segments, cut anywhere: what the Transit does is what it would do for
  some interleaving of them.\<close>

lemma transit_merge:
  assumes "writes_ok env" and "\<forall>ev \<in> set evs. \<exists>L. smap_find (t_links t) (fst ev) = Some L \<and> tl_outbound L = ob"
    and "\<forall>r. t_scratch t r @ concat (on_link r evs) = wire_image (segs r)" and "\<forall>r. scan_frame (t_scratch t r) = NeedMore"
    and "\<forall>r. \<forall>seg \<in> set (segs r). sendable seg"
  shows "\<exists>ms. (\<forall>r. on_link r ms = segs r) \<and> (\<forall>x. ch_wire (t_heap (foldl (t_arrive env now) t evs) x) =
    ch_wire (t_heap t x) @ map (\<lambda>(h, p). segment_image h p) (forwarded t ob x (map snd ms)))"
  using assms(2-)
proof (induction evs arbitrary: t segs)
  case Nil
  have "segs r = []" for r
    by (rule wire_image_unfinished) (use Nil(2,3) [rule_format, of r] Nil(4) in simp_all)
  then show ?case by (intro exI [of _ "[]"]) (simp add: forwarded_def)
next
  case (Cons ev evs)
  obtain r c where ev: "ev = (r, c)" by fastforce
  obtain L where L: "smap_find (t_links t) r = Some L" "tl_outbound L = ob" using Cons.prems(1) by (auto simp: ev)
  have sc: "t_scratch t r = tl_buffer L" by (simp add: t_scratch_def L)
  obtain rest t1 where loop: "frame_loop (relay_segment env now r ob) (tl_buffer L @ c) t = (rest, t1)" by fastforce
  have "(tl_buffer L @ c) @ concat (on_link r evs) = wire_image (segs r) @ []"
    using Cons.prems(2) [rule_format, of r] by (simp add: ev sc)
  from frame_loop_prefix [OF _ scan_frame_Nil this, of "relay_segment env now r ob" t] Cons.prems(4) loop
  obtain ok todo where d: "segs r = ok @ todo" "t1 = foldl (step_segment (relay_segment env now r ob)) t ok"
    "rest @ concat (on_link r evs) = wire_image todo" "scan_frame rest = NeedMore" by auto
  have p: "\<forall>seg \<in> set ok. sendable seg"
    using Cons.prems(4) [rule_format, of _ r] d(1) by auto
  note r1 = relay_all [OF assms(1) p d(2)]
  let ?t2 = "t1\<lparr>t_links := smap_set r (L\<lparr>tl_buffer := rest\<rparr>) (t_links t1)\<rparr>"
  have step: "t_arrive env now t ev = ?t2" using L loop by (simp add: t_arrive_def ev onLinkBytes_def)
  have same: "route ?t2 ob h = route t ob h" "link_ready ?t2 x = link_ready t x" for h x
  proof -
    have "route ?t2 ob h = route t1 ob h" by (simp add: route_def findInbound_def findOutbound_def)
    then show "route ?t2 ob h = route t ob h" using same_route_route [of ob t t1] r1 by simp
    show "link_ready ?t2 x = link_ready t x" using r1 by (simp add: link_ready_def)
  qed
  have links: "smap_find (t_links ?t2) x = (if x = r then Some (L\<lparr>tl_buffer := rest\<rparr>) else smap_find (t_links t) x)" for x
    using r1 by (simp add: smap_find_set)
  have scr: "t_scratch ?t2 x = (if x = r then rest else t_scratch t x)" for x
    unfolding t_scratch_def links by simp
  define segs' where "segs' = segs(r := todo)"
  have sub: "set (segs' x) \<subseteq> set (segs x)" for x using d(1) by (simp add: segs'_def)
  have "\<forall>ev \<in> set evs. \<exists>L. smap_find (t_links ?t2) (fst ev) = Some L \<and> tl_outbound L = ob"
    unfolding links using Cons.prems(1) L(2) by simp
  moreover have "\<forall>x. t_scratch ?t2 x @ concat (on_link x evs) = wire_image (segs' x)"
  proof
    fix x show "t_scratch ?t2 x @ concat (on_link x evs) = wire_image (segs' x)"
      using Cons.prems(2) [rule_format, of x] d(3) unfolding scr segs'_def by (cases "x = r") (simp_all add: ev)
  qed
  moreover have "\<forall>x. scan_frame (t_scratch ?t2 x) = NeedMore" unfolding scr using Cons.prems(3) d(4) by simp
  moreover have "\<forall>x. \<forall>seg \<in> set (segs' x). sendable seg"
    using Cons.prems(4) sub by blast
  ultimately obtain ms where ms: "\<forall>x. on_link x ms = segs' x"
    "\<forall>x. ch_wire (t_heap (foldl (t_arrive env now) ?t2 evs) x) =
      ch_wire (t_heap ?t2 x) @ map (\<lambda>(h, p). segment_image h p) (forwarded ?t2 ob x (map snd ms))"
    using Cons.IH [of ?t2 segs'] by blast
  have "on_link x (map (Pair r) ok @ ms) = segs x" for x
    using ms(1) d(1) by (simp add: on_link_same segs'_def)
  moreover have "forwarded ?t2 ob x xs = forwarded t ob x xs" for x xs by (simp add: forwarded_def same)
  then have "ch_wire (t_heap (foldl (t_arrive env now) t (ev # evs)) x) =
      ch_wire (t_heap t x) @ map (\<lambda>(h, p). segment_image h p) (forwarded t ob x (map snd (map (Pair r) ok @ ms)))" for x
    using ms(2) r1 by (simp add: step forwarded_def comp_def)
  ultimately show ?case by blast
qed

section \<open>Client to target over a Transit\<close>

text \<open>A Transit that has links from the Inport (\<open>ins\<close>), between frames, and its link \<open>out\<close> to the Outport \<open>id\<close>.\<close>

definition relays_to :: "transit \<Rightarrow> chan_ref set \<Rightarrow> u32 \<Rightarrow> chan_ref \<Rightarrow> bool" where
  "relays_to t ins outport_id out \<longleftrightarrow> findOutbound outport_id t = Some out \<and> ch_connected (t_heap t out) \<and>
     (\<forall>r \<in> ins. \<exists>L. smap_find (t_links t) r = Some L \<and> \<not> tl_outbound L) \<and> (\<forall>r. t_scratch t r = [])"

lemma routed_header:
  assumes "ds_route_outport_id ds \<noteq> 0"
  shows "hdr_routed (segment_header ds wi sid seq flags n)" "hdr_outport_id (segment_header ds wi sid seq flags n) = ds_route_outport_id ds"
proof -
  have "(x OR FLAG_HDR_ROUTE) AND FLAG_HDR_ROUTE \<noteq> 0" for x :: u8
    by (simp add: bit.conj_disj_distrib2 FLAG_HDR_ROUTE_def)
  then show "hdr_routed (segment_header ds wi sid seq flags n)"
    "hdr_outport_id (segment_header ds wi sid seq flags n) = ds_route_outport_id ds"
    using assms by (simp_all add: segment_header_def hdr_routed_def Let_def)
qed

lemma client_segments_routed:
  assumes "seg \<in> set (client_segments w bufs)" and "ds_route_outport_id (w_ds w) \<noteq> 0"
  shows "route t False (fst seg) = findOutbound (ds_route_outport_id (w_ds w)) t"
proof -
  let ?i = "ds_local_ingress_id (w_ds w)" and ?s = "ip_next_session_id (w_app w)"
  consider "seg = (segment_header (w_ds w) ?i ?s 0 FLAG_SYN 0, [])" | "seg \<in> set (data_segments (w_ds w) ?i ?s 0 (pieces_of w bufs))"
    using assms(1) by (auto simp: client_segments_def Let_def)
  then show ?thesis
  proof cases
    case 1
    then show ?thesis using routed_header [OF assms(2)] by (simp add: route_def syn_header_flags)
  next
    case 2
    then obtain n where "n < length (pieces_of w bufs)" "seg = data_segments (w_ds w) ?i ?s 0 (pieces_of w bufs) ! n"
      by (auto simp: in_set_conv_nth)
    then show ?thesis using routed_header [OF assms(2)] by (simp add: route_def data_segments_nth data_header_flags)
  qed
qed

text \<open>Segments that arrive on links of one side and are all routed to \<open>out\<close> are what the Transit writes there.\<close>

lemma through_the_transit:
  assumes t: "transit_reachable envt cfg t" "writes_ok envt" "relays_to t (fst ` set evs) oid out" "t' = foldl (t_arrive envt nowt) t evs"
    and S: "\<forall>seg \<in> S. sendable seg \<and> route t False (fst seg) = Some out"
    and segs: "\<forall>r. concat (on_link r evs) = wire_image (segs r)" "\<forall>r. set (segs r) \<subseteq> S" "\<forall>seg \<in> S. \<exists>r. seg \<in> set (segs r)"
  shows "\<exists>ss. set ss = S \<and> concat (drop (length (ch_wire (t_heap t out))) (ch_wire (t_heap t' out))) = wire_image ss"
proof -
  have ready: "link_ready t out"
    using transit_inv_heap [OF transit_reachable_inv [OF t(1)]] t(3) by (simp add: link_ready_connected relays_to_def)
  have "\<forall>ev \<in> set evs. \<exists>L. smap_find (t_links t) (fst ev) = Some L \<and> tl_outbound L = False"
    "\<forall>r. t_scratch t r @ concat (on_link r evs) = wire_image (segs r)" "\<forall>r. scan_frame (t_scratch t r) = NeedMore"
    using t(3) segs(1) by (auto simp: relays_to_def scan_frame_Nil)
  moreover have "\<forall>r. \<forall>seg \<in> set (segs r). sendable seg"
    using segs(2) S by fastforce
  ultimately obtain ms where ms: "\<forall>r. on_link r ms = segs r"
    "\<forall>x. ch_wire (t_heap t' x) = ch_wire (t_heap t x) @ map (\<lambda>(h, p). segment_image h p) (forwarded t False x (map snd ms))"
    using transit_merge [OF t(2), of evs t False segs nowt] unfolding t(4) by blast
  have "\<forall>ev \<in> set ms. snd ev \<in> S"
    unfolding on_link_members(1) [of ms "\<lambda>seg. seg \<in> S"] using ms(1) segs(2) by auto
  moreover have "\<exists>ev \<in> set ms. snd ev = seg" if "seg \<in> S" for seg
    unfolding on_link_members(2) [of ms "\<lambda>x. x = seg"] using ms(1) segs(3) that by auto
  ultimately have members: "snd ` set ms = S" by force
  then have "forwarded t False out (map snd ms) = map snd ms"
    using S ready by (auto simp: forwarded_def filter_id_conv)
  then show ?thesis using ms(2) members by (intro exI [of _ "map snd ms"]) (simp add: wire_image_def)
qed

text \<open>C1: The whole tunnel through a Transit: a client that connects to a reachable Inport with a nonzero route
  id, whose next session is new, and writes, in any pieces, a SOCKS5 greeting, a CONNECT request and data, has
  a reachable Outport behind a Transit connect to the host and port of the request, and once that connection
  is up the target has been written exactly the data. Conditions: the Outport has never seen that session (one
  a restarted Inport numbers again is not heard), its connects start and its memory lasts; the Transit is in
  any reachable state whose tables send the route id to a connected link towards the Outport; the Inport has a
  live link, and the links accept writes, start between frames and bring everything written on them and
  nothing else, cut and interleaved as they like; the bytes make no more segments than one receive window of
  the Outport; the ingress id is not the reserved one.\<close>

theorem client_reaches_the_target_over_a_transit:
  assumes "inport_reachable env hs" and "w0 = host_world hs" and "links_ok env w0"
    and "find_session (ds_local_ingress_id (w_ds w0), ip_next_session_id (w_app w0)) w0 = None"
    and "inport_accept env now ts addr w0 = (c, w1)" and "w2 = foldl (\<lambda>w buf. client_on_read env now c buf w) w1 bufs"
    and "sent_on links (w_mgr w0) (w_mgr w2) evs" and "\<forall>s \<in> set (liveChannels (w_mgr w0)). \<exists>r. links r = Some s"
    and "k = (ds_local_ingress_id (w_ds w0), ip_next_session_id (w_app w0))"
    and "concat bufs = greeting methods @ client_request 1 a port @ data" and "length methods < 256" and "addr_ok a"
    and "transit_reachable envt cfg t" and "writes_ok envt" and "ds_route_outport_id (w_ds w0) \<noteq> 0"
    and "relays_to t (fst ` set evs) (ds_route_outport_id (w_ds w0)) out" and "t' = foldl (t_arrive envt nowt) t evs"
    and "\<forall>r. concat (on_link r evs') = (if r = r0 then concat (drop (length (ch_wire (t_heap t out))) (ch_wire (t_heap t' out))) else [])"
    and "outport_reachable env' hst" and "roomy env'" and "connects env'"
    and "never_seen k (host_world hst)" and "genuine k" and "\<forall>r. scratch_of r hst = []"
    and "length (pieces_of w0 bufs) \<le> unat (ds_recv_window (w_ds (host_world hst)))"
    and "w' = host_world (foldl (arrive env' now' (outport_ops env' now' ts')) hst evs')"
  shows "\<exists>h. relay_key h w' = k \<and> rs_remote_tcp (relay h w') \<and>
    rs_target_addr (relay h w') = addr_text a @ '':'' @ decimal (unat port) \<and>
    concat (rs_remote_out (relay h (remote_on_open env' now'' h w'))) = data"
proof -
  note wire = client_on_wire [OF assms(1-8)]
  from wire(2) obtain segs where segs: "\<forall>r. concat (on_link r evs) = wire_image (segs r)"
    "\<forall>r. set (segs r) \<subseteq> set (client_segments w0 bufs)" "\<forall>seg \<in> set (client_segments w0 bufs). \<exists>r. seg \<in> set (segs r)" by blast
  have size: "unat (ds_segment_size (w_ds w0)) \<le> MAX_PAYLOAD" using wire(1) by (simp add: can_send_defs)
  have "length (pieces_of w0 bufs) \<le> 2 ^ 32"
  proof -
    have "unat (ds_recv_window (w_ds (host_world hst))) < 2 ^ 16"
      using unsigned_less [of "ds_recv_window (w_ds (host_world hst))"] by simp
    then show ?thesis using assms(25) by simp
  qed
  then have ok: "sendable seg" if "seg \<in> set (client_segments w0 bufs)" for seg
    using client_segments_carry(1) [OF that size _ assms(9)] by (auto simp: carries_def split: prod.splits)
  have to: "route t False (fst seg) = Some out" if "seg \<in> set (client_segments w0 bufs)" for seg
    using client_segments_routed [OF that assms(15), of t] assms(16) by (simp add: relays_to_def)
  obtain ss where ss: "set ss = set (client_segments w0 bufs)"
    "concat (drop (length (ch_wire (t_heap t out))) (ch_wire (t_heap t' out))) = wire_image ss"
    using through_the_transit [OF assms(13,14,16,17) _ segs] ok to by blast
  have "\<forall>r. concat (on_link r evs') = wire_image (if r = r0 then ss else [])"
    using assms(18) ss(2) by (simp add: wire_image_def)
  moreover have "\<forall>r. set (if r = r0 then ss else []) \<subseteq> set (client_segments w0 bufs)" using ss(1) by auto
  moreover have "\<forall>seg \<in> set (client_segments w0 bufs). \<exists>r. seg \<in> set (if r = r0 then ss else [])"
    using ss(1) by (auto intro!: exI [of _ r0])
  ultimately show ?thesis
    by (rule request_served [OF wire(1) assms(9-12,19-25) _ _ _ assms(26)])
qed

text \<open>The same client, its Inport's link at link 1 of a Transit that dialed Outport 3 on link 0.\<close>

definition sample_relayed :: transit where
  "sample_relayed = foldl (t_arrive open_env 0) sample_transit (sample_uplink 1 3)"

definition sample_downlink :: "(chan_ref \<times> bytes) list" where
  "sample_downlink = [(0, concat (drop (length (ch_wire (t_heap sample_transit 0))) (ch_wire (t_heap sample_relayed 0))))]"

lemma sample_relays_to: "relays_to sample_transit {1} 3 0"
proof -
  have "t_links sample_transit = smap_set 1 \<lparr>tl_outbound = False, tl_buffer = []\<rparr> [(0, \<lparr>tl_outbound = True, tl_buffer = []\<rparr>)]"
    by (simp add: sample_transit_def t_on_open_def sample_dialed_facts accept_inport_def makeInboundChannel_def
        t_upd_chan_def createAcceptedHandler_def chan_defs markConnected_def Let_def)
  then have "smap_find (t_links sample_transit) r = (if r = 1 then Some \<lparr>tl_outbound = False, tl_buffer = []\<rparr>
      else if r = 0 then Some \<lparr>tl_outbound = True, tl_buffer = []\<rparr> else None)" for r
    by (simp add: smap_find_set) (simp add: smap_find_def)
  then have "t_scratch sample_transit r = []" for r
    by (simp add: t_scratch_def)
  then show ?thesis using sample_transit_facts(1) by (simp add: relays_to_def findOutbound_def sample_transit_facts(3,5))
      (simp add: smap_find_def)
qed

theorem client_reaches_the_target_over_a_transit_witness:
  "\<exists>h. rs_target_addr (relay h (sample_egress sample_downlink)) = ''127.0.0.1:80'' \<and>
     concat (rs_remote_out (relay h (remote_on_open open_env 1 h (sample_egress sample_downlink)))) = [42]"
proof -
  have req: "concat [sample_request] = greeting [0] @ client_request 1 (IPv4 [127, 0, 0, 1]) 80 @ [42]"
    by (simp add: sample_request_def)
  have "\<exists>h. relay_key h (sample_egress sample_downlink) = (7, 1) \<and> rs_remote_tcp (relay h (sample_egress sample_downlink)) \<and>
      rs_target_addr (relay h (sample_egress sample_downlink)) = addr_text (IPv4 [127, 0, 0, 1]) @ '':'' @ decimal (unat (80 :: u16)) \<and>
      concat (rs_remote_out (relay h (remote_on_open open_env 1 h (sample_egress sample_downlink)))) = [42]"
    by (rule client_reaches_the_target_over_a_transit [where out = 0 and ?r0.0 = 0, OF sample_ingress_facts(1) refl
          sample_ingress_facts(2,4) sample_accept _ sample_uplink_sent sample_uplink_ends _ req _ _ sample_transit_reachable writes_ok_open_env _ _ sample_relayed_def _
          sample_egress_facts(1) roomy_open_env sample_egress_facts(3,2,4,5) _ sample_egress_def])
      (simp_all add: sample_client_def sample_ingress_facts sample_request_pieces sample_egress_facts sample_relays_to
        sample_downlink_def, simp_all add: sample_uplink_def sample_relays_to [simplified])
  then show ?thesis by (auto simp: ipv4_text_def decimal.simps char_of_def bit_0)
qed

end
