(* ===== verification/Fgw_Answers.thy ===== *)
theory Fgw_Answers
  imports Fgw_Tunnel
begin

text \<open>
  The way back through a tunnel: when the connection of a relay comes up and the target answers, the SOCKS reply and
  the answer reach the client of the Inport, after what it already has.
\<close>

declare split_paired_All [simp del] split_paired_Ex [simp del]

section \<open>What a relay sends\<close>

text \<open>The reply that a CONNECT has succeeded.\<close>

definition connected_reply :: bytes where
  "connected_reply = [SOCKS5_VER, SOCKS5_REP_OK, 0x00, SOCKS5_ATYP_IPV4, 0, 0, 0, 0, 0, 0]"

lemma upd_rs_app: "upd_rs h f w = upd_app (\<lambda>op. op\<lparr>op_heap := (op_heap op)(h := f (op_heap op h))\<rparr>) w"
  by (simp add: upd_rs_def)

lemma flush_upd_app:
  "\<exists>g. rs_flush env now counted h w = upd_app g w"
proof (cases "rs_rx_buffer (relay h w) \<noteq> [] \<and> rs_remote_tcp (relay h w) \<and>
    length (rs_rx_buffer (relay h w)) \<le> e_mb_space env now (length (rs_rx_buffer (relay h w)))")
  case True
  then show ?thesis by (simp add: rs_flush_def Let_def upd_rs_app upd_app_twice relay_def) blast
next
  case False
  then show ?thesis by (simp add: rs_flush_def Let_def upd_rs_app upd_app_twice relay_def) blast
qed

lemma target_reads:
  assumes "rs_remote_tcp (relay h w)" and "rs_session_id (relay h w) = sid" and "rs_peer_ingress_id (relay h w) = key"
  shows "\<exists>g. foldl (\<lambda>w buf. remote_on_read env now h buf w) w bufs = upd_app g (send_all env now sid key bufs w)"
  using assms
proof (induction bufs arbitrary: w)
  case Nil
  show ?case by (intro exI [of _ id]) (simp add: send_all_def upd_app_def)
next
  case (Cons b bufs)
  define f where "f = (\<lambda>s :: FgwRelaySession. s\<lparr>rs_bytes_recv := rs_bytes_recv s + of_nat (length b)\<rparr>)"
  define g where "g = (\<lambda>op :: outport. op\<lparr>op_heap := (op_heap op)(h := f (op_heap op h))\<rparr>)"
  let ?w1 = "snd (sendSessionData env now sid b key w)"
  have read: "remote_on_read env now h b w = upd_app g ?w1"
    using Cons.prems
    by (simp add: remote_on_read_def rs_onRemoteBytes_def rs_sendToPeer_def f_def [symmetric])
      (simp add: upd_rs_app g_def f_def sendSessionData_upd_app)
  have "upd_app g ?w1 = upd_rs h f ?w1" by (simp add: upd_rs_app g_def)
  then have "rs_remote_tcp (relay h (upd_app g ?w1))" "rs_session_id (relay h (upd_app g ?w1)) = sid"
    "rs_peer_ingress_id (relay h (upd_app g ?w1)) = key"
    using Cons.prems by (simp_all add: f_def)
  from Cons.IH [OF this] obtain g' where "foldl (\<lambda>w buf. remote_on_read env now h buf w) (upd_app g ?w1) bufs =
     upd_app g' (send_all env now sid key bufs (upd_app g ?w1))" by blast
  then show ?case
    by (intro exI [of _ "g' \<circ> g"]) (simp add: read send_all_upd_app upd_app_twice, simp add: send_all_def)
qed

lemma target_answers:
  assumes "rs_remote_tcp (relay h w)" and "k = relay_key h w"
  shows "\<exists>g. foldl (\<lambda>w buf. remote_on_read env now h buf w) (remote_on_open env now h w) bufs =
    upd_app g (send_all env now (snd k) (fst k) (connected_reply # bufs) w)"
proof -
  let ?w1 = "snd (sendSessionData env now (snd k) connected_reply (fst k) w)"
  let ?w2 = "upd_rs h (\<lambda>s. s\<lparr>rs_state := ST_RELAYING\<rparr>) ?w1"
  have opened: "remote_on_open env now h w = rs_flush env now False h ?w2"
    using assms by (simp add: remote_on_open_def rs_onRemoteOpen_def rs_writeReply_def rs_sendToPeer_def relay_key_def
        connected_reply_def Let_def)
  obtain g where g: "rs_flush env now False h ?w2 = upd_app g ?w1"
    using flush_upd_app [of env now False h ?w2] by (auto simp: upd_rs_app upd_app_twice)
  have "rs_remote_tcp (relay h (upd_app g ?w1))" "rs_session_id (relay h (upd_app g ?w1)) = snd k"
    "rs_peer_ingress_id (relay h (upd_app g ?w1)) = fst k"
    unfolding g [symmetric] using assms by (simp_all add: rs_flush_def Let_def relay_key_def)
  from target_reads [OF this] obtain g' where
    "foldl (\<lambda>w buf. remote_on_read env now h buf w) (upd_app g ?w1) bufs =
     upd_app g' (send_all env now (snd k) (fst k) bufs (upd_app g ?w1))" by blast
  then show ?thesis
    by (intro exI [of _ "g' \<circ> g"]) (simp add: opened g send_all_upd_app upd_app_twice, simp add: send_all_def)
qed

lemma relay_can_send:
  assumes "outport_reachable env hs" and "links_ok env (host_world hs)"
  shows "can_send env (host_world hs)"
proof -
  have roomy: "roomy env" using assms(2) by (simp add: links_ok_def writes_ok_def roomy_def)
  then have "mgr_inv (w_mgr (host_world hs))" using outport_reachable_inv [OF assms(1)] by (simp add: outport_inv_def outport_core_def)
  then show ?thesis using outport_sized [OF assms(1)] assms(2) by (simp add: can_send_def)
qed

text \<open>C3: The way back through a tunnel: when the connection of a relay of a reachable Outport comes up and the
  target answers in any pieces, the SOCKS reply for success and the answer are appended, whole and in order,
  to what the client of the Inport already has; the Inport then waits for the next number of the session.
  Conditions: the relay's session is there and open under an ingress id that is not the reserved one; the
  Inport is reachable, waits for exactly the number the relay sends next, is between frames on every link, and
  its memory lasts; the Outport has a live link, and the links accept writes, all lead to the Inport and bring
  everything written on them and nothing else, duplicated, cut and reordered between links; reply and answer
  make no more segments than one receive window of the Inport and stay below the 32-bit wrap.\<close>

theorem answers_reach_the_client:
  assumes "outport_reachable env hs" and "w0 = host_world hs" and "links_ok env w0"
    and "rs_remote_tcp (relay h w0)" and "k = relay_key h w0" and "genuine k"
    and "find_session k w0 = Some st" and "\<not> st_closed st"
    and "w1 = foldl (\<lambda>w buf. remote_on_read env now h buf w) (remote_on_open env now h w0) bufs"
    and "sent_on links (w_mgr w0) (w_mgr w1) evs" and "\<forall>s \<in> set (liveChannels (w_mgr w0)). \<exists>r. links r = Some s"
    and "inport_reachable env' hst" and "roomy env'"
    and "awaiting (st_next_send_seq st) (st_wire_ingress_id st, snd k) c (host_world hst)" and "\<forall>r. scratch_of r hst = []"
    and "n = length (pieces_of w0 (connected_reply # bufs))" and "n \<le> unat (ds_recv_window (w_ds (host_world hst)))"
    and "unat (st_next_send_seq st) + n + unat (ds_recv_window (w_ds (host_world hst))) \<le> 2 ^ 32"
    and "hst' = foldl (arrive env' now' (inport_ops env' now')) hst evs"
  shows "concat (fs_client_out (ip_heap (w_app (host_world hst')) c)) =
      concat (fs_client_out (ip_heap (w_app (host_world hst)) c)) @ connected_reply @ concat bufs \<and>
    awaiting (st_next_send_seq st + of_nat n) (st_wire_ingress_id st, snd k) c (host_world hst')"
proof -
  have res: "resolveIngressKey (w_ds w0) (fst k) = fst k"
    using assms(6) by (simp add: resolveIngressKey_def genuine_def)
  then have found: "find_session (resolveIngressKey (w_ds w0) (fst k), snd k) w0 = Some st" using assms(7) by simp
  have "can_send env w0" using relay_can_send [OF assms(1)] assms(2,3) by blast
  then have ok: "sender_ok env (snd k) (fst k) w0"
    using found assms(8) by (simp add: sender_ok_def can_send_defs)
  obtain g where "w1 = upd_app g (send_all env now (snd k) (fst k) (connected_reply # bufs) w0)"
    using target_answers [OF assms(4,5)] unfolding assms(9) by blast
  then have "sent_on links (w_mgr w0) (w_mgr (send_all env now (snd k) (fst k) (connected_reply # bufs) w0)) evs"
    using assms(10) by simp
  from sent_reaches_client [OF ok found this assms(12-15) assms(18) [unfolded assms(16)] assms(17) [unfolded assms(16)] assms(11,19)]
  show ?thesis by (simp add: assms(16))
qed

section \<open>An answer\<close>

text \<open>The Outport of the earlier example, whose relay connects: it answered the greeting with the first number.\<close>

lemma sample_connecting_session:
  "\<exists>st. find_session (7, 1) (host_world sample_connecting) = Some st \<and> \<not> st_closed st \<and> st_next_send_seq st = 1 \<and>
     st_wire_ingress_id st = 7"
  "relay_key 0 (host_world sample_connecting) = (7, 1)" "liveChannels (w_mgr (host_world sample_connecting)) = [0]"
  "ds_segment_size (w_ds (host_world sample_connecting)) = 1200"
proof -
  define req where "req = (\<lambda>s :: FgwRelaySession. s\<lparr>rs_rx_buffer := [42], rs_target_addr := addr_text (IPv4 [127, 0, 0, 1]) @ '':'' @ decimal (unat (80 :: u16)),
                    rs_state := ST_CONNECTING, rs_remote_tcp := True\<rparr>)"
  from sample_first_arrives obtain w0 n where w0: "host_world sample_connecting = feedRx open_env 0 0 sample_request w0"
    "relay 0 w0 = new_FgwRelaySession 7 1 0"
    "find_session (7, 1) w0 = Some (SessionState_init\<lparr>st_session_id := 1, st_wire_ingress_id := 7, st_handler := Some 0,
       st_expected_rx_seq := 1\<rparr>)"
    "w_mgr w0 = upd_chan 0 noteSegmentRecv (upd_chan 0 (addRecvBytes 0 n) (w_mgr (host_world sample_outport)))"
    "ds_setup (w_ds w0) = ds_setup (w_ds (host_world sample_outport))" by blast
  have "rs_state (relay 0 w0) = ST_AWAIT_METHODS" "rs_rx_buffer (relay 0 w0) = []"
    by (simp_all add: w0(2) new_FgwRelaySession_def)
  then have run: "host_world sample_connecting = upd_rs 0 req (rs_sendToPeer open_env 0 0 [5, 0] w0)"
    using handshake [of 0 w0 "[0]" "IPv4 [127, 0, 0, 1]" "[sample_request]" 80 "[42]" open_env 0]
    by (simp add: w0(1) sample_request_def req_def) (simp add: open_env_def)
  have to_peer: "rs_sendToPeer open_env 0 0 [5, 0] w0 = snd (sendSessionData open_env 0 1 [5, 0] 7 w0)"
    by (simp add: rs_sendToPeer_def w0(2) new_FgwRelaySession_def)
  have size: "ds_segment_size (w_ds w0) = 1200"
    using w0(5) by (simp add: ds_setup_def sample_outport_def outport_boot_def new_DataStream_def MAX_PAYLOAD_def)
  have boot: "liveChannels (w_mgr (host_world sample_outport)) = [0]"
    using sample_manager_live by (simp add: sample_outport_def outport_boot_def new_DataStream_def liveChannels_def addBytesSubscriber_def)
  have "isLive (m_heap (w_mgr (host_world sample_outport)) 0)" using boot by (auto simp: liveChannels_def filter_eq_Cons_iff)
  then have "isLive (m_heap (w_mgr w0) r) = isLive (m_heap (w_mgr (host_world sample_outport)) r)" for r
    by (cases "r = 0") (auto simp: w0(4) isLive_def noteSegmentRecv_def addRecvBytes_def)
  then have live: "liveChannels (w_mgr w0) = [0]"
    using boot by (simp add: liveChannels_def) (simp add: w0(4))
  have res: "resolveIngressKey (w_ds w0) 7 = 7" by (simp add: resolveIngressKey_def kFgwWireIngressUseLocal_def)
  have "mgr_inv (w_mgr (host_world sample_outport))"
    using relay_can_send [OF sample_egress_facts(1)] boot by (simp add: can_send_def links_ok_def sort_ok_open_env writes_ok_open_env)
  then have "mgr_inv (w_mgr w0)"
    unfolding w0(4) using chan_inv_ops(5) by (intro mgr_inv_segment_recv mgr_inv_upd) (auto simp: mgr_inv_def addRecvBytes_def)
  then have ok: "sender_ok open_env 1 7 w0"
    using w0(3) live size by (simp add: sender_ok_def sort_ok_open_env writes_ok_open_env res MAX_PAYLOAD_def SessionState_init_def)
  have cut: "cut 1200 [5, 0 :: byte] = [[5, 0]]" by (simp add: cut.simps)
  have "find_session (resolveIngressKey (w_ds w0) 7, 1) w0 = Some (SessionState_init\<lparr>st_session_id := 1,
      st_wire_ingress_id := 7, st_handler := Some 0, st_expected_rx_seq := 1\<rparr>)" using w0(3) by (simp add: res)
  from sendSessionData_spec [OF ok this refl, of 0 "[5, 0]"] obtain T w' where
    w': "sendSessionData open_env 0 1 [5, 0] 7 w0 = (2, w')" "mgr_frame (w_mgr w0) (w_mgr w')"
    "find_session (7, 1) w' = Some (SessionState_init\<lparr>st_session_id := 1, st_wire_ingress_id := 7, st_handler := Some 0,
       st_expected_rx_seq := 1, st_next_send_seq := 1\<rparr>)" "ds_rest (w_ds w') = ds_rest (w_ds w0)"
    by (auto simp: res size cut carried_def SessionState_init_def)
  have final: "host_world sample_connecting = upd_rs 0 req w'" unfolding run to_peer w'(1) by simp
  show "\<exists>st. find_session (7, 1) (host_world sample_connecting) = Some st \<and> \<not> st_closed st \<and> st_next_send_seq st = 1 \<and>
     st_wire_ingress_id st = 7"
    unfolding final by (simp add: w'(3)) (simp add: SessionState_init_def)
  have "relay 0 w' = relay 0 w0" using relay_stream(1) [of 0 open_env 0 1 "[5, 0]" 7 w0] by (simp add: w'(1))
  then show "relay_key 0 (host_world sample_connecting) = (7, 1)"
    unfolding final by (simp add: relay_key_def req_def w0(2) new_FgwRelaySession_def)
  show "liveChannels (w_mgr (host_world sample_connecting)) = [0]"
    unfolding final using mgr_frame_live [OF w'(2)] live by simp
  show "ds_segment_size (w_ds (host_world sample_connecting)) = 1200"
    unfolding final using ds_rest_fields(6) [OF w'(4)] size by simp
qed

text \<open>An Inport that has got the answer to the greeting.\<close>

definition sample_welcome :: "(FgwSegmentHeader \<times> bytes) list" where
  "sample_welcome = data_segments sample_stream 7 1 0 [[5, 0]]"

definition sample_greeted :: "inport host" where
  "sample_greeted = tcp_on_read_data open_env 0 (inport_ops open_env 0) 0 0 (wire_image sample_welcome)
     \<lparr>host_scratch = [], host_world = sample_receiver\<rparr>"

lemma read_arrives:
  assumes "ch_tcp_ptr (m_heap (w_mgr (host_world hst)) r) = Some sock"
    and "m_bytes_subscribers (w_mgr (host_world hst)) = [ds_self (w_ds (host_world hst))]"
  shows "tcp_on_read_data env now H r sock buf hst =
    arrive env now H (hst\<lparr>host_world := upd_mgr (upd_chan r (addRecvBytes now (of_nat (length buf)))) (host_world hst)\<rparr>) (r, buf)"
  using assms by (simp add: tcp_on_read_data_def dispatchChannelBytes_def arrive_def upd_chan_def)

lemma sample_receiver_links:
  "ch_tcp_ptr (m_heap (w_mgr sample_receiver) 0) = Some 0" "m_bytes_subscribers (w_mgr sample_receiver) = [ds_self (w_ds sample_receiver)]"
proof -
  have boot: "sample_ingress 0 = \<lparr>host_scratch = [], host_world = sample_world\<rparr>"
    by (simp add: sample_ingress_def inport_boot_def sample_world_def sample_stream_def split: prod.split)
  note facts = sample_ingress_facts [where route = 0, unfolded boot host.simps]
  have send: "can_send open_env sample_world" using reachable_can_send [OF facts(1)] facts(2) by simp
  obtain h where acc: "inport_accept open_env 0 0 ''client'' sample_world = (h, sample_receiver)"
    by (metis sample_receiver_def prod.collapse)
  from accept_spec [OF send facts(4) acc] have fr: "mgr_frame (w_mgr sample_world) (w_mgr sample_receiver)"
    and rest: "ds_rest (w_ds sample_receiver) = ds_rest (w_ds sample_world)" by (auto simp: copies_def)
  have "ds_self (w_ds sample_receiver) = 0"
    using arg_cong [OF rest, of ds_self]
    by (simp add: ds_rest_def sample_stream_def new_DataStream_def)
  with fr show "ch_tcp_ptr (m_heap (w_mgr sample_receiver) 0) = Some 0"
    "m_bytes_subscribers (w_mgr sample_receiver) = [ds_self (w_ds sample_receiver)]"
    using same_identity_fields(10) [of "m_heap (w_mgr sample_receiver) 0" "m_heap (w_mgr sample_world) 0"]
    by (auto simp: mgr_frame_def sample_world_def sample_stream_def new_DataStream_def addBytesSubscriber_def
        sample_subscribers sample_manager_facts)
qed

lemma sample_greeted_facts:
  "inport_reachable open_env sample_greeted" "awaiting 1 (7, 1) 0 (host_world sample_greeted)"
  "\<forall>r. scratch_of r sample_greeted = []" "ds_recv_window (w_ds (host_world sample_greeted)) = 16"
  "concat (fs_client_out (ip_heap (w_app (host_world sample_greeted)) 0)) = [5, 0]"
proof -
  show reach: "inport_reachable open_env sample_greeted"
    unfolding sample_greeted_def by (rule inport_reachable.step [OF sample_receiver_reachable inport_step.link_bytes])
  define w where "w = upd_mgr (upd_chan 0 (addRecvBytes 0 (of_nat (length (wire_image sample_welcome))))) sample_receiver"
  let ?hst = "\<lparr>host_scratch = [], host_world = w\<rparr>" and ?segs = "\<lambda>r. if r = 0 then sample_welcome else []"
  let ?f = "stream_from [] 0 [[5, 0 :: byte]]"
  have "sample_greeted = foldl (arrive open_env 0 (inport_ops open_env 0)) ?hst [(0, wire_image sample_welcome)]"
    using read_arrives [of "\<lparr>host_scratch = [], host_world = sample_receiver\<rparr>" 0 0] sample_receiver_links
    by (simp add: sample_greeted_def w_def)
  note run = this
  have wait: "awaiting 0 (7, 1) 0 w" "delivered 0 (w_trace w) = []" "ds_recv_window (w_ds w) = 16"
    using sample_receiver_awaiting by (simp_all add: w_def awaiting_def sample_receiver_stream)
  have wired: "wired_to inport_owns w"
    using inport_reachable_inv [OF sample_receiver_reachable roomy_open_env]
    by (simp add: inport_run.gate_inv_def inport.stream_inv_def w_def wired_to_def inport_owns_def)
  note inv = inport.awaiting_inv [OF wired TrueI wait(1), where N = 1 and f = ?f]
  have carry: "\<forall>r. \<forall>seg \<in> set (?segs r). carries (7, 1) ?f 1 seg"
    using data_segments_carry [of _ sample_stream 7 1 0 "[[5, 0]]" "[]"] by (simp add: sample_welcome_def MAX_PAYLOAD_def)
  have bytes: "\<forall>r. concat (on_link r [(0, wire_image sample_welcome)]) = wire_image (?segs r)" by (simp add: wire_image_def)
  have room: "\<forall>m. m \<le> e_mb_space open_env 0 m" by (simp add: open_env_def)
  have brings: "brings (7, 1) (of_nat 0) (hd sample_welcome)"
    using data_segments_bring [of 0 "[[5, 0 :: byte]]" 7 1 0 sample_stream] by (simp add: sample_welcome_def)
  have fresh: "\<forall>r. scratch_of r ?hst = []" by (simp add: scratch_of_def)
  note arr = inport.arrivals [where hst = ?hst and n = 0 and N = 1 and f = ?f and k = "(7, 1)" and h = 0, OF _ carry bytes fresh]
  have whole: "inport.recv_inv (7, 1) 0 ?f 1 1 (host_world sample_greeted) \<and> inport.covered (7, 1) 1 (host_world sample_greeted)"
    unfolding run by (rule arr(2)) (use inv room wait brings in \<open>auto simp: sample_welcome_def\<close>)
  show "\<forall>r. scratch_of r sample_greeted = []"
    unfolding run by (rule arr(4)) (use inv wait in \<open>simp_all add: scratch_of_def\<close>)
  show wait': "awaiting 1 (7, 1) 0 (host_world sample_greeted)"
    using inport.all_awaiting [of "(7, 1)" 0 ?f 1] whole by simp
  have "sendable (hd sample_welcome)" by (simp add: sample_welcome_def sendable_def MAX_PAYLOAD_def)
  then have "frame_loop step (wire_image sample_welcome) v = ([], step_segment step v (hd sample_welcome))" for step and v :: "inport world"
    using frame_loop_images [of sample_welcome "[]" step v] scan_frame_Nil by (simp add: sample_welcome_def)
  then have "host_world sample_greeted = receive open_env 0 (inport_ops open_env 0) w (0, hd sample_welcome)"
    by (simp add: run arrive_def onChannelBytes_def scratch_of_def receive_def)
  then show "ds_recv_window (w_ds (host_world sample_greeted)) = 16"
    using inport.process_segment_wired(2) [OF wired] wait(3) by (simp add: receive_def step_segment_def case_prod_beta)
  show "concat (fs_client_out (ip_heap (w_app (host_world sample_greeted)) 0)) = [5, 0]"
    using client_holds_waiting [OF reach roomy_open_env wait'] whole by (simp add: inport.recv_inv_def)
qed

definition sample_answered :: "outport world" where
  "sample_answered = foldl (\<lambda>w buf. remote_on_read open_env 1 0 buf w)
     (remote_on_open open_env 1 0 (host_world sample_connecting)) [[72, 105]]"

definition sample_answer :: "(chan_ref \<times> bytes) list" where
  "sample_answer = [(0, concat (drop (length (ch_wire (m_heap (w_mgr (host_world sample_connecting)) 0)))
     (ch_wire (m_heap (w_mgr sample_answered) 0))))]"

theorem answers_reach_the_client_witness:
  "concat (fs_client_out (ip_heap (w_app (host_world (foldl (arrive open_env 0 (inport_ops open_env 0)) sample_greeted sample_answer))) 0)) =
     [5, 0] @ [5, 0, 0, 1, 0, 0, 0, 0, 0, 0] @ [72, 105]"
proof -
  obtain st where st: "find_session (7, 1) (host_world sample_connecting) = Some st" "\<not> st_closed st" "st_next_send_seq st = 1"
    "st_wire_ingress_id st = 7" using sample_connecting_session(1) by blast
  note c = sample_connecting_session(2-4)
  have reach: "outport_reachable open_env sample_connecting"
    unfolding sample_connecting_def by (rule outport_reachable.step [OF sample_egress_facts(1) outport_step.link_bytes])
  have links: "links_ok open_env (host_world sample_connecting)"
    using c(2) by (simp add: links_ok_def sort_ok_open_env writes_ok_open_env)
  have sent: "sent_on (\<lambda>r. if r = 0 then Some 0 else None) (w_mgr (host_world sample_connecting)) (w_mgr sample_answered) sample_answer"
    by (simp add: sent_on_def written_on_def sample_answer_def)
  have cut: "cut 1200 b = [b]" if "b \<noteq> []" "length b \<le> 1200" for b :: bytes using that by (simp add: cut.simps)
  have n: "2 = length (pieces_of (host_world sample_connecting) (connected_reply # [[72, 105]]))"
    using cut [of connected_reply] by (simp add: pieces_of_def c(3) cut connected_reply_def)
  have "concat (fs_client_out (ip_heap (w_app (host_world (foldl (arrive open_env 0 (inport_ops open_env 0)) sample_greeted sample_answer))) 0)) =
      concat (fs_client_out (ip_heap (w_app (host_world sample_greeted)) 0)) @ connected_reply @ concat [[72, 105]] \<and>
    awaiting (st_next_send_seq st + of_nat 2) (st_wire_ingress_id st, snd (7 :: u32, 1 :: u32)) 0
      (host_world (foldl (arrive open_env 0 (inport_ops open_env 0)) sample_greeted sample_answer))"
    by (rule answers_reach_the_client [OF reach refl links sample_connecting_facts(3) c(1) [symmetric] sample_egress_facts(4) st(1,2)
          sample_answered_def sent _ sample_greeted_facts(1) roomy_open_env _ sample_greeted_facts(3) n _ _ refl])
      (simp_all add: st c sample_greeted_facts)
  then show ?thesis by (simp add: sample_greeted_facts connected_reply_def socks_defs)
qed

end
