(* ===== verification/Fgw_Reassembly.thy ===== *)
theory Fgw_Reassembly
  imports Fgw_EndToEnd
begin

text \<open>
  What the receiving side of a session promises, as an abstract machine: a number, a map of pending
  pieces, and the bytes given out so far. A piece offered within the window is kept, and whatever has
  become contiguous is given out. \<^verbatim>\<open>DataStream\<close> refines it: headers, flags, links, dedup table, ordered
  buffer and modular window are all abstracted away.
\<close>

declare split_paired_All [simp del] split_paired_Ex [simp del]

section \<open>The abstract machine\<close>

record reassembly =
  ra_next :: nat
  ra_pending :: "nat \<Rightarrow> bytes option"
  ra_out :: bytes

fun ra_run :: "(nat \<Rightarrow> bytes option) \<Rightarrow> nat \<Rightarrow> nat \<Rightarrow> bytes list" where
  "ra_run m n 0 = []"
| "ra_run m n (Suc fuel) = (case m n of None \<Rightarrow> [] | Some p \<Rightarrow> p # ra_run m (Suc n) fuel)"

definition ra_settle :: "nat \<Rightarrow> reassembly \<Rightarrow> reassembly" where
  "ra_settle win a =
     (let ps = ra_run (ra_pending a) (ra_next a) win; n = ra_next a + length ps
      in \<lparr>ra_next = n, ra_pending = (\<lambda>i. if i < n then None else ra_pending a i), ra_out = ra_out a @ concat ps\<rparr>)"

definition ra_offer :: "nat \<Rightarrow> nat \<Rightarrow> bytes \<Rightarrow> reassembly \<Rightarrow> reassembly" where
  "ra_offer win s p a =
     (if s < ra_next a \<or> ra_next a + win \<le> s \<or> ra_pending a s \<noteq> None then a
      else ra_settle win (a\<lparr>ra_pending := (ra_pending a)(s \<mapsto> p)\<rparr>))"

definition ra_start :: "nat \<Rightarrow> bytes \<Rightarrow> reassembly" where
  "ra_start n out = \<lparr>ra_next = n, ra_pending = (\<lambda>_. None), ra_out = out\<rparr>"

text \<open>The abstract machine gives out a stream in order: if every piece offered is the one of its number, the bytes
  are those of the first \<open>ra_next\<close> pieces.\<close>

lemma ra_run_stream: "\<forall>i q. m i = Some q \<longrightarrow> q = f i \<Longrightarrow> \<exists>j. ra_run m n win = map f [n..<j] \<and> n \<le> j"
proof (induction win arbitrary: n)
  case 0
  then show ?case by (intro exI [of _ n]) simp
next
  case (Suc win)
  show ?case
  proof (cases "m n")
    case None
    then show ?thesis by (intro exI [of _ n]) simp
  next
    case (Some p)
    from Suc.IH [OF Suc.prems, of "Suc n"] obtain j where "ra_run m (Suc n) win = map f [Suc n..<j]" "Suc n \<le> j" by blast
    then show ?thesis using Some Suc.prems by (intro exI [of _ j]) (simp add: upt_conv_Cons)
  qed
qed

lemma ra_run_cong: "(\<And>i. n \<le> i \<Longrightarrow> i < n + L \<Longrightarrow> m i = m' i) \<Longrightarrow> ra_run m n L = ra_run m' n L"
proof (induction L arbitrary: n)
  case (Suc L)
  have "m n = m' n" using Suc.prems [of n] by simp
  moreover have "ra_run m (Suc n) L = ra_run m' (Suc n) L" using Suc.prems by (intro Suc.IH) simp
  ultimately show ?case by (simp split: option.split)
qed simp

lemma length_ra_run: "length (ra_run m n L) \<le> L"
  by (induction L arbitrary: n) (auto split: option.split)

lemma ra_run_stops: "length (ra_run m n L) < L \<Longrightarrow> m (n + length (ra_run m n L)) = None"
proof (induction L arbitrary: n)
  case (Suc L)
  then show ?case using Suc.IH [of "Suc n"] by (auto split: option.split option.splits)
qed simp

lemma ra_run_found: "i < length (ra_run m n L) \<Longrightarrow> m (n + i) \<noteq> None"
proof (induction L arbitrary: n i)
  case (Suc L)
  then show ?case using Suc.IH [of "i - 1" "Suc n"] by (cases i) (auto split: option.splits)
qed simp

text \<open>The numbers in play stay clear of the wrap, and nothing pending is due.\<close>

definition ra_room :: "nat \<Rightarrow> reassembly \<Rightarrow> bool" where
  "ra_room win a \<longleftrightarrow> ra_next a + win < 2 ^ 32 \<and> (\<forall>i. ra_pending a i \<noteq> None \<longrightarrow>
     ra_next a < i \<and> i < ra_next a + win \<and> i + 1 + win < 2 ^ 32)"

lemma ra_settle_idle:
  assumes "ra_room win a"
  shows "ra_settle win a = a"
proof -
  have none: "ra_pending a i = None" if "i \<le> ra_next a" for i
    using assms that unfolding ra_room_def by (metis not_le)
  then have "ra_run (ra_pending a) (ra_next a) win = []" by (cases win) simp_all
  moreover have "(\<lambda>i. if i < ra_next a then None else ra_pending a i) = ra_pending a" using none by auto
  ultimately show ?thesis by (simp add: ra_settle_def Let_def)
qed

lemma ra_room_settle:
  assumes "ra_next a + win < 2 ^ 32" and m: "\<And>i. ra_pending a i \<noteq> None \<Longrightarrow>
      ra_next a \<le> i \<and> i < ra_next a + win \<and> i + 1 + win < 2 ^ 32"
  shows "ra_room win (ra_settle win a)"
proof -
  define L where "L = length (ra_run (ra_pending a) (ra_next a) win)"
  have "ra_next a + L + win < 2 ^ 32"
  proof (cases L)
    case (Suc l)
    then have "ra_pending a (ra_next a + l) \<noteq> None" by (intro ra_run_found [of _ _ _ win]) (simp add: L_def)
    with m Suc show ?thesis by fastforce
  qed (use assms(1) in simp)
  moreover have "ra_next a + L < i \<and> i < ra_next a + L + win \<and> i + 1 + win < 2 ^ 32"
    if i: "ra_pending a i \<noteq> None" "ra_next a + L \<le> i" for i
  proof -
    have "L < win" using m [OF i(1)] i(2) by simp
    then have "ra_pending a (ra_next a + L) = None" using ra_run_stops [of "ra_pending a" "ra_next a" win] by (simp add: L_def)
    then have "i \<noteq> ra_next a + L" using i(1) by auto
    then show ?thesis using m [OF i(1)] i(2) by simp
  qed
  ultimately show ?thesis
    by (simp add: ra_room_def ra_settle_def Let_def L_def not_less)
qed

lemma ra_room_offer:
  assumes room: "ra_room win a" and s: "s + 1 + win < 2 ^ 32"
  shows "ra_room win (ra_offer win s p a)"
proof (cases "s < ra_next a \<or> ra_next a + win \<le> s \<or> ra_pending a s \<noteq> None")
  case False
  then show ?thesis
    unfolding ra_offer_def if_not_P [OF False] using room s by (intro ra_room_settle) (auto simp: ra_room_def split: if_splits)
qed (use room in \<open>simp add: ra_offer_def\<close>)

lemma ra_offer_kept:
  assumes "s < ra_next a \<or> ra_pending a s \<noteq> None \<or> s = t \<and> ra_next a \<le> t \<and> t < ra_next a + win"
  shows "s < ra_next (ra_offer win t p a) \<or> ra_pending (ra_offer win t p a) s \<noteq> None"
  using assms by (auto simp: ra_offer_def ra_settle_def Let_def)
lemma ra_settle_stream:
  assumes "\<forall>i q. ra_pending a i = Some q \<longrightarrow> q = f i" and "ra_out a = concat (map f [0..<ra_next a])"
  shows "ra_out (ra_settle win a) = concat (map f [0..<ra_next (ra_settle win a)])"
    and "\<forall>i q. ra_pending (ra_settle win a) i = Some q \<longrightarrow> q = f i"
proof -
  from ra_run_stream [OF assms(1), where n = "ra_next a" and win = win] obtain j where
    j: "ra_run (ra_pending a) (ra_next a) win = map f [ra_next a..<j]" "ra_next a \<le> j" by blast
  have "concat (map f [0..<ra_next a]) @ concat (map f [ra_next a..<j]) = concat (map f [0..<j])"
    using j(2) by (metis le_add_diff_inverse map_append upt_add_eq_append zero_le concat_append)
  then show "ra_out (ra_settle win a) = concat (map f [0..<ra_next (ra_settle win a)])"
    using j assms(2) by (simp add: ra_settle_def Let_def)
  show "\<forall>i q. ra_pending (ra_settle win a) i = Some q \<longrightarrow> q = f i"
    using assms(1) by (simp add: ra_settle_def Let_def)
qed

lemma ra_offer_stream:
  assumes "\<forall>i q. ra_pending a i = Some q \<longrightarrow> q = f i" and "ra_out a = concat (map f [0..<ra_next a])" and "p = f s"
  shows "ra_out (ra_offer win s p a) = concat (map f [0..<ra_next (ra_offer win s p a)])"
    and "\<forall>i q. ra_pending (ra_offer win s p a) i = Some q \<longrightarrow> q = f i"
proof -
  let ?a = "a\<lparr>ra_pending := (ra_pending a)(s \<mapsto> p)\<rparr>"
  have "\<forall>i q. ra_pending ?a i = Some q \<longrightarrow> q = f i" "ra_out ?a = concat (map f [0..<ra_next ?a])"
    using assms by simp_all
  note settled = ra_settle_stream [OF this, of win]
  have "ra_offer win s p a = a \<or> ra_offer win s p a = ra_settle win ?a" by (simp add: ra_offer_def)
  then show "ra_out (ra_offer win s p a) = concat (map f [0..<ra_next (ra_offer win s p a)])"
    "\<forall>i q. ra_pending (ra_offer win s p a) i = Some q \<longrightarrow> q = f i"
    using settled assms(1,2) by metis+
qed

section \<open>The ordered buffer is the map\<close>

definition buffer_map :: "(u32, bytes) std_map \<Rightarrow> nat \<Rightarrow> bytes option" where
  "buffer_map m i = (if i < 2 ^ 32 then smap_find m (of_nat i) else None)"

lemma buffer_map_Nil [simp]: "buffer_map [] = (\<lambda>_. None)"
  by (rule ext) (simp add: buffer_map_def)

lemma buffer_map_unat [simp]: "buffer_map m (unat s) = smap_find m s"
proof -
  have "unat s < 2 ^ LENGTH(32)" by (rule unsigned_less)
  then show ?thesis by (simp add: buffer_map_def)
qed

lemma buffer_map_Some: "buffer_map m i = Some p \<longleftrightarrow> (\<exists>s. unat s = i \<and> smap_find m s = Some p)"
proof
  assume "buffer_map m i = Some p"
  then show "\<exists>s. unat s = i \<and> smap_find m s = Some p"
    by (intro exI [of _ "of_nat i"]) (auto simp: buffer_map_def unat_of_nat split: if_splits)
qed auto

lemma buffer_map_emplace:
  assumes "smap_find m s = None"
  shows "buffer_map (smap_emplace s p m) = (buffer_map m)(unat s \<mapsto> p)"
proof
  fix i
  have lt: "unat s < 2 ^ LENGTH(32)" by (rule unsigned_less)
  have "smap_emplace s p m = smap_set s p m" using assms by (simp add: smap_emplace_def)
  moreover have "i < 2 ^ 32 \<Longrightarrow> of_nat i = s \<longleftrightarrow> i = unat s" by (auto simp: unat_of_nat)
  ultimately show "buffer_map (smap_emplace s p m) i = ((buffer_map m)(unat s \<mapsto> p)) i"
    using lt by (cases "i < 2 ^ 32") (auto simp: buffer_map_def smap_find_set)
qed

lemma collect_ready_is_run:
  assumes "smap_inv m" and "\<forall>x \<in> fst ` set m. unat e \<le> unat x \<and> unat x < unat e + L" and "unat e + L < 2 ^ 32"
  shows "\<exists>m' e'. collect_ready m e = (ra_run (buffer_map m) (unat e) L, m', e') \<and>
    unat e' = unat e + length (ra_run (buffer_map m) (unat e) L) \<and> smap_inv m' \<and>
    (\<forall>x. smap_find m' x = (if unat x < unat e' then None else smap_find m x))"
  using assms
proof (induction m e arbitrary: L rule: collect_ready.induct)
  case (1 e)
  have "ra_run (buffer_map []) (unat e) L = []" by (cases L) simp_all
  then show ?case by simp
next
  case (2 s p m e)
  show ?case
  proof (cases "s = e")
    case False
    have keys: "\<forall>x \<in> fst ` set ((s, p) # m). unat e < unat x"
    proof
      fix x assume x: "x \<in> fst ` set ((s, p) # m)"
      have "unat e \<le> unat s" "unat s \<noteq> unat e" using 2 False by (auto simp: word_unat_eq_iff)
      moreover have "s \<le> x" using x 2 by (auto simp: smap_inv_Cons)
      ultimately show "unat e < unat x" by (simp add: word_le_nat_alt)
    qed
    then have none: "smap_find ((s, p) # m) x = None" if "unat x \<le> unat e" for x
      using that unfolding smap_find_None_iff by force
    have "ra_run (buffer_map ((s, p) # m)) (unat e) L = []" using none [of e] by (cases L) simp_all
    then show ?thesis using False 2 none by simp
  next
    case True
    obtain L' where L: "L = Suc L'" using 2 True by (cases L) auto
    have e1: "unat (e + 1) = Suc (unat e)" using 2 L by (simp add: unat_word_ariths)
    have gt: "\<forall>x \<in> fst ` set m. Suc (unat e) \<le> unat x"
      using 2 True by (auto simp: smap_inv_Cons word_less_nat_alt)
    have pre: "smap_inv m" "\<forall>x \<in> fst ` set m. unat (e + 1) \<le> unat x \<and> unat x < unat (e + 1) + L'" "unat (e + 1) + L' < 2 ^ 32"
      using 2 gt L e1 by (auto simp: smap_inv_Cons)
    from "2.IH" [OF _ pre] True obtain m' e' where
      r: "collect_ready m (e + 1) = (ra_run (buffer_map m) (unat (e + 1)) L', m', e')"
        "unat e' = unat (e + 1) + length (ra_run (buffer_map m) (unat (e + 1)) L')" "smap_inv m'"
        "\<forall>x. smap_find m' x = (if unat x < unat e' then None else smap_find m x)" by blast
    have find: "smap_find ((s, p) # m) x = (if x = s then Some p else smap_find m x)" for x
      by (simp add: smap_find_def)
    have "ra_run (buffer_map ((s, p) # m)) (Suc (unat e)) L' = ra_run (buffer_map m) (Suc (unat e)) L'"
    proof (rule ra_run_cong)
      fix i assume i: "Suc (unat e) \<le> i" "i < Suc (unat e) + L'"
      then have "i < 2 ^ 32" using 2(4) L by simp
      then have "unat (of_nat i :: u32) = i" by (simp add: unat_of_nat)
      then have "(of_nat i :: u32) \<noteq> s" using i True by auto
      then show "buffer_map ((s, p) # m) i = buffer_map m i" by (simp add: buffer_map_def find)
    qed
    then have run: "ra_run (buffer_map ((s, p) # m)) (unat e) L = p # ra_run (buffer_map m) (unat (e + 1)) L'"
      using True by (simp add: L e1) (simp add: smap_find_def)
    have "smap_find m' x = (if unat x < unat e' then None else smap_find ((s, p) # m) x)" for x
      using r(2,4) True e1 find [of x] by auto
    then show ?thesis
      using r(1-3) True e1 unfolding run by simp
  qed
qed

section \<open>The abstraction\<close>

definition ra_of :: "session_key \<Rightarrow> handler_ref \<Rightarrow> 'a world \<Rightarrow> reassembly" where
  "ra_of k h w = (case find_session k w of
       None \<Rightarrow> ra_start 0 (delivered h (w_trace w))
     | Some st \<Rightarrow> \<lparr>ra_next = unat (st_expected_rx_seq st), ra_pending = buffer_map (st_rx_buffer st),
                   ra_out = delivered h (w_trace w)\<rparr>)"

text \<open>What a segment is to session \<open>k\<close>: a piece, or nothing.\<close>

definition ra_event :: "session_key \<Rightarrow> nat \<Rightarrow> reassembly \<Rightarrow> FgwSegmentHeader \<times> bytes \<Rightarrow> reassembly" where
  "ra_event k win a seg = (if brings k (hdr_seq_num (fst seg)) seg then ra_offer win (unat (hdr_seq_num (fst seg))) (snd seg) a else a)"

text \<open>The segments of a run: of session \<open>k\<close> bare SYNs and DATA, with numbers that stay clear of the wrap.\<close>

definition ra_segment :: "session_key \<Rightarrow> nat \<Rightarrow> FgwSegmentHeader \<times> bytes \<Rightarrow> bool" where
  "ra_segment k win seg \<longleftrightarrow> sendable seg \<and>
     (link_control (fst seg) \<or> (hdr_ingress_id (fst seg), hdr_session_id (fst seg)) \<noteq> k \<or>
      isSyn (fst seg) \<and> \<not> isFin (fst seg) \<and> (\<not> isData (fst seg) \<or> snd seg = []) \<or>
      brings k (hdr_seq_num (fst seg)) seg \<and> unat (hdr_seq_num (fst seg)) + 1 + win < 2 ^ 32)"

lemma carries_segment: "carries k f N seg \<Longrightarrow> N + win < 2 ^ 32 \<Longrightarrow> ra_segment k win seg"
  by (cases seg) (auto simp: carries_def ra_segment_def)

context steady_handler
begin

definition ra_inv :: "session_key \<Rightarrow> handler_ref \<Rightarrow> 'a world \<Rightarrow> bool" where
  "ra_inv k h w \<longleftrightarrow> wired w \<and> P w \<and> ra_room (unat (ds_recv_window (w_ds w))) (ra_of k h w) \<and>
     (\<exists>st. find_session k w = Some st \<and> st_handler st = Some h \<and> smap_inv (st_rx_buffer st))"

text \<open>Every DATA key in the dedup table is of a piece given out or pending.\<close>

definition ra_known :: "session_key \<Rightarrow> handler_ref \<Rightarrow> 'a world \<Rightarrow> bool" where
  "ra_known k h w \<longleftrightarrow> (\<forall>s. smap_count (ds_dedup_map (w_ds w)) (DedupKey (fst k) (snd k) s 0) \<longrightarrow>
     unat s < ra_next (ra_of k h w) \<or> ra_pending (ra_of k h w) (unat s) \<noteq> None)"

lemma deliver_refines:
  assumes wired: "wired w" "P w" and good: "\<And>d. good d" and st: "find_session k w = Some st" "st_handler st = Some h"
      "smap_inv (st_rx_buffer st)"
    and room: "unat (st_expected_rx_seq st) + win < 2 ^ 32" "\<And>i. buffer_map (st_rx_buffer st) i \<noteq> None \<Longrightarrow>
        unat (st_expected_rx_seq st) \<le> i \<and> i < unat (st_expected_rx_seq st) + win"
  shows "ra_of k h (deliverInOrder H k w) = ra_settle win (ra_of k h w)" and
    "\<exists>st'. find_session k (deliverInOrder H k w) = Some st' \<and> st_handler st' = Some h \<and> smap_inv (st_rx_buffer st')"
proof -
  let ?ps = "ra_run (buffer_map (st_rx_buffer st)) (unat (st_expected_rx_seq st)) win"
  have "\<forall>x \<in> fst ` set (st_rx_buffer st). unat (st_expected_rx_seq st) \<le> unat x \<and> unat x < unat (st_expected_rx_seq st) + win"
  proof
    fix x assume "x \<in> fst ` set (st_rx_buffer st)"
    then have "buffer_map (st_rx_buffer st) (unat x) \<noteq> None" by (simp add: smap_find_None_iff)
    then show "unat (st_expected_rx_seq st) \<le> unat x \<and> unat x < unat (st_expected_rx_seq st) + win" by (rule room(2))
  qed
  from collect_ready_is_run [OF st(3) this room(1)] obtain m' e' where
    c: "collect_ready (st_rx_buffer st) (st_expected_rx_seq st) = (?ps, m', e')"
    and e': "unat e' = unat (st_expected_rx_seq st) + length ?ps" and m': "smap_inv m'"
      "\<And>x. smap_find m' x = (if unat x < unat e' then None else smap_find (st_rx_buffer st) x)" by blast
  let ?st = "st\<lparr>st_rx_buffer := m', st_expected_rx_seq := e'\<rparr>"
  let ?w = "put_session k ?st w"
  have sid: "st_session_id st = snd k" and own: "owns w h k" using wiredD [OF wired(1) st(1)] st(2) by auto
  have ownw: "owns ?w h k" using calm_owns [OF calm_put own, of ?st k] sid own st(2) by auto
  have safe: "P ?w" "valid ?w h (snd k)"
    using P_put [OF wired(2) st(1), of ?st] P_valid [OF wired(2) st(1,2)] valid_put by auto
  have fnd: "find_session k ?w = Some ?st" by simp
  from call_datas_own [OF ownw safe fnd good] obtain st' where
    st': "find_session k (foldl (call_data H h (snd k)) ?w ?ps) = Some st'" "rx_part st' = rx_part ?st"
      "delivered h (w_trace (foldl (call_data H h (snd k)) ?w ?ps)) = delivered h (w_trace w) @ concat ?ps" by auto
  have run: "deliverInOrder H k w = foldl (call_data H h (snd k)) ?w ?ps"
    using st c sid by (simp add: deliverInOrder_def)
  note rx = rx_part_fields [OF st'(2)]
  have "buffer_map m' i = (if i < unat e' then None else buffer_map (st_rx_buffer st) i)" for i
    by (cases "i < 2 ^ 32") (simp_all add: buffer_map_def m'(2) unat_of_nat)
  then have map: "buffer_map m' = (\<lambda>i. if i < unat e' then None else buffer_map (st_rx_buffer st) i)" by (rule ext)
  show "ra_of k h (deliverInOrder H k w) = ra_settle win (ra_of k h w)"
    using st'(1,3) rx st(1) by (simp add: ra_of_def run ra_settle_def map e' Let_def cong: if_cong)
  show "\<exists>st'. find_session k (deliverInOrder H k w) = Some st' \<and> st_handler st' = Some h \<and> smap_inv (st_rx_buffer st')"
    using st'(1) rx st(2) m'(1) by (intro exI [of _ st']) (simp add: run)
qed

lemma ra_invD:
  assumes "ra_inv k h w"
  shows "wired w" "P w" "owns w h k"
  using assms by (auto simp: ra_inv_def wired_to_def)

lemma ra_inv_frame:
  assumes inv: "ra_inv k h w" and w': "wired w'" "P w'" "ds_recv_window (w_ds w') = ds_recv_window (w_ds w)"
      "delivered h (w_trace w') = delivered h (w_trace w)"
    and f: "\<And>st. find_session k w = Some st \<Longrightarrow> \<exists>st'. find_session k w' = Some st' \<and> rx_part st' = rx_part st"
  shows "ra_inv k h w'" and "ra_of k h w' = ra_of k h w"
proof -
  obtain st where st: "find_session k w = Some st" using inv by (auto simp: ra_inv_def)
  then obtain st' where st': "find_session k w' = Some st'" "rx_part st' = rx_part st" using f by blast
  note rx = rx_part_fields [OF st'(2)]
  show "ra_of k h w' = ra_of k h w" using w'(4) st st'(1) rx by (simp add: ra_of_def)
  then show "ra_inv k h w'" using inv w' st st'(1) rx by (simp add: ra_inv_def)
qed

lemma ra_undisturbed:
  assumes inv: "ra_inv k h w" and u: "undisturbed k w w'" and safe: "P w'"
  shows "ra_inv k h w'" "ra_of k h w' = ra_of k h w" "ra_known k h w \<Longrightarrow> ra_known k h w'"
proof -
  note d = ra_invD [OF inv]
  have "wired w'" "ds_recv_window (w_ds w') = ds_recv_window (w_ds w)" "delivered h (w_trace w') = delivered h (w_trace w)"
    "find_session k w' = find_session k w"
    using u d by (auto simp: undisturbed_def)
  then show r: "ra_inv k h w'" "ra_of k h w' = ra_of k h w"
    using ra_inv_frame [OF inv _ safe] by auto
  then show "ra_known k h w \<Longrightarrow> ra_known k h w'"
    using u by (simp add: ra_known_def undisturbed_def)
qed

text \<open>An accepted piece.\<close>

lemma data_refines:
  assumes inv: "ra_inv k h w" and good: "\<And>d. good d" and mem: "\<forall>m. m \<le> e_mb_space env now m"
    and s: "ra_next (ra_of k h w) \<le> unat s" "unat s < ra_next (ra_of k h w) + unat (ds_recv_window (w_ds w))"
      "unat s + 1 + unat (ds_recv_window (w_ds w)) < 2 ^ 32"
    and w'_def: "w' = process_data env now H k s p w"
  shows "ra_of k h w' = ra_offer (unat (ds_recv_window (w_ds w))) (unat s) p (ra_of k h w)"
    and "ra_inv k h w'" and "ds_dedup_map (w_ds w') = ds_dedup_map (w_ds w)"
proof -
  let ?win = "unat (ds_recv_window (w_ds w))"
  note d = ra_invD [OF inv]
  have room: "ra_room ?win (ra_of k h w)" using inv by (simp add: ra_inv_def)
  obtain st where st: "find_session k w = Some st" "st_handler st = Some h" "smap_inv (st_rx_buffer st)"
    using inv by (auto simp: ra_inv_def)
  have ra: "ra_next (ra_of k h w) = unat (st_expected_rx_seq st)" "ra_pending (ra_of k h w) = buffer_map (st_rx_buffer st)"
    using st(1) by (simp_all add: ra_of_def)
  define st1 where "st1 = st\<lparr>st_rx_buffer := smap_emplace s p (st_rx_buffer st)\<rparr>"
  let ?w1 = "put_session k st1 w"
  have w': "w' = deliverInOrder H k ?w1"
    using st(1) mem by (simp add: w'_def process_data_def ensure_session_def st1_def Let_def)
  have c1: "calm k w ?w1"
    using wiredD [OF d(1) st(1)] by (auto simp: st1_def intro!: calm_put)
  have safe1: "P ?w1" using P_put [OF d(2) st(1), of st1] by (simp add: st1_def)
  have wired1: "wired ?w1" using calm_wired [OF c1 d(1)] .
  have f1: "find_session k ?w1 = Some st1" "st_handler st1 = Some h" "smap_inv (st_rx_buffer st1)"
    using st(2,3) by (simp_all add: st1_def smap_emplace_inv)
  have b1: "buffer_map (st_rx_buffer st1) = (if ra_pending (ra_of k h w) (unat s) = None
      then (ra_pending (ra_of k h w))(unat s \<mapsto> p) else ra_pending (ra_of k h w))"
    by (simp add: ra st1_def buffer_map_emplace) (simp add: smap_emplace_def)
  have m1: "unat (st_expected_rx_seq st1) + ?win < 2 ^ 32" "\<And>i. buffer_map (st_rx_buffer st1) i \<noteq> None \<Longrightarrow>
      unat (st_expected_rx_seq st1) \<le> i \<and> i < unat (st_expected_rx_seq st1) + ?win"
    using room s(1,2) ra(1) unfolding b1 by (auto simp: ra_room_def st1_def split: if_splits)
  note del = deliver_refines [OF wired1 safe1 good f1 m1]
  have c: "calm k w w'" unfolding w' using c1 calm_deliver [OF wired1] by (rule calm_trans)
  have ds: "ds_dedup_map (w_ds w') = ds_dedup_map (w_ds w)" "ds_recv_window (w_ds w') = ds_recv_window (w_ds w)"
    using c ds_rest_fields [of "w_ds w'" "w_ds w"] by (simp_all add: calm_def)
  then show "ds_dedup_map (w_ds w') = ds_dedup_map (w_ds w)" by simp
  have "ra_of k h ?w1 = (ra_of k h w)\<lparr>ra_pending := buffer_map (st_rx_buffer st1)\<rparr>"
    using st(1) by (simp add: ra_of_def) (simp add: st1_def)
  then have "ra_of k h w' = ra_settle ?win ((ra_of k h w)\<lparr>ra_pending := buffer_map (st_rx_buffer st1)\<rparr>)"
    using del(1) w' by simp
  then show r: "ra_of k h w' = ra_offer ?win (unat s) p (ra_of k h w)"
    using s(1,2) ra_settle_idle [OF room] by (simp add: b1 ra_offer_def not_less not_le)
  have "P w'" unfolding w'_def by (rule P_process_data [OF d(2)])
  moreover have "ra_room ?win (ra_of k h w')" unfolding r by (rule ra_room_offer [OF room s(3)])
  ultimately show "ra_inv k h w'"
    using calm_wired [OF c d(1)] del(2) [folded w'] ds(2) by (simp add: ra_inv_def)
qed

text \<open>One segment of the session.\<close>

lemma ra_syn:
  assumes inv: "ra_inv k h w"
  shows "ra_inv k h (process_syn H k w)" "ra_of k h (process_syn H k w) = ra_of k h w"
    "ds_dedup_map (w_ds (process_syn H k w)) = ds_dedup_map (w_ds w)"
proof -
  note d = ra_invD [OF inv]
  from inv obtain st where st: "find_session k w = Some st" "st_handler st = Some h" by (auto simp: ra_inv_def)
  let ?w = "w\<lparr>w_trace := w_trace w @ [EvOpen h (snd k)]\<rparr>"
  have syn: "process_syn H k w = so_open H h (snd k) ?w"
    using st by (simp add: process_syn_def ensure_session_def session_handler_of_def Let_def)
  have own: "owns ?w h k" using d(3) by (rule owns_trace)
  have c: "calm k w (process_syn H k w)" using calm_syn [OF d(1)] .
  have ds: "ds_dedup_map (w_ds (process_syn H k w)) = ds_dedup_map (w_ds w)"
    "ds_recv_window (w_ds (process_syn H k w)) = ds_recv_window (w_ds w)"
    using c ds_rest_fields [of "w_ds (process_syn H k w)" "w_ds w"] by (simp_all add: calm_def)
  have del: "delivered h (w_trace (process_syn H k w)) = delivered h (w_trace w)"
    using open_frame [OF own] unfolding syn by (simp add: handler_frame_def)
  have "\<exists>st'. find_session k (process_syn H k w) = Some st' \<and> rx_part st' = rx_part st1"
    if "find_session k w = Some st1" for st1
    using open_keeps [OF own] that unfolding syn by simp
  from ra_inv_frame [OF inv calm_wired [OF c d(1)] P_syn [OF d(2)] ds(2) del this] ds(1)
  show "ra_inv k h (process_syn H k w)" "ra_of k h (process_syn H k w) = ra_of k h w"
    "ds_dedup_map (w_ds (process_syn H k w)) = ds_dedup_map (w_ds w)" by blast+
qed

lemma window_is_room:
  assumes "ra_inv k h w" and "unat s + 1 + unat (ds_recv_window (w_ds w)) < 2 ^ 32"
  shows "outside_window k s w \<longleftrightarrow> unat s < ra_next (ra_of k h w) \<or> ra_next (ra_of k h w) + unat (ds_recv_window (w_ds w)) \<le> unat s"
proof -
  from assms(1) obtain st where st: "find_session k w = Some st" "unat (st_expected_rx_seq st) + unat (ds_recv_window (w_ds w)) < 2 ^ 32"
    by (auto simp: ra_inv_def ra_room_def ra_of_def)
  have "unat (s - st_expected_rx_seq st) = (if unat (st_expected_rx_seq st) \<le> unat s then unat s - unat (st_expected_rx_seq st)
      else unat s + 2 ^ 32 - unat (st_expected_rx_seq st))"
    by (simp add: unat_sub_if_size word_size)
  then show ?thesis
    using st by (auto simp: ra_of_def outside_window_def word_le_nat_alt Let_def unat_ucast_u16)
qed

lemma segment_refines:
  assumes inv: "ra_inv k h w" and known: "ra_known k h w" and good: "\<And>d. good d" and mem: "\<forall>m. m \<le> e_mb_space env now m"
    and k: "(rx_ingress_of hdr, hdr_session_id hdr) = k" and fin: "\<not> isFin hdr"
    and data: "isSyn hdr \<and> \<not> has_data hdr \<or>
      \<not> isSyn hdr \<and> has_data hdr \<and> unat (hdr_seq_num hdr) + 1 + unat (ds_recv_window (w_ds w)) < 2 ^ 32"
    and w'_def: "w' = process_session_segment env now H r hdr payload w"
  shows "ra_of k h w' = (if isSyn hdr then ra_of k h w
      else ra_offer (unat (ds_recv_window (w_ds w))) (unat (hdr_seq_num hdr)) payload (ra_of k h w))"
    and "ra_inv k h w'" and "ra_known k h w'"
proof -
  let ?s = "hdr_seq_num hdr"
  let ?dk = "segment_dedup_key hdr (rx_ingress_of hdr)"
  let ?pc = "peer_channel r w"
  let ?w1 = "note_fresh ?dk ?pc w"
  let ?win = "unat (ds_recv_window (w_ds w))"
  let ?post = "ra_of k h w' = (if isSyn hdr then ra_of k h w else ra_offer ?win (unat ?s) payload (ra_of k h w)) \<and>
    ra_inv k h w' \<and> ra_known k h w'"
  note d = ra_invD [OF inv]
  have n1: "neutral w ?w1" by simp
  have safe1: "P ?w1" by (rule P_quiet [OF quiet_note(1) d(2)])
  have i1: "ra_inv k h ?w1" "ra_of k h ?w1 = ra_of k h w" "ds_recv_window (w_ds ?w1) = ds_recv_window (w_ds w)"
    using ra_inv_frame [OF inv, of ?w1] neutral_wired [OF n1] neutral_find [OF n1] n1 d(1) safe1
    by (auto simp: neutral_def)
  have dk: "?dk = DedupKey (fst k) (snd k) ?s (if isSyn hdr then 1 else 0)"
    using k fin by (auto simp: segment_dedup_key_def)
  have new: "x = ?s \<and> \<not> isSyn hdr \<or> smap_count (ds_dedup_map (w_ds w)) (DedupKey (fst k) (snd k) x 0)"
    if "smap_count (ds_dedup_map (w_ds ?w1)) (DedupKey (fst k) (snd k) x 0)" for x
    using note_fresh_count [of ?dk ?pc w] that dk by fastforce
  consider (dup) "smap_count (ds_dedup_map (w_ds w)) ?dk"
    | (out) "\<not> smap_count (ds_dedup_map (w_ds w)) ?dk" "has_data hdr" "outside_window k ?s w"
    | (syn) "\<not> smap_count (ds_dedup_map (w_ds w)) ?dk" "isSyn hdr" "\<not> has_data hdr"
    | (acc) "\<not> smap_count (ds_dedup_map (w_ds w)) ?dk" "\<not> isSyn hdr" "has_data hdr" "\<not> outside_window k ?s w"
    using data by blast
  then have ?post
  proof cases
    case dup
    then have "w' = note_duplicate ?pc w" by (simp add: w'_def process_session_segment_alt Let_def)
    then have "undisturbed k w w'" by (auto intro!: undisturbed_neutral)
    moreover have "P w'" unfolding w'_def by (rule P_session_segment [OF d(2)])
    ultimately show ?thesis
      using ra_undisturbed [OF inv] known dup dk by (auto simp: ra_known_def ra_offer_def)
  next
    case out
    then have "w' = w" using k by (simp add: w'_def process_session_segment_alt Let_def)
    then show ?thesis
      using inv known data out(2,3) window_is_room [OF inv, of ?s] by (auto simp: ra_offer_def)
  next
    case syn
    then have "w' = process_syn H k ?w1"
      using k fin by (simp add: w'_def process_session_segment_alt Let_def)
    then show ?thesis
      using ra_syn [OF i1(1)] i1(2) known syn(2) new by (auto simp: ra_known_def)
  next
    case acc
    then have w': "w' = process_data env now H k ?s payload ?w1"
      using k fin by (simp add: w'_def process_session_segment_alt Let_def)
    have s: "ra_next (ra_of k h w) \<le> unat ?s" "unat ?s < ra_next (ra_of k h w) + ?win" "unat ?s + 1 + ?win < 2 ^ 32"
      using acc data window_is_room [OF inv, of ?s] by auto
    have r: "ra_of k h w' = ra_offer ?win (unat ?s) payload (ra_of k h w)" "ra_inv k h w'"
      "ds_dedup_map (w_ds w') = ds_dedup_map (w_ds ?w1)"
      using data_refines [OF i1(1) good mem _ _ _ w'] s i1(2,3) by simp_all
    moreover have "ra_known k h w'"
      unfolding ra_known_def r(1,3)
    proof (intro allI impI ra_offer_kept)
      fix x assume "smap_count (ds_dedup_map (w_ds ?w1)) (DedupKey (fst k) (snd k) x 0)"
      from new [OF this] known s show "unat x < ra_next (ra_of k h w) \<or> ra_pending (ra_of k h w) (unat x) \<noteq> None \<or>
          unat x = unat ?s \<and> ra_next (ra_of k h w) \<le> unat ?s \<and> unat ?s < ra_next (ra_of k h w) + ?win"
        by (auto simp: ra_known_def)
    qed
    ultimately show ?thesis using acc(2) by simp
  qed
  then show "ra_of k h w' = (if isSyn hdr then ra_of k h w else ra_offer ?win (unat ?s) payload (ra_of k h w))"
    "ra_inv k h w'" "ra_known k h w'" by blast+
qed

section \<open>Arriving segments and bytes\<close>

lemma receive_refines:
  assumes inv: "ra_inv k h w" and known: "ra_known k h w" and good: "\<And>d. good d" and mem: "\<forall>m. m \<le> e_mb_space env now m"
    and seg: "ra_segment k (unat (ds_recv_window (w_ds w))) seg"
  shows "ra_of k h (receive env now H w (r, seg)) = ra_event k (unat (ds_recv_window (w_ds w))) (ra_of k h w) seg"
    and "ra_inv k h (receive env now H w (r, seg))" and "ra_known k h (receive env now H w (r, seg))"
proof -
  obtain hdr p where sg: "seg = (hdr, p)" by fastforce
  have snd: "sendable (hdr, p)" using seg by (simp add: ra_segment_def sg)
  note d = ra_invD [OF inv]
  let ?w' = "receive env now H w (r, seg)"
  have safe': "P ?w'"
    unfolding receive_def step_segment_def by (auto intro: P_segment [OF d(2)])
  have "ra_of k h ?w' = ra_event k (unat (ds_recv_window (w_ds w))) (ra_of k h w) seg \<and> ra_inv k h ?w' \<and> ra_known k h ?w'"
  proof (cases "link_control hdr \<or> (hdr_ingress_id hdr, hdr_session_id hdr) \<noteq> k")
    case True
    then have "\<not> brings k (hdr_seq_num hdr) seg" by (auto simp: brings_def sg)
    moreover have "undisturbed k w ?w'"
      using receive_other [OF d(1) _ sg True] snd by (simp add: sg)
    ultimately show ?thesis
      using ra_undisturbed [OF inv _ safe'] known by (simp add: ra_event_def sg)
  next
    case False
    let ?w1 = "upd_mgr (upd_chan r noteSegmentRecv) w"
    have u: "undisturbed k w ?w1" by (rule undisturbed_note)
    have safe1: "P ?w1" by (rule P_quiet [OF quiet_segment_recv d(2)])
    note i1 = ra_undisturbed [OF inv u safe1]
    have w': "?w' = process_session_segment env now H r (decoded_header hdr p) p ?w1"
      using False snd by (simp add: sg receive_image link_control_def Let_def)
    have len: "length p \<le> MAX_PAYLOAD" using snd by (simp add: sendable_def)
    have "isSyn hdr \<and> \<not> (isData hdr \<and> p \<noteq> []) \<or> \<not> isSyn hdr \<and> (isData hdr \<and> p \<noteq> []) \<and>
        unat (hdr_seq_num hdr) + 1 + unat (ds_recv_window (w_ds ?w1)) < 2 ^ 32" "\<not> isFin hdr"
      using seg False by (auto simp: ra_segment_def sg brings_def)
    moreover have "ra_event k (unat (ds_recv_window (w_ds w))) a seg =
        (if isSyn hdr then a else ra_offer (unat (ds_recv_window (w_ds w))) (unat (hdr_seq_num hdr)) p a)" for a
      using seg False by (auto simp: ra_event_def ra_segment_def sg brings_def)
    ultimately show ?thesis
      using segment_refines [OF i1(1) i1(3) [OF known] good mem, of "decoded_header hdr p" ?w' r p] False w' i1(2)
      by (simp add: decoded_has_data [OF len])
  qed
  then show "ra_of k h ?w' = ra_event k (unat (ds_recv_window (w_ds w))) (ra_of k h w) seg"
    "ra_inv k h ?w'" "ra_known k h ?w'" by blast+
qed

lemma run_refines:
  assumes "ra_inv k h w" and "ra_known k h w" and good: "\<And>d. good d" and mem: "\<forall>m. m \<le> e_mb_space env now m"
    and "\<forall>ev \<in> set evs. ra_segment k (unat (ds_recv_window (w_ds w))) (snd ev)"
  shows "ra_of k h (foldl (receive env now H) w evs) =
      foldl (ra_event k (unat (ds_recv_window (w_ds w)))) (ra_of k h w) (map snd evs) \<and>
    ra_inv k h (foldl (receive env now H) w evs)"
  using assms(1,2,5)
proof (induction evs arbitrary: w)
  case (Cons ev evs)
  obtain r seg where ev: "ev = (r, seg)" by fastforce
  have "ra_segment k (unat (ds_recv_window (w_ds w))) seg" using Cons.prems(3) by (simp add: ev)
  note step = receive_refines [OF Cons.prems(1,2) good mem this, of r]
  have "ds_recv_window (w_ds (receive env now H w (r, seg))) = ds_recv_window (w_ds w)"
    using process_segment_wired(2) ra_invD(1) [OF Cons.prems(1)] by (simp add: receive_def step_segment_def)
  then show ?case
    using Cons.IH [OF step(2,3)] step(1) Cons.prems(3) by (simp add: ev)
qed simp

lemma awaiting_ra_inv:
  assumes "wired w" and "P w" and "awaiting s k h w" and "unat s + unat (ds_recv_window (w_ds w)) < 2 ^ 32"
  shows "ra_inv k h w" and "ra_known k h w" and "ra_of k h w = ra_start (unat s) (delivered h (w_trace w))"
proof -
  show a: "ra_of k h w = ra_start (unat s) (delivered h (w_trace w))"
    using assms(3) by (auto simp: awaiting_def ra_of_def ra_start_def)
  then show "ra_inv k h w" "ra_known k h w"
    using assms by (auto simp: ra_inv_def ra_known_def ra_room_def ra_start_def awaiting_def)
qed

lemma arrivals_refine:
  assumes rcv: "wired (host_world hst)" "P (host_world hst)" "awaiting s k h (host_world hst)"
      "unat s + unat (ds_recv_window (w_ds (host_world hst))) < 2 ^ 32"
    and good: "\<And>d. good d"
    and mem: "\<forall>m. m \<le> e_mb_space env now m" and win: "win = unat (ds_recv_window (w_ds (host_world hst)))"
    and c: "\<forall>r. \<forall>seg \<in> set (segs r). ra_segment k win seg"
    and bytes: "\<forall>r. concat (on_link r evs) = wire_image (segs r)" and fresh: "\<forall>r. scratch_of r hst = []"
  shows "\<exists>ms. (\<forall>r. on_link r ms = segs r) \<and>
    ra_of k h (host_world (foldl (arrive env now H) hst evs)) =
      foldl (ra_event k win) (ra_start (unat s) (delivered h (w_trace (host_world hst)))) (map snd ms) \<and>
    ra_inv k h (host_world (foldl (arrive env now H) hst evs))"
proof -
  note start = awaiting_ra_inv [OF rcv]
  have "\<forall>r. \<forall>hp \<in> set (segs r). sendable hp" using c by (fastforce simp: ra_segment_def)
  then obtain ms where ms: "\<forall>r. on_link r ms = segs r"
      "host_world (foldl (arrive env now H) hst evs) = foldl (receive env now H) (host_world hst) ms"
    using links_merge [of segs hst evs env now H] bytes fresh by auto
  have "\<forall>ev \<in> set ms. ra_segment k win (snd ev)"
    using c ms(1) by (simp add: on_link_members(1) [of ms "ra_segment k win"])
  then show ?thesis
    using run_refines [OF start(1,2) good mem, of ms] start(3) ms win by (intro exI [of _ ms]) simp
qed

end

end
