(* ===== verification/Fgw_Refinement.thy ===== *)
theory Fgw_Refinement
  imports Fgw_Reassembly Fgw_InportRuns
begin

text \<open>
  The Inport's receiving side refines the abstract reassembly machine, from the bytes on the links to the bytes
  the client is given.
\<close>

declare split_paired_All [simp del] split_paired_Ex [simp del]

text \<open>C6: The receiving side of the Inport refines an abstract reassembly machine (a number, a map of pending
  pieces, the bytes given out) for as long as its session is open: whatever link control, segments of other
  sessions, bare SYNs and non-empty DATA segments of the session arrive on the links, cut anywhere,
  duplicated, early, late or out of the window, the session's expected number, its receive buffer and the
  bytes written to its client are those of the abstract machine offered the pieces of that session in some
  interleaving of the links, starting at the number the session waits for. Left out are a FIN of that session,
  which ends it, and forms no gateway sends (a SYN with data, an empty DATA segment); the numbers stay a
  receive window clear of the 32-bit wrap, the links start between frames and memory does not run out.\<close>

theorem receiver_refines_reassembly:
  assumes "inport_reachable env hst" and "roomy env" and "awaiting s k h (host_world hst)"
    and "win = unat (ds_recv_window (w_ds (host_world hst)))" and "unat s + win < 2 ^ 32"
    and "\<forall>r. \<forall>seg \<in> set (segs r). ra_segment k win seg"
    and "\<forall>r. concat (on_link r evs) = wire_image (segs r)" and "\<forall>r. scratch_of r hst = []"
    and "w' = host_world (foldl (arrive env now (inport_ops env now)) hst evs)"
    and "a = ra_start (unat s) (concat (fs_client_out (ip_heap (w_app (host_world hst)) h)))"
  shows "\<exists>ms. (\<forall>r. on_link r ms = segs r) \<and> ra_of k h w' = foldl (ra_event k win) a (map snd ms) \<and>
    concat (fs_client_out (ip_heap (w_app w') h)) = ra_out (foldl (ra_event k win) a (map snd ms))"
proof -
  have wired: "wired_to inport_owns (host_world hst)"
    using inport_reachable_inv [OF assms(1,2)] by (simp add: inport_run.gate_inv_def inport.stream_inv_def)
  have mem: "\<forall>m. m \<le> e_mb_space env now m" using assms(2) by (simp add: roomy_def)
  have "\<exists>st. find_session k (host_world hst) = Some st \<and> st_handler st = Some h"
    using assms(3) by (auto simp: awaiting_def)
  then have a: "a = ra_start (unat s) (delivered h (w_trace (host_world hst)))"
    unfolding assms(10) using client_holds_delivered [OF assms(1,2), of "host_world hst" now "[]"] by simp
  have "\<exists>ms. (\<forall>r. on_link r ms = segs r) \<and> ra_of k h w' = foldl (ra_event k win) a (map snd ms) \<and> inport.ra_inv k h w'"
    unfolding assms(9) a
    by (rule inport.arrivals_refine [OF wired TrueI assms(3) assms(5) [unfolded assms(4)] TrueI mem assms(4,6-8)])
  then obtain ms where ms: "\<forall>r. on_link r ms = segs r" "ra_of k h w' = foldl (ra_event k win) a (map snd ms)"
      "\<exists>st. find_session k w' = Some st \<and> st_handler st = Some h"
    unfolding inport.ra_inv_def by blast
  have "concat (fs_client_out (ip_heap (w_app w') h)) = delivered h (w_trace w')"
    by (rule client_holds_delivered [OF assms(1,2,9) ms(3)])
  also have "\<dots> = ra_out (ra_of k h w')" by (simp add: ra_of_def ra_start_def split: option.split)
  finally show ?thesis using ms by auto
qed

text \<open>Three pieces of session 1 arrive on one link as the second, the first, and the second again.\<close>

definition sample_pieces_sent :: "(FgwSegmentHeader \<times> bytes) list" where
  "sample_pieces_sent =
     (let segs = data_segments sample_stream 7 1 0 [[1, 2], [3]] in [segs ! 1, segs ! 0, segs ! 1])"

lemma sample_pieces_sent_ok: "\<forall>seg \<in> set sample_pieces_sent. ra_segment (7, 1) 16 seg"
proof
  fix seg
  let ?segs = "data_segments sample_stream 7 1 0 [[1, 2], [3]]"
  assume "seg \<in> set sample_pieces_sent"
  then have "seg \<in> set ?segs" by (auto simp: sample_pieces_sent_def)
  then have "carries (7, 1) (stream_from [] (unat (0 :: u32)) [[1, 2], [3]])
      (unat (0 :: u32) + length [[1, 2], [3 :: byte]]) seg"
    by (rule data_segments_carry) (simp_all add: MAX_PAYLOAD_def)
  then show "ra_segment (7, 1) 16 seg" by (rule carries_segment) simp
qed

lemma only_link: "\<forall>r. r \<noteq> r' \<longrightarrow> on_link r ms = [] \<Longrightarrow> map snd ms = on_link r' ms"
proof (induction ms)
  case (Cons m ms)
  have "fst m = r'" using Cons.prems [rule_format, of "fst m"] by (auto split: if_splits)
  moreover have "\<forall>r. r \<noteq> r' \<longrightarrow> on_link r ms = []" using Cons.prems by (auto split: if_splits)
  ultimately show ?case using Cons.IH by simp
qed simp

lemma sample_pieces_abstract: "ra_out (foldl (ra_event (7, 1) 16) (ra_start 0 []) sample_pieces_sent) = [1, 2, 3]"
proof -
  have run: "ra_run m n L = (if L = 0 then [] else case m n of None \<Rightarrow> [] | Some p \<Rightarrow> p # ra_run m (Suc n) (L - 1))" for m n L
    by (cases L) (simp_all split: option.split)
  show ?thesis
    by (simp add: sample_pieces_sent_def ra_event_def brings_def data_header_flags ra_offer_def ra_settle_def ra_start_def
      Let_def run [of _ _ 16] run [of _ _ 15] run [of _ _ 14])
qed

theorem receiver_refines_reassembly_witness:
  "concat (fs_client_out (ip_heap (w_app (host_world (foldl (arrive open_env 0 (inport_ops open_env 0))
     \<lparr>host_scratch = [], host_world = sample_receiver\<rparr> [(0, wire_image sample_pieces_sent)]))) 0)) = [1, 2, 3]"
proof -
  let ?segs = "\<lambda>r. if r = 0 then sample_pieces_sent else []"
  have segs: "\<forall>r. \<forall>seg \<in> set (?segs r). ra_segment (7, 1) 16 seg" using sample_pieces_sent_ok by simp
  have bytes: "\<forall>r. concat (on_link r [(0, wire_image sample_pieces_sent)]) = wire_image (?segs r)"
    by (simp add: wire_image_def)
  have waiting: "awaiting 0 (7, 1) 0 (host_world \<lparr>host_scratch = [], host_world = sample_receiver\<rparr>)"
      "16 = unat (ds_recv_window (w_ds (host_world \<lparr>host_scratch = [], host_world = sample_receiver\<rparr>)))"
      "\<forall>r. scratch_of r \<lparr>host_scratch = [], host_world = sample_receiver\<rparr> = []"
    by (simp_all add: sample_receiver_awaiting sample_receiver_stream scratch_of_def)
  have start: "ra_start 0 [] = ra_start (unat (0 :: u32))
      (concat (fs_client_out (ip_heap (w_app (host_world \<lparr>host_scratch = [], host_world = sample_receiver\<rparr>)) 0)))"
    by (simp add: sample_receiver_facts)
  from receiver_refines_reassembly [OF sample_receiver_reachable roomy_open_env waiting(1,2) _ segs bytes waiting(3) refl start]
  obtain ms where ms: "\<forall>r. on_link r ms = ?segs r"
      "concat (fs_client_out (ip_heap (w_app (host_world (foldl (arrive open_env 0 (inport_ops open_env 0))
         \<lparr>host_scratch = [], host_world = sample_receiver\<rparr> [(0, wire_image sample_pieces_sent)]))) 0)) =
       ra_out (foldl (ra_event (7, 1) 16) (ra_start 0 []) (map snd ms))" by auto
  have "map snd ms = sample_pieces_sent" using only_link [of 0 ms] ms(1) by simp
  then show ?thesis using ms(2) sample_pieces_abstract by simp
qed

end
