(* ===== verification/Fgw_Wrap.thy ===== *)
theory Fgw_Wrap
  imports Fgw_Window Fgw_InportRuns
begin

text \<open>
  What happens where the 32-bit numbers of a session wrap: the window is modular, the ordered receive buffer is
  not. A piece that overtakes across the wrap sorts to the front of \<^verbatim>\<open>rx_buffer\<close> and stays there.
\<close>

declare split_paired_All [simp del] split_paired_Ex [simp del]

definition data_step :: "fgw_env \<Rightarrow> u32 \<Rightarrow> 'a session_ops \<Rightarrow> session_key \<Rightarrow> 'a world \<Rightarrow> u32 \<times> bytes \<Rightarrow> 'a world" where
  "data_step env now H k w sp = process_data env now H k (fst sp) (snd sp) w"

definition stalled :: "session_key \<Rightarrow> 'a world \<Rightarrow> bool" where
  "stalled k w \<longleftrightarrow> (\<exists>st. find_session k w = Some st \<and> st_expected_rx_seq st = - 1 \<and> smap_inv (st_rx_buffer st) \<and>
     0 \<in> fst ` set (st_rx_buffer st))"

lemma zero_in_front:
  assumes "smap_inv m" and "(0 :: u32) \<in> fst ` set m"
  shows "collect_ready m (- 1) = ([], m, - 1)"
proof (cases m)
  case (Cons x xs)
  obtain s p where x: "x = (s, p)" by fastforce
  have "s = 0"
  proof (rule ccontr)
    assume "s \<noteq> 0"
    then have "0 \<in> fst ` set xs" using assms(2) Cons x by auto
    then have "s < 0" using assms(1) Cons x by (auto simp: smap_inv_Cons)
    then show False by simp
  qed
  then show ?thesis using Cons x by simp
qed (use assms(2) in simp)

lemma stalled_deliver: "stalled k w \<Longrightarrow> w_trace (deliverInOrder H k w) = w_trace w \<and> stalled k (deliverInOrder H k w)"
proof -
  assume "stalled k w"
  then obtain st where st: "find_session k w = Some st" "st_expected_rx_seq st = - 1" "smap_inv (st_rx_buffer st)"
      "0 \<in> fst ` set (st_rx_buffer st)" by (auto simp: stalled_def)
  have "deliverInOrder H k w = w \<or> deliverInOrder H k w = put_session k st w"
    using st zero_in_front [OF st(3,4)] by (simp add: deliverInOrder_def flip: st(2) split: option.split)
  then show ?thesis using st by (auto simp: stalled_def)
qed

lemma stalled_put:
  "stalled k w \<Longrightarrow> find_session k w = Some st \<Longrightarrow>
   stalled k (put_session k (st\<lparr>st_rx_buffer := smap_emplace s p (st_rx_buffer st)\<rparr>) w)"
  by (auto simp: stalled_def smap_emplace_inv smap_emplace_keys)

lemma stalled_step: "stalled k w \<Longrightarrow> w_trace (data_step env now H k w sp) = w_trace w \<and> stalled k (data_step env now H k w sp)"
proof -
  assume s: "stalled k w"
  then obtain st where st: "find_session k w = Some st" by (auto simp: stalled_def)
  let ?w = "put_session k (st\<lparr>st_rx_buffer := smap_emplace (fst sp) (snd sp) (st_rx_buffer st)\<rparr>) w"
  have "data_step env now H k w sp = deliverInOrder H k ?w \<or> data_step env now H k w sp = deliverInOrder H k w"
    using st by (simp add: data_step_def process_data_def ensure_session_def Let_def)
  then show ?thesis
    using stalled_deliver [OF s] stalled_deliver [OF stalled_put [OF s st]] by auto
qed

lemma stalled_steps: "stalled k w \<Longrightarrow> w_trace (foldl (data_step env now H k) w ps) = w_trace w"
  by (induction ps arbitrary: w) (simp_all add: stalled_step)

lemma overtaken_stalls:
  assumes st: "find_session k w = Some st" "st_expected_rx_seq st = - 1" "st_rx_buffer st = []"
    and mem: "length p \<le> e_mb_space env now (length p)"
  shows "w_trace (data_step env now H k w (0, p)) = w_trace w \<and> stalled k (data_step env now H k w (0, p))"
proof -
  let ?w = "put_session k (st\<lparr>st_rx_buffer := [(0, p)]\<rparr>) w"
  have "data_step env now H k w (0, p) = deliverInOrder H k ?w"
    using st mem
    by (simp add: data_step_def process_data_def ensure_session_def Let_def smap_emplace_def smap_find_def)
  moreover have "stalled k ?w" using st by (simp add: stalled_def smap_inv_def)
  ultimately show ?thesis using stalled_deliver [of k ?w] by simp
qed

text \<open>C24: At the 32-bit wrap a session stalls for good: when the next number is 2^32 - 1 and number 0 overtakes
  it, which the window admits, nothing is ever delivered on the session again, whatever pieces arrive, number
  2^32 - 1 included.\<close>

theorem wrap_stalls:
  assumes "find_session k w = Some st" and "st_expected_rx_seq st = - 1" and "st_rx_buffer st = []"
    and "1 < ds_recv_window (w_ds w)" and "length p \<le> e_mb_space env now (length p)"
  shows "\<not> outside_window k 0 w \<and> w_trace (foldl (data_step env now H k) w ((0, p) # ps)) = w_trace w"
proof -
  have "outside_window k 0 w \<longleftrightarrow> ucast (ds_recv_window (w_ds w)) \<le> (1 :: u32)"
    using assms(1,2) by (simp add: outside_window_def)
  then have "\<not> outside_window k 0 w"
    using assms(4) by (simp add: word_le_nat_alt word_less_nat_alt unat_ucast_u16)
  then show ?thesis
    using overtaken_stalls [OF assms(1-3,5), of H] stalled_steps [of k "data_step env now H k w (0, p)"] by simp
qed

definition sample_at_wrap :: "inport world" where
  "sample_at_wrap = put_session (7, 1) (SessionState_init\<lparr>st_session_id := 1, st_wire_ingress_id := 7, st_handler := Some 0,
     st_expected_rx_seq := - 1\<rparr>) sample_world"

theorem wrap_stalls_witness:
  "w_trace (foldl (data_step open_env 0 (inport_ops open_env 0) (7, 1)) sample_at_wrap
     [(0, [2]), (- 1, [1]), (1, [3])]) = []"
proof -
  have found: "find_session (7, 1) sample_at_wrap = Some (SessionState_init\<lparr>st_session_id := 1, st_wire_ingress_id := 7,
      st_handler := Some 0, st_expected_rx_seq := - 1\<rparr>)"
    by (simp add: sample_at_wrap_def)
  have win: "1 < ds_recv_window (w_ds sample_at_wrap)" "w_trace sample_at_wrap = []"
    by (simp_all add: sample_at_wrap_def put_session_def)
  have mem: "length p \<le> e_mb_space open_env 0 (length p)" for p :: bytes by (simp add: open_env_def)
  show ?thesis
    using wrap_stalls [OF found _ _ win(1) mem, where H = "inport_ops open_env 0" and p = "[2]" and ps = "[(- 1, [1]), (1, [3])]"] win(2)
    by (simp add: SessionState_init_def)
qed

end
