(* ===== verification/Fgw_Restart.thy ===== *)
theory Fgw_Restart
  imports Fgw_Tunnel
begin

text \<open>
  A peer that restarts. An Inport counts its sessions from 1 again whenever it is started, and the stream of the
  Outport keeps its table of segments already seen; a HELLO with a new generation resets the epochs and the race
  statistics only. So the segments of the first sessions after a restart are taken for duplicates.
\<close>

declare split_paired_All [simp del] split_paired_Ex [simp del]

section \<open>Segments that were seen\<close>

definition unheard :: "'a world \<Rightarrow> 'a world \<Rightarrow> bool" where
  "unheard w w' \<longleftrightarrow> w_app w' = w_app w \<and> w_trace w' = w_trace w \<and> ds_sessions (w_ds w') = ds_sessions (w_ds w) \<and>
     ds_dedup_map (w_ds w') = ds_dedup_map (w_ds w)"

lemma unheard_refl [simp]: "unheard w w"
  by (simp add: unheard_def)

lemma unheard_trans: "unheard w w' \<Longrightarrow> unheard w' w'' \<Longrightarrow> unheard w w''"
  by (simp add: unheard_def)

lemma unheard_upd_mgr [simp]: "unheard w (upd_mgr f w)"
  by (simp add: unheard_def)

lemma unheard_hello: "unheard w (process_hello env r payload w)"
  by (auto simp: unheard_def process_hello_def Let_def split: prod.splits)

text \<open>The table holds the key of a segment.\<close>

definition seen :: "'a world \<Rightarrow> FgwSegmentHeader \<times> bytes \<Rightarrow> bool" where
  "seen w seg \<longleftrightarrow> sendable seg \<and> \<not> link_control (fst seg) \<and> smap_count (ds_dedup_map (w_ds w))
     (segment_dedup_key (decoded_header (fst seg) (snd seg)) (rx_ingress_of (decoded_header (fst seg) (snd seg))))"

lemma seen_unheard: "unheard w w' \<Longrightarrow> seen w' seg = seen w seg"
  by (simp add: seen_def unheard_def)

lemma receive_seen:
  assumes "seen w seg"
  shows "unheard w (receive env now H w (r, seg))"
proof -
  obtain h p where seg: "seg = (h, p)" by fastforce
  let ?w1 = "upd_mgr (upd_chan r noteSegmentRecv) w"
  have "receive env now H w (r, seg) = process_session_segment env now H r (decoded_header h p) p ?w1"
    using assms unfolding seg by (simp add: seen_def receive_image link_control_def Let_def)
  moreover have "unheard ?w1 (process_session_segment env now H r (decoded_header h p) p ?w1)"
    using assms unfolding seg by (simp add: seen_def process_session_segment_def unheard_def Let_def)
  ultimately show ?thesis using unheard_trans [OF unheard_upd_mgr] by metis
qed

lemma receives_seen: "\<forall>ev \<in> set evs. seen w (snd ev) \<Longrightarrow> unheard w (foldl (receive env now H) w evs)"
proof (induction evs arbitrary: w)
  case (Cons ev evs)
  have one: "unheard w (receive env now H w ev)" using receive_seen [of w "snd ev" env now H "fst ev"] Cons.prems by simp
  then have "unheard (receive env now H w ev) (foldl (receive env now H) (receive env now H w ev) evs)"
    using Cons by (simp add: seen_unheard)
  with one show ?case using unheard_trans by simp blast
qed simp

section \<open>A client of the restarted Inport\<close>

lemma client_segments_seen:
  assumes "seg \<in> set (client_segments w0 bufs)" and "unat (ds_segment_size (w_ds w0)) \<le> MAX_PAYLOAD"
    and "ds_local_ingress_id (w_ds w0) = i" and "ip_next_session_id (w_app w0) = 1"
    and "smap_count (ds_dedup_map (w_ds w)) (DedupKey i 1 0 1)"
    and "\<forall>n < length (pieces_of w0 bufs). smap_count (ds_dedup_map (w_ds w)) (DedupKey i 1 (of_nat n) 0)"
  shows "seen w seg"
proof -
  have ps: "\<forall>p \<in> set (pieces_of w0 bufs). p \<noteq> [] \<and> length p \<le> MAX_PAYLOAD" using pieces_of_small [OF _ assms(2)] by blast
  consider "seg = (segment_header (w_ds w0) i 1 0 FLAG_SYN 0, [])"
    | n where "n < length (pieces_of w0 bufs)" "seg = data_segments (w_ds w0) i 1 0 (pieces_of w0 bufs) ! n"
    using assms(1,3,4) by (auto simp: client_segments_def in_set_conv_nth Let_def)
  then show ?thesis
  proof cases
    case 1
    moreover have "hdr_seq_num (segment_header (w_ds w0) i 1 0 FLAG_SYN 0) = 0"
      by (simp add: segment_header_def FgwSegmentHeader_init_def Let_def)
    ultimately show ?thesis using assms(5) by (simp add: seen_def sendable_def syn_header_flags segment_dedup_key_def)
  next
    case 2
    then have "sendable seg" using ps by (simp add: sendable_def data_segments_nth)
    then show ?thesis using assms(6) 2 by (simp add: seen_def data_segments_nth data_header_flags segment_dedup_key_def)
  qed
qed

text \<open>C25: An Inport that is started again counts its sessions from 1. If the Outport still has the SYN and the
  first numbers of the old session 1 in its table of seen segments (the last 4096 that came in), everything
  the first client writes through the restarted Inport within these numbers is taken for duplicates, also
  after a HELLO with any generation and also if the old session was closed: no session is opened, nothing is
  delivered, no relay is made.\<close>

theorem restarted_inport_is_not_heard:
  assumes "mgr_reachable env m" and "w0 = host_world (inport_boot i seg_size win crc route m)" and "links_ok env w0"
    and "inport_accept env now ts addr w0 = (c, w1)" and "w2 = foldl (\<lambda>w buf. client_on_read env now c buf w) w1 bufs"
    and "sent_on links (w_mgr w0) (w_mgr w2) evs" and "\<forall>s \<in> set (liveChannels (w_mgr w0)). \<exists>r. links r = Some s"
    and "smap_count (ds_dedup_map (w_ds w)) (DedupKey i 1 0 1)"
    and "\<forall>n < length (pieces_of w0 bufs). smap_count (ds_dedup_map (w_ds w)) (DedupKey i 1 (of_nat n) 0)"
    and "host_world hst = process_hello env' rh hello w" and "\<forall>r. scratch_of r hst = []"
    and "w' = host_world (foldl (arrive env' now' (outport_ops env' now' ts')) hst evs)"
  shows "w_app w' = w_app w \<and> w_trace w' = w_trace w \<and> ds_sessions (w_ds w') = ds_sessions (w_ds w)"
proof -
  have reach: "inport_reachable env (inport_boot i seg_size win crc route m)" by (rule inport_reachable.boot [OF assms(1)])
  have w0: "find_session k w0 = None" "ip_next_session_id (w_app w0) = 1" "ds_local_ingress_id (w_ds w0) = i" for k
    by (simp_all add: assms(2) inport_boot_def new_DataStream_def inport_init_def find_session_def Let_def split: prod.split)
  note wire = client_on_wire [OF reach assms(2,3) w0(1) assms(4-7)]
  from wire(2) obtain segs where segs: "\<forall>r. concat (on_link r evs) = wire_image (segs r)"
    "\<forall>r. set (segs r) \<subseteq> set (client_segments w0 bufs)" by blast
  have size: "unat (ds_segment_size (w_ds w0)) \<le> MAX_PAYLOAD" using wire(1) by (simp add: can_send_defs)
  have seen: "seen w seg" if "seg \<in> set (client_segments w0 bufs)" for seg
    by (rule client_segments_seen [OF that size w0(3,2) assms(8,9)])
  then have "\<forall>r. \<forall>hp \<in> set (segs r). sendable hp" using segs(2) by (auto simp: seen_def)
  then obtain ms where ms: "\<forall>r. on_link r ms = segs r"
      "w' = foldl (receive env' now' (outport_ops env' now' ts')) (process_hello env' rh hello w) ms"
    using links_merge [of segs hst evs env' now' "outport_ops env' now' ts'"] segs(1) assms(10-12) by auto
  have "\<forall>ev \<in> set ms. seen w (snd ev)"
    using ms(1) segs(2) seen by (simp add: on_link_members(1) [of ms "seen w"]) blast
  then have "unheard (process_hello env' rh hello w) w'"
    unfolding ms(2) by (intro receives_seen) (simp add: seen_unheard [OF unheard_hello])
  then have "unheard w w'" by (rule unheard_trans [OF unheard_hello])
  then show ?thesis by (simp add: unheard_def)
qed

text \<open>An Outport that has seen the SYN and the first number of session 1 before; the new client writes the first
  bytes of a greeting.\<close>

definition sample_remembers :: "outport world" where
  "sample_remembers = upd_ds (record_dedup (DedupKey 7 1 0 0)) (upd_ds (record_dedup (DedupKey 7 1 0 1)) (host_world sample_outport))"

definition sample_second :: "inport world" where
  "sample_second = foldl (\<lambda>w buf. client_on_read open_env 0 0 buf w)
     (snd (inport_accept open_env 0 0 ''client'' (host_world (sample_ingress 0)))) [[5, 1]]"

definition sample_second_sent :: "(chan_ref \<times> bytes) list" where
  "sample_second_sent = [(0, concat (drop (length (ch_wire (m_heap (w_mgr (host_world (sample_ingress 0))) 0)))
     (ch_wire (m_heap (w_mgr sample_second) 0))))]"

theorem restarted_inport_is_not_heard_witness:
  "w_trace (host_world (foldl (arrive open_env 0 (outport_ops open_env 0 0))
     \<lparr>host_scratch = [], host_world = process_hello open_env 0 [] sample_remembers\<rparr> sample_second_sent)) = []"
proof -
  let ?hst = "\<lparr>host_scratch = [], host_world = process_hello open_env 0 [] sample_remembers\<rparr>"
  have boot: "host_world (sample_ingress 0) = host_world (inport_boot 7 2 16 True 0 sample_manager)" by (simp add: sample_ingress_def)
  have sent: "sent_on (\<lambda>x. if x = 0 then Some 0 else None) (w_mgr (host_world (sample_ingress 0))) (w_mgr sample_second) sample_second_sent"
    by (simp add: sent_on_def written_on_def sample_second_sent_def)
  have pieces: "length (pieces_of (host_world (sample_ingress 0)) [[5, 1]]) = 1"
    by (simp add: pieces_of_def sample_ingress_facts(6) cut.simps)
  have seen: "smap_count (ds_dedup_map (w_ds sample_remembers)) (DedupKey 7 1 0 1)"
    "smap_count (ds_dedup_map (w_ds sample_remembers)) (DedupKey 7 1 0 0)" "w_trace sample_remembers = []"
    by (simp_all add: sample_remembers_def record_dedup_def kDedupRing_def smap_count_def smap_find_def sample_outport_def
        outport_boot_def new_DataStream_def)
  from restarted_inport_is_not_heard [OF sample_manager_reachable boot sample_ingress_facts(2) sample_accept sample_second_def sent
      sample_uplink_ends seen(1) _ _ _ refl, where hst = ?hst and env' = open_env and now' = 0 and ts' = 0 and rh = 0 and hello = "[]"]
  show ?thesis using pieces seen by (simp add: scratch_of_def)
qed

end
