(* ===== verification/Fgw_Typing.thy ===== *)
theory Fgw_Typing
  imports Fgw_Setup
begin

text \<open>
  The type of the wires in whole runs: in every reachable Inport and Outport, each write that a link accepted was
  one segment as the encoder writes it.
\<close>

declare split_paired_All [simp del] split_paired_Ex [simp del]

definition typed_wires :: "'a world \<Rightarrow> bool" where
  "typed_wires w = wires_ok (w_mgr w)"

lemma typed_same [simp]:
  "typed_wires (put_session k st w) = typed_wires w" "typed_wires (erase_session k w) = typed_wires w"
  "typed_wires (w\<lparr>w_trace := tr\<rparr>) = typed_wires w" "typed_wires (upd_app g w) = typed_wires w"
  "typed_wires (w\<lparr>w_app := a\<rparr>) = typed_wires w"
  "typed_wires (upd_fs h f v) = typed_wires v" "typed_wires (upd_rs h f' v') = typed_wires v'"
  by (simp_all add: typed_wires_def)

lemma typed_stream [simp]:
  assumes "typed_wires w"
  shows "typed_wires (snd (sendSessionData env now sid buf key w))" "typed_wires (closeSession env now sid key w)"
    "typed_wires (snd (openSession env now sid ho w))"
  using assms by (simp_all add: typed_wires_def wires_ok_sessions)

lemma typed_quiet: "quiet w w' \<Longrightarrow> typed_wires w \<Longrightarrow> typed_wires w'"
  by (simp add: quiet_def typed_wires_def)

lemma typed_links: "mgr_step env (w_mgr w) m \<Longrightarrow> typed_wires w \<Longrightarrow> typed_wires (upd_mgr (\<lambda>_. m) w)"
  using mgr_step_wires by (auto simp: typed_wires_def)

section \<open>Inport\<close>

lemma typed_fs_close: "typed_wires w \<Longrightarrow> typed_wires (fs_close env now h w)"
  by (simp add: fs_close_def Let_def)

lemma typed_inport:
  assumes "typed_wires w"
  shows "typed_wires (fs_onSessionData env now h sid buf w)" "typed_wires (client_on_read env now h buf w)"
    "typed_wires (client_on_close env now h w)" "typed_wires (snd (inport_accept env now ts addr w))"
    "typed_wires (inport_stop env now w)"
proof -
  have "typed_wires (foldl (\<lambda>w kv. fs_close env now (snd kv) w) v xs)" if "typed_wires v"
    for v and xs :: "(u32 \<times> handler_ref) list"
    using that by (rule foldl_inv [where P = typed_wires]) (rule typed_fs_close)
  then show "typed_wires (inport_stop env now w)" using assms by (simp add: inport_stop_def Let_def)
qed (use assms in \<open>simp_all add: fs_onSessionData_def client_on_read_def fs_onClientBytes_def client_on_close_def
    typed_fs_close inport_accept_def case_prod_beta Let_def\<close>)

interpretation inport_typed: handler_safety "inport_ops env now" typed_wires "\<lambda>_ _ _. True" for env now
  by unfold_locales
    (auto simp: inport_ops_def fs_onSessionClose_def typed_fs_close typed_inport elim: typed_quiet)

lemma inport_typed_wires: "inport_reachable env hst \<Longrightarrow> typed_wires (host_world hst)"
proof (induction rule: inport_reachable.induct)
  case (boot m i seg win crc route)
  then show ?case using mgr_reachable_wires [of env m]
    by (simp add: inport_boot_def new_DataStream_def typed_wires_def addBytesSubscriber_def)
next
  case (step hst hst')
  from step(2,3) show ?case
    by (induction rule: inport_step.induct) (simp_all add: inport_typed.I_read inport_typed.I_tick typed_links typed_inport)
qed

section \<open>Outport\<close>

lemma typed_send: "typed_wires w \<Longrightarrow> typed_wires (rs_sendToPeer env now h buf w)"
  by (simp add: rs_sendToPeer_def Let_def)

lemma typed_reply: "typed_wires w \<Longrightarrow> typed_wires (rs_writeReply env now h rep w)"
  by (simp add: rs_writeReply_def typed_send)

lemma typed_rs_close: "typed_wires w \<Longrightarrow> typed_wires (rs_close env now h w)"
  by (simp add: rs_close_def Let_def)

lemma typed_connect: "typed_wires w \<Longrightarrow> typed_wires (rs_startConnect env now h host port w)"
  by (simp add: rs_startConnect_def typed_rs_close typed_reply Let_def)

lemma typed_flush: "typed_wires w \<Longrightarrow> typed_wires (rs_flush env now counted h w)"
  by (simp add: rs_flush_def Let_def)

lemmas typed_relay = typed_send typed_reply typed_rs_close typed_connect typed_flush

lemma typed_parse:
  assumes "typed_wires w"
  shows "typed_wires (snd (tryParseMethods env now h w))" "typed_wires (snd (tryParseRequest env now h w))"
  using assms by (simp_all add: tryParseMethods_def tryParseRequest_def typed_relay Let_def split: request.split)

lemma typed_feed: "typed_wires w \<Longrightarrow> typed_wires (feedRx env now h b w)"
proof -
  assume "typed_wires w"
  then have more: "typed_wires (more_rx h b w)" by (simp add: more_rx_def)
  show ?thesis
  proof (cases "rs_state (relay h w)")
    case ST_AWAIT_METHODS
    obtain ret w' where p: "tryParseMethods env now h (more_rx h b w) = (ret, w')" by fastforce
    then have "typed_wires w'" using typed_parse(1) [OF more, of env now h] by simp
    then show ?thesis using ST_AWAIT_METHODS p more by (simp add: feedRx_more feed_methods add_rx_def typed_parse typed_relay)
  qed (simp_all add: feedRx_more feed_request add_rx_def more typed_parse typed_relay)
qed

lemma typed_outport:
  assumes "typed_wires w"
  shows "typed_wires (remote_on_open env now h w)" "typed_wires (remote_on_read env now h buf w)"
    "typed_wires (remote_on_close env now h w)" "typed_wires (outport_stop env now w)"
proof -
  have "typed_wires (foldl (\<lambda>w kv. rs_close env now (snd kv) w) v xs)" if "typed_wires v"
    for v and xs :: "(session_key \<times> handler_ref) list"
    using that by (rule foldl_inv [where P = typed_wires]) (rule typed_rs_close)
  then show "typed_wires (outport_stop env now w)" using assms by (simp add: outport_stop_def Let_def)
qed (use assms in \<open>simp_all add: remote_on_open_def remote_on_read_def remote_on_close_def rs_onRemoteOpen_def
    rs_onRemoteBytes_def typed_relay Let_def\<close>)

interpretation outport_typed: handler_safety "outport_ops env now ts" typed_wires "\<lambda>_ _ _. True" for env now ts
  by unfold_locales
    (auto simp: outport_ops_def outport_unknown_def outport_ensureSession_def typed_feed typed_relay Let_def
      elim: typed_quiet split: option.splits)

lemma outport_typed_wires: "outport_reachable env hst \<Longrightarrow> typed_wires (host_world hst)"
proof (induction rule: outport_reachable.induct)
  case (boot m i seg win crc route)
  then show ?case using mgr_reachable_wires [of env m]
    by (simp add: outport_boot_def new_DataStream_def typed_wires_def addBytesSubscriber_def)
next
  case (step hst hst')
  from step(2,3) show ?case
    by (induction rule: outport_step.induct) (simp_all add: outport_typed.I_read outport_typed.I_tick typed_links typed_outport)
qed

section \<open>Both\<close>

lemma frames_are_segments:
  "\<forall>b \<in> set bs. is_frame b \<Longrightarrow> \<exists>segs. bs = map (\<lambda>(h, p). segment_image h p) segs \<and> (\<forall>seg \<in> set segs. sendable seg)"
proof (induction bs)
  case (Cons b bs)
  then obtain segs h p where "bs = map (\<lambda>(h, p). segment_image h p) segs" "\<forall>seg \<in> set segs. sendable seg"
    "b = segment_image h p" "length p \<le> MAX_PAYLOAD" by (auto simp: is_frame_def)
  then show ?case by (intro exI [of _ "(h, p) # segs"]) (simp add: sendable_def)
qed simp

text \<open>C18: In every reachable state of an Inport and of an Outport, each write that a link accepted is one whole
  segment as fgwSegmentEncode writes it, with a payload of at most MAX_PAYLOAD bytes: HELLO, heartbeats,
  feedback, SYN, DATA and FIN alike; nothing else ever gets on a wire.\<close>

theorem wires_carry_segments:
  assumes "(\<exists>env hst. inport_reachable env hst \<and> m = w_mgr (host_world hst)) \<or>
    (\<exists>env hst. outport_reachable env hst \<and> m = w_mgr (host_world hst))"
  shows "\<exists>segs. ch_wire (m_heap m r) = map (\<lambda>(h, p). segment_image h p) segs \<and> (\<forall>seg \<in> set segs. sendable seg)"
proof (rule frames_are_segments)
  have "wires_ok m"
    using assms inport_typed_wires outport_typed_wires unfolding typed_wires_def by blast
  then show "\<forall>b \<in> set (ch_wire (m_heap m r)). is_frame b" by (simp add: wires_ok_def chan_ok_def)
qed

theorem wires_carry_segments_witness:
  "\<exists>segs. ch_wire (m_heap (w_mgr sample_receiver) 0) = map (\<lambda>(h, p). segment_image h p) segs \<and>
     (\<forall>seg \<in> set segs. sendable seg)"
proof -
  have "(\<exists>env hst. inport_reachable env hst \<and> w_mgr sample_receiver = w_mgr (host_world hst)) \<or>
      (\<exists>env hst. outport_reachable env hst \<and> w_mgr sample_receiver = w_mgr (host_world hst))"
    using sample_receiver_reachable by fastforce
  from wires_carry_segments [OF this] show ?thesis .
qed

end
