(* ===== verification/Fgw_Links.thy ===== *)
theory Fgw_Links
  imports Fgw_Typing
begin

text \<open>
  What the link selector has to go on in whole runs. The members that would record a round-trip time, a loss rate or
  the segments sent and sent again are never called, so every link of a gateway looks the same but for its priority:
  the mode that is to send on the link with the lowest round-trip time sends on one of the highest priority.
\<close>

declare split_paired_All [simp del] split_paired_Ex [simp del]

text \<open>What IEEE arithmetic says of the \<^verbatim>\<open>double\<close>s of the weight: small integers are exact, and the quotients of
  two 32-bit numbers by 50 are told apart.\<close>

definition double_ok :: "fgw_env \<Rightarrow> bool" where
  "double_ok env \<longleftrightarrow> e_fl env 0 = 0 \<and> e_fl env 1 = 1 \<and> e_fl env 50 = 50 \<and> 0 < e_fl env (99 / 100) \<and>
     (\<forall>p q :: u32. p < q \<longrightarrow> e_fl env (of_nat (unat p) / 50) < e_fl env (of_nat (unat q) / 50))"

lemma link_weight_unmeasured:
  "unmeasured (ch_quality c) \<Longrightarrow> double_ok env \<Longrightarrow> link_weight env c = e_fl env (of_nat (unat (ch_priority c)) / 50)"
  by (auto simp: link_weight_def unmeasured_def double_ok_def)

lemma best_by_priority:
  assumes ok: "wires_ok m" "sort_ok env" "double_ok env" and best: "sel_mode sel = MULTIPATH_BEST" and live: "liveChannels m \<noteq> []"
  shows "\<exists>r \<in> set (liveChannels m). fst (select env (map (m_heap m) (liveChannels m)) sel) = [ch_channel_id (m_heap m r)] \<and>
    (\<forall>r' \<in> set (liveChannels m). ch_priority (m_heap m r') \<le> ch_priority (m_heap m r))"
proof -
  let ?e = "\<lambda>r. (ch_channel_id (m_heap m r), e_fl env (of_nat (unat (ch_priority (m_heap m r))) / 50))"
  define ranked where "ranked = ranked_links env (map (m_heap m) (liveChannels m))"
  have "filter isLive (map (m_heap m) (liveChannels m)) = map (m_heap m) (liveChannels m)"
    by (simp add: liveChannels_def filter_map comp_def)
  moreover have "link_weight env (m_heap m r) = e_fl env (of_nat (unat (ch_priority (m_heap m r))) / 50)" for r
    using wires_ok_at [OF ok(1)] ok(3) by (simp add: link_weight_unmeasured chan_ok_def)
  ultimately have "ranked = e_sort env (map ?e (liveChannels m))"
    by (simp add: ranked_def ranked_links_def comp_def)
  then have r: "mset ranked = mset (map ?e (liveChannels m))" "sorted_wrt (\<lambda>a b. \<not> snd b > snd a) ranked"
    using ok(2) by (auto simp: sort_ok_def)
  have members: "set ranked = ?e ` set (liveChannels m)" using arg_cong [OF r(1), of set_mset] by simp
  then have ne: "ranked \<noteq> []" using live by auto
  then obtain a where a: "a \<in> set (liveChannels m)" "hd ranked = ?e a" using members hd_in_set [OF ne] by auto
  have "ch_priority (m_heap m r') \<le> ch_priority (m_heap m a)" if "r' \<in> set (liveChannels m)" for r'
  proof -
    have "?e r' \<in> set ranked" using members that by auto
    then have "\<not> snd (?e a) < snd (?e r')" using r(2) a(2) ne by (cases ranked) auto
    then have "\<not> ch_priority (m_heap m a) < ch_priority (m_heap m r')"
      using ok(3) unfolding double_ok_def snd_conv by blast
    then show ?thesis by (simp only: not_less)
  qed
  moreover have "fst (select env (map (m_heap m) (liveChannels m)) sel) = [fst (hd ranked)]"
    using best live ne by (simp add: select_def ranked_def)
  ultimately show ?thesis using a by auto
qed

text \<open>C26: In every reachable state of an Inport and of an Outport the round-trip time, the loss rate, the
  segments sent and the segments sent again of every link are 0, so the status reports zeros, and in the mode
  BEST, which is to send on the link with the lowest round-trip time, the link chosen is one of the highest
  configured priority among the live ones.\<close>

theorem links_are_never_measured:
  assumes "(\<exists>env hst. inport_reachable env hst \<and> m = w_mgr (host_world hst)) \<or>
    (\<exists>env hst. outport_reachable env hst \<and> m = w_mgr (host_world hst))"
    and "sort_ok env" and "double_ok env"
  shows "(\<forall>lq \<in> set (collectLinkQualities m).
      flq_rtt_ms lq = 0 \<and> flq_loss_rate lq = 0 \<and> flq_send_segments lq = 0 \<and> flq_rexmit_segments lq = 0) \<and>
    (sel_mode (m_selector m) = MULTIPATH_BEST \<and> liveChannels m \<noteq> [] \<longrightarrow>
      (\<exists>r \<in> set (liveChannels m).
        fst (select env (map (m_heap m) (liveChannels m)) (m_selector m)) = [ch_channel_id (m_heap m r)] \<and>
        (\<forall>r' \<in> set (liveChannels m). ch_priority (m_heap m r') \<le> ch_priority (m_heap m r))))"
proof -
  have ok: "wires_ok m" using assms(1) inport_typed_wires outport_typed_wires unfolding typed_wires_def by blast
  then show ?thesis
    using best_by_priority [OF ok assms(2,3)] wires_ok_at [OF ok]
    by (auto simp: collectLinkQualities_def Let_def chan_ok_def unmeasured_def)
qed

section \<open>Two links\<close>

declare One_nat_def [simp del]

definition sample_two_links :: FgwConfig where
  "sample_two_links = sample_config\<lparr>cfg_multipath_mode := 0,
     cfg_channels := [sample_channel, sample_channel\<lparr>cc_channel_id := 2, cc_priority := 200\<rparr>]\<rparr>"

definition sample_two_dialing :: manager where
  "sample_two_dialing = snd (mgr_start open_env 0 sample_two_links manager_init)"

definition sample_two :: manager where
  "sample_two = tcp_on_open open_env 5 1 0 (tcp_on_open open_env 5 0 0 sample_two_dialing)"

lemma sample_two_dialing_facts:
  "m_channels sample_two_dialing = [(1, 0), (2, 1)]" "sel_mode (m_selector sample_two_dialing) = MULTIPATH_BEST"
  "ch_kind (m_heap sample_two_dialing 0) = CHANNEL_TCP" "ch_kind (m_heap sample_two_dialing 1) = CHANNEL_TCP"
  "ch_tcp_ptr (m_heap sample_two_dialing 0) = Some 0" "ch_tcp_ptr (m_heap sample_two_dialing 1) = Some 0"
  "ch_channel_id (m_heap sample_two_dialing 0) = 1" "ch_channel_id (m_heap sample_two_dialing 1) = 2"
  "ch_priority (m_heap sample_two_dialing 0) = 100" "ch_priority (m_heap sample_two_dialing 1) = 200"
  "\<not> ch_stalled (m_heap sample_two_dialing 0)" "\<not> ch_stalled (m_heap sample_two_dialing 1)"
  by (simp_all add: sample_two_dialing_def mgr_start_def startHeartbeat_def addChannel_def sample_config_def
      sample_two_links_def sample_channel_def manager_init_def FgwConfig_init_def alloc_chan_def chan_defs open_env_def
      multipath_mode_cast_def setMode_def LinkSelector_init_def smap_find_def smap_count_def upd_chan_def)

lemma tcp_opened:
  assumes "ch_tcp_ptr (m_heap m r) = Some h" and "\<not> ch_stalled (m_heap m r)"
  obtains f where "tcp_on_open env now r h m = upd_chan r f m" "isLive (f (m_heap m r))"
    "ch_kind (f (m_heap m r)) = ch_kind (m_heap m r)" "ch_priority (f (m_heap m r)) = ch_priority (m_heap m r)"
    "ch_channel_id (f (m_heap m r)) = ch_channel_id (m_heap m r)"
proof -
  define c where "c = snd (markConnected now True (m_heap m r))"
  obtain f where f: "tcp_on_open env now r h m = upd_chan r f (upd_chan r (\<lambda>_. c) m)" "same_identity (f c) c"
    using sendHello_effect [of env now r "upd_chan r (\<lambda>_. c) m"] assms
    by (auto simp: tcp_on_open_def c_def markConnected_def Let_def onChannelConnected_def)
  note id = same_identity_fields [OF f(2)] same_identity_live [OF f(2)]
  show ?thesis
    by (rule that [of "\<lambda>_. f c"])
      (use id assms(2) in \<open>simp_all add: f(1) upd_chan_def\<close>, simp_all add: c_def markConnected_def isLive_def Let_def)
qed

lemma sample_two_facts:
  "mgr_reachable open_env sample_two" "liveChannels sample_two = [0, 1]" "sel_mode (m_selector sample_two) = MULTIPATH_BEST"
  "ch_channel_id (m_heap sample_two 0) = 1" "ch_channel_id (m_heap sample_two 1) = 2"
  "ch_priority (m_heap sample_two 0) = 100" "ch_priority (m_heap sample_two 1) = 200"
proof -
  note d = sample_two_dialing_facts
  obtain f where f: "tcp_on_open open_env 5 0 0 sample_two_dialing = upd_chan 0 f sample_two_dialing"
    "isLive (f (m_heap sample_two_dialing 0))" "ch_priority (f (m_heap sample_two_dialing 0)) = 100"
    "ch_channel_id (f (m_heap sample_two_dialing 0)) = 1"
    by (rule tcp_opened [OF d(5,11), of open_env 5]) (simp add: d)
  obtain g where g: "tcp_on_open open_env 5 1 0 (upd_chan 0 f sample_two_dialing) = upd_chan 1 g (upd_chan 0 f sample_two_dialing)"
    "isLive (g (m_heap sample_two_dialing 1))" "ch_priority (g (m_heap sample_two_dialing 1)) = 200"
    "ch_channel_id (g (m_heap sample_two_dialing 1)) = 2"
    by (rule tcp_opened [of "upd_chan 0 f sample_two_dialing" 1 0 open_env 5]) (simp_all add: d)
  have two: "sample_two = upd_chan 1 g (upd_chan 0 f sample_two_dialing)" by (simp add: sample_two_def f(1) g(1))
  show "liveChannels sample_two = [0, 1]" "sel_mode (m_selector sample_two) = MULTIPATH_BEST"
    "ch_channel_id (m_heap sample_two 0) = 1" "ch_channel_id (m_heap sample_two 1) = 2"
    "ch_priority (m_heap sample_two 0) = 100" "ch_priority (m_heap sample_two 1) = 200"
    by (simp_all add: two f g d liveChannels_def)
  have "mgr_reachable open_env sample_two_dialing"
    unfolding sample_two_dialing_def by (rule mgr_reachable.step [OF mgr_reachable.init mgr_step.start])
  then have "mgr_reachable open_env (tcp_on_open open_env 5 0 0 sample_two_dialing)"
    by (rule mgr_reachable.step) (rule mgr_step.opened, simp add: d)
  then show "mgr_reachable open_env sample_two"
    unfolding sample_two_def by (rule mgr_reachable.step) (rule mgr_step.opened, simp add: f(1) d)
qed

lemma double_ok_open_env: "double_ok open_env"
proof -
  have "rat_of_nat (unat p) / 50 < rat_of_nat (unat q) / 50" if "p < q" for p q :: u32
  proof (rule divide_strict_right_mono)
    show "rat_of_nat (unat p) < rat_of_nat (unat q)" using that unfolding of_nat_less_iff word_less_nat_alt .
  qed simp
  then show ?thesis by (simp add: double_ok_def open_env_def)
qed

theorem links_are_never_measured_witness:
  "fst (select open_env (map (m_heap sample_two) [0, 1]) (m_selector sample_two)) = [2]"
proof -
  let ?hst = "inport_boot 7 2 16 True 0 sample_two"
  let ?m = "w_mgr (host_world ?hst)"
  have m: "liveChannels ?m = [0, 1]" "m_selector ?m = m_selector sample_two" "m_heap ?m = m_heap sample_two"
    using sample_two_facts(2)
    by (simp_all add: inport_boot_def new_DataStream_def liveChannels_def addBytesSubscriber_def)
  have "inport_reachable open_env ?hst" by (rule inport_reachable.boot [OF sample_two_facts(1)])
  then have run: "(\<exists>env hst. inport_reachable env hst \<and> ?m = w_mgr (host_world hst)) \<or>
      (\<exists>env hst. outport_reachable env hst \<and> ?m = w_mgr (host_world hst))" by blast
  from links_are_never_measured [OF run sort_ok_open_env double_ok_open_env] show ?thesis
    unfolding m using sample_two_facts by auto
qed

end
