(* ===== verification/Spec2Isabelle.thy ===== *)
theory Spec2Isabelle
  imports Fgw_VmRuns Fgw_Relayed_Tunnel Fgw_Answers Fgw_Refinement Fgw_Wrap Fgw_Restart Fgw_Links
begin

text \<open>
  libfgw is a gateway library in C++. A SOCKS5 client connects to an \<^bold>\<open>Inport\<close>; its bytes are cut
  into numbered segments that travel over several links at once, perhaps through a \<^bold>\<open>Transit\<close>, to an
  \<^bold>\<open>Outport\<close>, which puts them in order again, serves SOCKS5 and connects to the target. This development
  translates the implementation under \<^verbatim>\<open>src/src\<close> into definitions, operation by operation, and proves
  what makes it correct. The code runs on the framework zce, which is not part of the repository.

  \<^bold>\<open>Parts.\<close>

    \<^item> \<open>Fgw_Prelude\<close>: machine words, byte lists, \<^verbatim>\<open>std::map\<close> as an association list in key order.
    \<^item> \<open>Fgw_Proto\<close> (\<^verbatim>\<open>zfgw.h\<close>, \<^verbatim>\<open>zfgw_proto.h\<close>): constants, error codes, the fourteen message structs.
    \<^item> \<open>Fgw_Crc\<close>, \<open>Fgw_Segment\<close>, \<open>Fgw_Framing\<close> (\<^verbatim>\<open>zfgw_segment\<close>, the loop of \<^verbatim>\<open>onChannelBytes\<close>): CRC table,
      segment encoder and decoder, reassembly of segments from a byte stream.
    \<^item> \<open>Fgw_Pack\<close>, \<open>Fgw_Structs\<close> (\<^verbatim>\<open>zfgw_pack.cpp\<close>): the generated serialisers. The primitives of zce are the
      record \<open>zds\<close>, what the generated code needs of them is \<open>zds_laws\<close>, and \<open>be_zds\<close> is an instance.
    \<^item> \<open>Fgw_Channel\<close> (\<^verbatim>\<open>zfgw_channel\<close>): one link over TCP, and over UTP as the default build has it.
    \<^item> \<open>Fgw_Selector\<close>, \<open>Fgw_Manager\<close> (\<^verbatim>\<open>zfgw_channel_manager\<close>): choice of links; the channel table with
      listener, HELLO, heartbeats, stall detection and reconnecting.
    \<^item> \<open>Fgw_DataStream\<close> (\<^verbatim>\<open>zfgw_datastream\<close>): sessions, sending, receiving with deduplication, window and
      in-order delivery, link feedback. Handlers of sessions are the record \<open>session_ops\<close>.
    \<^item> \<open>Fgw_Contract\<close>, \<open>Fgw_Safety\<close>, \<open>Fgw_Receive\<close>, \<open>Fgw_Window\<close>, \<open>Fgw_Invariants\<close>, \<open>Fgw_Opening\<close>: the interface
      between the stream and its handlers as locales (\<open>session_handler\<close>, \<open>segment_invariant\<close>, \<open>handler_safety\<close>,
      \<open>steady_handler\<close>, \<open>handler_invariant\<close>, \<open>opening_handler\<close>), with what the receive path promises once for
      every handler.
    \<^item> \<open>Fgw_Sessions\<close>, \<open>Fgw_Link_Control\<close>, \<open>Fgw_Send\<close>, \<open>Fgw_EndToEnd\<close>, \<open>Fgw_Wrap\<close>, \<open>Fgw_Restart\<close>: what is sent,
      what one arriving segment may change, what arrives of what was sent, what happens where the numbers wrap
      and where a peer starts again.
    \<^item> \<open>Fgw_Reassembly\<close>, \<open>Fgw_Refinement\<close>: the receive path as a refinement of an abstract reassembly machine.
    \<^item> \<open>Fgw_Setup\<close>: the sizes of a stream, in every reachable gateway; the send loop as a partial function.
    \<^item> \<open>Fgw_Wires\<close>, \<open>Fgw_Typing\<close>, \<open>Fgw_Links\<close>: what can be on a wire and what is measured of a link, for each
      operation and in every reachable gateway; what that means for the choice of links.
    \<^item> \<open>Fgw_Inport\<close>, \<open>Fgw_InportRuns\<close> (\<^verbatim>\<open>zfgw_inport\<close>): client sessions, whole runs, end-to-end delivery.
    \<^item> \<open>Fgw_Outport\<close>, \<open>Fgw_Socks\<close>, \<open>Fgw_OutportRuns\<close> (\<^verbatim>\<open>zfgw_outport\<close>): relays, the SOCKS5 server, whole runs.
    \<^item> \<open>Fgw_Transit\<close> (\<^verbatim>\<open>zfgw_transit\<close>): forwarding by routing tables, dialing and redialing, whole runs.
    \<^item> \<open>Fgw_Relay_Stream\<close>, \<open>Fgw_Tunnel\<close>, \<open>Fgw_Relayed_Tunnel\<close>, \<open>Fgw_Answers\<close>: the roles put together: a client of
      an Inport, links, perhaps a Transit, an Outport and its target; and the way back.
    \<^item> \<open>Fgw_Config\<close> (\<^verbatim>\<open>zfgw.cpp\<close>): the configuration file.
    \<^item> \<open>Fgw_Vm\<close>, \<open>Fgw_VmRuns\<close> (\<^verbatim>\<open>zfgw_vm\<close>, \<^verbatim>\<open>zfgw_inc.h\<close>): the machine that brings the services up and down and
      answers the RPC methods, and its whole runs.

  \<^bold>\<open>State and effects.\<close> An object is a record, a pointer to a channel or session is an index into a heap of
  such records, and an operation maps the state to the state, with the result code as the C++ \<^verbatim>\<open>int\<close>. What a
  link or client was sent is kept in ghost fields (\<open>ch_wire\<close>, \<open>fs_client_out\<close>, \<open>rs_remote_out\<close>), what the
  stream told its handlers in \<open>w_trace\<close>. The answers of the operating system and of zce (connect, write,
  listen, memory, clock, random number, sorting of equal weights) are the record \<open>fgw_env\<close>; the clock is an
  argument \<open>now\<close>. A hypothesis on them is named: \<open>roomy\<close> (memory does not run out), \<open>writes_ok\<close>, \<open>sort_ok\<close>.
  Runs are inductive step relations (\<open>mgr_step\<close>, \<open>inport_step\<close>, \<open>outport_step\<close>, \<open>transit_step\<close>, \<open>vm_step\<close>);
  their steps are the entry points of the code with arbitrary arguments, in any order.

  \<^bold>\<open>What is shown.\<close> Codec: segments, frames and all messages survive the wire however it
  is cut; decoders are total and bounded; the CRC equals its bit-serial definition and catches every burst
  of up to four bytes. Sending and receiving: data is cut, numbered and copied to live links as the mode
  says; duplicates and segments outside the window change nothing; delivery is in order, without gap or
  repetition, and complete under the stated conditions; the receive path refines an abstract machine that
  knows neither headers nor links; the send loop ends; only whole segments get on a wire. The tunnel: what a
  client writes after its SOCKS5 request reaches the target it asked for, over several links and through a
  Transit, and what the target answers reaches the client, as long as it fits one receive window (what comes
  early beyond it is dropped and never sent again) and the receiver has not seen the session's numbers before;
  at every moment on the way the client has whole pieces in order. The key \<open>0xFFFFFFFF\<close>, which the code
  reads as "my own ingress", is left out there (\<open>genuine\<close>). Links: liveness after heartbeats,
  reconnecting, choice of links. Roles: the invariants of whole runs of the Inport, the Outport, the Transit
  and the machine; the SOCKS5 server against RFC 1928, independent of chunking; the Transit forwards whole
  segments unchanged to the links that are connected and drops the others. Control: bring-up is all or nothing, tear-down leaves nothing open, a configuration
  outlives the host. Some theorems state what the code does where that is hardly meant: a sequence number
  spent on a failed send, bytes dropped by an early FIN, a stopped manager that dials again, a session that
  stalls where its numbers wrap, sessions of a restarted Inport that are taken for duplicates, links that
  are chosen by a round-trip time nobody measures.

  \<^bold>\<open>Bounds and fuel.\<close> No definition has fuel. The reassembly loop recurses on the length of its buffer, the
  send loop on the bytes left, the relay's parser on the rank of its state and its buffer. Words have the
  width of the source and wrap; counters that wrap (sequence numbers, ticks, epochs) are compared as the
  code compares them. The end-to-end theorems bound a session to fewer than \<open>2 ^ 32\<close> pieces less the window, and those that say that
  everything arrives also bound what is under way to one receive window.

  \<^bold>\<open>Not modelled.\<close> Mutexes and the interleaving of threads inside one method; the lifetime of objects and
  the reuse of pointers as keys (\<^verbatim>\<open>scratch_\<close>, \<^verbatim>\<open>links_\<close>); the UTP channel with libutp, which is an external
  library behind a build switch; sockets, acceptors, timers and file handles beyond their answers; logging;
  the registration of the machine with its host (\<^verbatim>\<open>zfgw.cpp\<close>, last lines); doubles are rationals with a
  rounding function as parameter.
\<close>

end
